(* ===== verification/Prelude.thy ===== *)
theory Prelude
  imports Main "HOL-Library.Word" "HOL-Library.AList" "HOL-Library.Monad_Syntax"
begin

text \<open>
  Shared vocabulary of the StreamForge development: the machine types of the C++ sources,
  memory copies on byte buffers, decimal printing and parsing of unsigned integers
  (\<^verbatim>\<open>std::to_string\<close>, \<^verbatim>\<open>std::stoull\<close>), and the generic lemmas on lists, words and
  association lists that the component theories use.

  Conventions used by every theory:
  \<^item> \<^verbatim>\<open>uint8_t\<close>, \<^verbatim>\<open>uint16_t\<close>, \<^verbatim>\<open>uint32_t\<close>, \<^verbatim>\<open>uint64_t\<close> are words of that width;
    \<^verbatim>\<open>int32_t\<close> and \<^verbatim>\<open>int64_t\<close> are words read with \<open>sint\<close>;
  \<^item> \<^verbatim>\<open>size_t\<close> values (container sizes, cursors, counts of objects in memory) are \<open>nat\<close>,
    since a C++ container never reaches \<open>2 ^ 64\<close> elements;
  \<^item> a result of type \<open>'a option\<close> is \<open>None\<close> where the C++ program has no defined
    behaviour (it accesses memory out of bounds or after it was freed) or does not return.
\<close>

unbundle bit_operations_syntax

section \<open>Machine types\<close>

type_synonym u8 = "8 word"
type_synonym u16 = "16 word"
type_synonym u32 = "32 word"
type_synonym u64 = "64 word"
type_synonym i32 = "32 word"
type_synonym i64 = "64 word"
type_synonym bytes = "u8 list"

named_theorems bytes_simps \<open>lengths and contents of encoded byte sequences\<close>
named_theorems fs_simps \<open>effects of file operations on the file system\<close>
named_theorems seg_simps \<open>effects of segment operations on the fields of a segment\<close>

section \<open>Words\<close>

lemma unat_u8_lt [simp]: "unat (x :: u8) < 256"
  using unsigned_less [of x, where ?'a = nat] by simp

lemma unat_u16_lt [simp]: "unat (x :: u16) < 65536"
  using unsigned_less [of x, where ?'a = nat] by simp

lemma unat_u32_lt [simp]: "unat (x :: u32) < 4294967296"
  using unsigned_less [of x, where ?'a = nat] by simp

lemma unat_u64_lt [simp]: "unat (x :: u64) < 18446744073709551616"
  using unsigned_less [of x, where ?'a = nat] by simp

lemma unat_of_nat_u16: "n < 65536 \<Longrightarrow> unat (of_nat n :: u16) = n"
  by (simp add: unat_of_nat take_bit_nat_eq_self)

lemma unat_of_nat_u32: "n < 4294967296 \<Longrightarrow> unat (of_nat n :: u32) = n"
  by (simp add: unat_of_nat take_bit_nat_eq_self)

lemma unat_of_nat_u64: "n < 18446744073709551616 \<Longrightarrow> unat (of_nat n :: u64) = n"
  by (simp add: unat_of_nat take_bit_nat_eq_self)

lemmas unat_of_nat_small = unat_of_nat_u16 unat_of_nat_u32 unat_of_nat_u64

lemma unat_add_small_u32:
  "unat (a :: u32) + unat b < 4294967296 \<Longrightarrow> unat (a + b) = unat a + unat b"
  by (simp add: unat_word_ariths)

lemma unat_add_small_u64:
  "unat (a :: u64) + unat b < 18446744073709551616 \<Longrightarrow> unat (a + b) = unat a + unat b"
  by (simp add: unat_word_ariths)

lemma unat_sub_small:
  "unat (b :: 'a :: len word) \<le> unat a \<Longrightarrow> unat (a - b) = unat a - unat b"
  by (simp add: unat_sub word_le_nat_alt)

lemma unat_ucast_u32_u64 [simp]: "unat (ucast (x :: u32) :: u64) = unat x"
proof -
  have "unat x < 2 ^ 64" by (rule less_trans [OF unat_u32_lt]) simp
  then show ?thesis by (simp only: unsigned_ucast_eq take_bit_nat_eq_self len_num0 len_bit0) (simp add: take_bit_nat_eq_self)
qed

lemma unat_ucast_u16_u32 [simp]: "unat (ucast (x :: u16) :: u32) = unat x"
proof -
  have "unat x < 2 ^ 32" by (rule less_trans [OF unat_u16_lt]) simp
  then show ?thesis by (simp add: unsigned_ucast_eq take_bit_nat_eq_self)
qed

lemma ucast_u16_small: "unat (n :: u32) < 65536 \<Longrightarrow> unat (ucast n :: u16) = unat n"
  by (simp add: unsigned_ucast_eq unsigned_take_bit_eq take_bit_nat_eq_self)

lemma int_div_top: "0 \<le> u \<Longrightarrow> u < 2 * k \<Longrightarrow> u div k = (if k \<le> u then 1 else 0)" for u k :: int
  by (simp add: div_pos_geq div_pos_pos_trivial)

lemma sint_u64: "sint (x :: u64) = (if unat x < 9223372036854775808 then int (unat x) else int (unat x) - 18446744073709551616)"
proof -
  define u where "u = uint x"
  have u: "0 \<le> u" "u < 18446744073709551616" using unsigned_less [of x, where ?'a = int] by (simp_all add: u_def)
  have "sint x = signed_take_bit 63 u" using sint_uint [of x] by (simp add: u_def)
  also have "\<dots> = take_bit 64 u - 2 ^ 64 * of_bool (bit u 63)"
    using signed_take_bit_eq_take_bit_minus [of 63 u] by simp
  also have "take_bit 64 u = u" using u by (intro take_bit_int_eq_self) simp_all
  also have "bit u 63 \<longleftrightarrow> 9223372036854775808 \<le> u"
    using int_div_top [of u 9223372036854775808] u by (simp add: bit_iff_odd)
  finally have "sint x = u - 2 ^ 64 * of_bool (9223372036854775808 \<le> u)" .
  moreover have a: "int (unat x) = u" by (simp add: u_def)
  moreover have "unat x < 9223372036854775808 \<longleftrightarrow> \<not> 9223372036854775808 \<le> u" using a by linarith
  ultimately show ?thesis by simp
qed

lemma xor_left_cancel: "(c :: 'a :: len word) XOR a = c XOR b \<Longrightarrow> a = b"
proof -
  assume "c XOR a = c XOR b"
  then have "c XOR (c XOR a) = c XOR (c XOR b)" by simp
  then show "a = b" by (simp add: xor.assoc [symmetric])
qed

lemma word_neq_xor_iff: "(a :: 'a :: len word) XOR b = 0 \<longleftrightarrow> a = b"
  using xor_left_cancel [of a a b] by auto

lemma ucast_u8_u32_id [simp]: "(ucast (ucast (a :: u8) :: u32) :: u8) = a"
  by (rule bit_word_eqI) (auto simp: bit_simps)

lemma ucast_u8_u32_inj: "(ucast (a :: u8) :: u32) = ucast b \<Longrightarrow> a = b"
  by (metis ucast_u8_u32_id)

section \<open>Raw memory\<close>

text \<open>
  \<^verbatim>\<open>std::memcpy\<close> of \<open>src\<close> to position \<open>k\<close> of a buffer: undefined when the copy leaves
  the buffer. \<open>mem_read buf k n\<close> reads \<open>n\<close> bytes from position \<open>k\<close>, undefined out of bounds.
\<close>

definition mem_write :: "bytes \<Rightarrow> nat \<Rightarrow> bytes \<Rightarrow> bytes option" where
  "mem_write buf k src =
     (if k + length src \<le> length buf
      then Some (take k buf @ src @ drop (k + length src) buf) else None)"

definition mem_read :: "bytes \<Rightarrow> nat \<Rightarrow> nat \<Rightarrow> bytes option" where
  "mem_read buf k n = (if k + n \<le> length buf then Some (take n (drop k buf)) else None)"

lemma mem_write_mid:
  assumes "length old = length src" "length pre = k"
  shows "mem_write (pre @ old @ post) k src = Some (pre @ src @ post)"
  using assms by (simp add: mem_write_def)

lemma mem_write_length: "mem_write buf k src = Some buf' \<Longrightarrow> length buf' = length buf"
  by (auto simp: mem_write_def split: if_splits)

lemma mem_read_mid:
  "length pre = k \<Longrightarrow> length x = n \<Longrightarrow> mem_read (pre @ x @ post) k n = Some x"
  by (simp add: mem_read_def)

section \<open>Decimal numerals\<close>

text \<open>
  \<^verbatim>\<open>std::to_string\<close> of an unsigned value, and the value that \<^verbatim>\<open>std::stoul\<close> and
  \<^verbatim>\<open>std::stoull\<close> read from a run of digits.
\<close>

definition digit :: "nat \<Rightarrow> char" where
  "digit n = char_of (48 + n)"

fun to_string :: "nat \<Rightarrow> string" where
  "to_string n = (if n < 10 then [digit n] else to_string (n div 10) @ [digit (n mod 10)])"

declare to_string.simps [simp del]

definition is_digit :: "char \<Rightarrow> bool" where
  "is_digit c \<longleftrightarrow> 48 \<le> (of_char c :: nat) \<and> (of_char c :: nat) \<le> 57"

definition digit_val :: "char \<Rightarrow> nat" where
  "digit_val c = of_char c - 48"

fun digits_val :: "nat \<Rightarrow> string \<Rightarrow> nat" where
  "digits_val acc [] = acc"
| "digits_val acc (c # cs) = digits_val (10 * acc + digit_val c) cs"

lemma of_char_digit: "n < 10 \<Longrightarrow> of_char (digit n) = 48 + n"
  by (simp add: digit_def)

lemma is_digit_digit [simp]: "n < 10 \<Longrightarrow> is_digit (digit n)"
  by (simp add: is_digit_def of_char_digit)

lemma digit_val_digit [simp]: "n < 10 \<Longrightarrow> digit_val (digit n) = n"
  by (simp add: digit_val_def of_char_digit)

lemma digits_val_append: "digits_val acc (xs @ ys) = digits_val (digits_val acc xs) ys"
  by (induction xs arbitrary: acc) auto

lemma to_string_digits: "c \<in> set (to_string n) \<Longrightarrow> is_digit c"
proof (induction n rule: to_string.induct)
  case (1 n)
  then show ?case
    by (cases "n < 10") (auto simp: to_string.simps [of n])
qed

lemma to_string_nonempty [simp]: "to_string n \<noteq> []"
  by (simp add: to_string.simps)

lemma digits_val_to_string: "digits_val 0 (to_string n) = n"
proof (induction n rule: to_string.induct)
  case (1 n)
  then show ?case
    by (cases "n < 10") (simp_all add: to_string.simps [of n] digits_val_append)
qed

lemma length_to_string_le: "n < 10 ^ k \<Longrightarrow> 0 < k \<Longrightarrow> length (to_string n) \<le> k"
proof (induction n arbitrary: k rule: to_string.induct)
  case (1 n)
  show ?case
  proof (cases "n < 10")
    case True
    then show ?thesis using "1.prems" by (simp add: to_string.simps)
  next
    case False
    then have k: "1 < k" using "1.prems" by (cases "k = 1") auto
    then have "n div 10 < 10 ^ (k - 1)"
      using "1.prems" by (simp add: less_mult_imp_div_less power_eq_if)
    then have "length (to_string (n div 10)) \<le> k - 1"
      using "1.IH" [OF False, of "k - 1"] k by simp
    then show ?thesis using False k by (simp add: to_string.simps [of n])
  qed
qed

lemma digits_val_replicate_0: "digits_val 0 (replicate k (digit 0)) = 0"
  by (induction k) auto

section \<open>Lists\<close>

lemma take_drop_cancel [simp]: "take n xs @ drop n xs = xs"
  by simp

lemma sum_list_append_map: "sum_list (map f (xs @ ys)) = sum_list (map f xs) + sum_list (map f ys)"
  for f :: "'a \<Rightarrow> nat"
  by simp

lemma last_in_set_conv: "xs \<noteq> [] \<Longrightarrow> \<exists>ys. xs = ys @ [last xs]"
  by (metis append_butlast_last_id)

lemma length_concat_map: "length (concat (map f xs)) = sum_list (map (\<lambda>x. length (f x)) xs)"
  by (induction xs) auto

lemma take_concat_prefix:
  "length (concat (map f xs)) \<le> n \<Longrightarrow>
   drop (length (concat (map f xs))) (concat (map f (xs @ ys))) = concat (map f ys)"
  by simp

end
