(* ===== verification/Status.thy ===== *)
theory Status
  imports Prelude
begin

text \<open>
  \<^verbatim>\<open>include/streamforge/Status.hpp\<close> and \<^verbatim>\<open>include/streamforge/StorageConfig.hpp\<close>: status
  codes with their message, results that carry a value or a failed status, and the storage
  configuration. Paths are lists of components; \<open>path_string\<close> renders them the way
  \<^verbatim>\<open>std::filesystem::path::string\<close> does on Windows.
\<close>

datatype StatusCode = OK | NotFound | InvalidArgument | OffsetOutOfRange | Corrupt | IoError
  | AlreadyExists | RecordTooLarge

datatype Status = Status (code: StatusCode) (message: string)

definition Status_OK :: Status where
  "Status_OK = Status OK ''''"

definition ok :: "Status \<Rightarrow> bool" where
  "ok st \<longleftrightarrow> code st = OK"

text \<open>A \<^verbatim>\<open>Result<T>\<close>: \<open>Inl\<close> carries a status, \<open>Inr\<close> a value.\<close>

type_synonym 'a Result = "Status + 'a"

lemma ok_Status_OK [simp]: "ok Status_OK"
  by (simp add: ok_def Status_OK_def)

lemma code_Status_OK [simp]: "code Status_OK = OK"
  by (simp add: Status_OK_def)

lemma ok_Status [simp]: "ok (Status c m) \<longleftrightarrow> c = OK"
  by (simp add: ok_def)

section \<open>Paths\<close>

type_synonym path = "string list"

fun path_string :: "path \<Rightarrow> string" where
  "path_string [] = ''''"
| "path_string [c] = c"
| "path_string (c # d # cs) = c @ [CHR 0x5C] @ path_string (d # cs)"

section \<open>Configuration\<close>

definition DEFAULT_SEGMENT_MAX_BYTES :: u32 where
  "DEFAULT_SEGMENT_MAX_BYTES = 64 * 1024 * 1024"

definition DEFAULT_INDEX_INTERVAL_BYTES :: u32 where
  "DEFAULT_INDEX_INTERVAL_BYTES = 4096"

definition MAX_RECORD_SIZE :: u32 where
  "MAX_RECORD_SIZE = 1024 * 1024"

definition DEFAULT_RETENTION_MS :: u64 where
  "DEFAULT_RETENTION_MS = 604800000"

definition DEFAULT_RETENTION_BYTES :: u64 where
  "DEFAULT_RETENTION_BYTES = 0"

definition DEFAULT_RETENTION_CHECK_INTERVAL_MS :: u64 where
  "DEFAULT_RETENTION_CHECK_INTERVAL_MS = 60000"

record StorageConfig =
  data_dir :: string
  segment_max_bytes :: u32
  index_interval_bytes :: u32
  sync_on_append :: bool
  default_retention_ms :: u64
  default_retention_bytes :: u64
  retention_check_interval_ms :: u64
  startup_scan :: string

definition default_StorageConfig :: StorageConfig where
  "default_StorageConfig =
     \<lparr> data_dir = ''./data'',
       segment_max_bytes = DEFAULT_SEGMENT_MAX_BYTES,
       index_interval_bytes = DEFAULT_INDEX_INTERVAL_BYTES,
       sync_on_append = True,
       default_retention_ms = DEFAULT_RETENTION_MS,
       default_retention_bytes = DEFAULT_RETENTION_BYTES,
       retention_check_interval_ms = DEFAULT_RETENTION_CHECK_INTERVAL_MS,
       startup_scan = ''quick'' \<rparr>"

lemma unat_MAX_RECORD_SIZE [simp]: "unat MAX_RECORD_SIZE = 1048576"
  by (simp add: MAX_RECORD_SIZE_def)

end
