(* ===== verification/FileHandle.thy ===== *)
theory FileHandle
  imports Status
begin

text \<open>
  \<^verbatim>\<open>include/streamforge/FileHandle.hpp\<close> over an explicit file system: an association list from
  paths to files. A file has its contents and the length of the prefix that the last
  \<^verbatim>\<open>FlushFileBuffers\<close> made durable. The outcome of each Win32 call is a parameter, a record
  \<open>os\<close> of functions that may let any call fail or any write be short; \<open>reliable os\<close> names
  the case in which the documented success paths are taken.

  A handle is the path it was opened on. The sources open at most one writing handle per
  file and read only through handles of files they have not removed, so path and open file
  object coincide.
\<close>

section \<open>File system\<close>

record disk_file =
  f_data :: bytes
  f_synced :: nat

record filesys =
  fs_files :: "(path \<times> disk_file) list"
  fs_dirs :: "path list"

definition empty_file :: disk_file where
  "empty_file = \<lparr> f_data = [], f_synced = 0 \<rparr>"

definition fexists :: "filesys \<Rightarrow> path \<Rightarrow> bool" where
  "fexists fs p \<longleftrightarrow> map_of (fs_files fs) p \<noteq> None"

definition get_file :: "filesys \<Rightarrow> path \<Rightarrow> disk_file" where
  "get_file fs p = (case map_of (fs_files fs) p of None \<Rightarrow> empty_file | Some f \<Rightarrow> f)"

definition put_file :: "filesys \<Rightarrow> path \<Rightarrow> disk_file \<Rightarrow> filesys" where
  "put_file fs p f = fs\<lparr> fs_files := AList.update p f (fs_files fs) \<rparr>"

abbreviation fdata :: "filesys \<Rightarrow> path \<Rightarrow> bytes" where
  "fdata fs p \<equiv> f_data (get_file fs p)"

text \<open>\<^verbatim>\<open>std::filesystem::exists\<close>, \<^verbatim>\<open>create_directories\<close>, the regular files of a directory in
  the order the iterator yields them.\<close>

definition fs_exists :: "filesys \<Rightarrow> path \<Rightarrow> bool" where
  "fs_exists fs p \<longleftrightarrow> fexists fs p \<or> p \<in> set (fs_dirs fs)"

definition create_directories :: "filesys \<Rightarrow> path \<Rightarrow> filesys" where
  "create_directories fs d =
     fs\<lparr> fs_dirs := fs_dirs fs @ filter (\<lambda>p. p \<notin> set (fs_dirs fs)) (map (\<lambda>n. take n d) [1..<Suc (length d)]) \<rparr>"

definition dir_files :: "filesys \<Rightarrow> path \<Rightarrow> path list" where
  "dir_files fs d = filter (\<lambda>p. p \<noteq> [] \<and> butlast p = d) (remdups (map fst (fs_files fs)))"

section \<open>Win32 outcomes\<close>

record os =
  os_CreateFileW :: "filesys \<Rightarrow> path \<Rightarrow> bool"
  os_WriteFile :: "filesys \<Rightarrow> path \<Rightarrow> bytes \<Rightarrow> bool \<times> nat"
  os_ReadFile :: "filesys \<Rightarrow> path \<Rightarrow> nat \<Rightarrow> nat \<Rightarrow> bool"
  os_GetFileSizeEx :: "filesys \<Rightarrow> path \<Rightarrow> bool"
  os_SetEndOfFile :: "filesys \<Rightarrow> path \<Rightarrow> nat \<Rightarrow> bool"
  os_FlushFileBuffers :: "filesys \<Rightarrow> path \<Rightarrow> bool"
  os_DeleteFile :: "filesys \<Rightarrow> path \<Rightarrow> bool"

definition reliable :: "os \<Rightarrow> bool" where
  "reliable w \<longleftrightarrow>
     (\<forall>fs p. os_CreateFileW w fs p) \<and>
     (\<forall>fs p bs. os_WriteFile w fs p bs = (True, length bs)) \<and>
     (\<forall>fs p k n. os_ReadFile w fs p k n) \<and>
     (\<forall>fs p. os_GetFileSizeEx w fs p) \<and>
     (\<forall>fs p n. os_SetEndOfFile w fs p n) \<and>
     (\<forall>fs p. os_FlushFileBuffers w fs p) \<and>
     (\<forall>fs p. os_DeleteFile w fs p)"

definition ideal_os :: os where
  "ideal_os =
     \<lparr> os_CreateFileW = (\<lambda>_ _. True), os_WriteFile = (\<lambda>_ _ bs. (True, length bs)),
       os_ReadFile = (\<lambda>_ _ _ _. True), os_GetFileSizeEx = (\<lambda>_ _. True),
       os_SetEndOfFile = (\<lambda>_ _ _. True), os_FlushFileBuffers = (\<lambda>_ _. True),
       os_DeleteFile = (\<lambda>_ _. True) \<rparr>"

lemma reliable_ideal_os [simp]: "reliable ideal_os"
  by (simp add: reliable_def ideal_os_def)

section \<open>Handles\<close>

datatype FileHandle = INVALID_HANDLE_VALUE | Handle path

definition fh_is_valid :: "FileHandle \<Rightarrow> bool" where
  "fh_is_valid h \<longleftrightarrow> h \<noteq> INVALID_HANDLE_VALUE"

text \<open>The append-mode \<^verbatim>\<open>write\<close>: \<^verbatim>\<open>WriteFile\<close> at offset \<open>0xFFFFFFFF'FFFFFFFF\<close> appends what it
  transfers; the call succeeds only when all of the buffer was transferred.\<close>

definition fh_write :: "os \<Rightarrow> filesys \<Rightarrow> FileHandle \<Rightarrow> bytes \<Rightarrow> bool \<times> filesys" where
  "fh_write w fs h buffer =
     (case h of INVALID_HANDLE_VALUE \<Rightarrow> (False, fs)
      | Handle p \<Rightarrow>
          (let (res, written) = os_WriteFile w fs p buffer;
               f = get_file fs p
           in (res \<and> written = length buffer,
               put_file fs p (f\<lparr> f_data := f_data f @ take written buffer \<rparr>))))"

text \<open>\<^verbatim>\<open>read_at\<close>: the bytes when exactly the requested number could be read.\<close>

definition fh_read_at :: "os \<Rightarrow> filesys \<Rightarrow> FileHandle \<Rightarrow> nat \<Rightarrow> nat \<Rightarrow> bytes option" where
  "fh_read_at w fs h file_offset n =
     (case h of INVALID_HANDLE_VALUE \<Rightarrow> None
      | Handle p \<Rightarrow>
          (let data = fdata fs p; read_count = min n (length data - file_offset)
           in if os_ReadFile w fs p file_offset n \<and> read_count = n
              then Some (take n (drop file_offset data)) else None))"

definition fh_get_size :: "os \<Rightarrow> filesys \<Rightarrow> FileHandle \<Rightarrow> u64" where
  "fh_get_size w fs h =
     (case h of INVALID_HANDLE_VALUE \<Rightarrow> 0
      | Handle p \<Rightarrow> if os_GetFileSizeEx w fs p then of_nat (length (fdata fs p)) else 0)"

definition fh_flush :: "os \<Rightarrow> filesys \<Rightarrow> FileHandle \<Rightarrow> filesys" where
  "fh_flush w fs h =
     (case h of INVALID_HANDLE_VALUE \<Rightarrow> fs
      | Handle p \<Rightarrow>
          if os_FlushFileBuffers w fs p \<and> fexists fs p
          then (let f = get_file fs p in put_file fs p (f\<lparr> f_synced := length (f_data f) \<rparr>))
          else fs)"

definition fh_truncate :: "os \<Rightarrow> filesys \<Rightarrow> FileHandle \<Rightarrow> nat \<Rightarrow> bool \<times> filesys" where
  "fh_truncate w fs h new_size =
     (case h of INVALID_HANDLE_VALUE \<Rightarrow> (False, fs)
      | Handle p \<Rightarrow>
          if os_SetEndOfFile w fs p new_size
          then (let f = get_file fs p; d = f_data f
                in (True, put_file fs p
                      (f\<lparr> f_data := take new_size d @ replicate (new_size - length d) 0,
                          f_synced := min (f_synced f) new_size \<rparr>)))
          else (False, fs))"

definition open_read_write :: "os \<Rightarrow> filesys \<Rightarrow> path \<Rightarrow> bool \<Rightarrow> FileHandle \<times> filesys" where
  "open_read_write w fs p create_if_missing =
     (if \<not> os_CreateFileW w fs p then (INVALID_HANDLE_VALUE, fs)
      else if fexists fs p then (Handle p, fs)
      else if create_if_missing then (Handle p, put_file fs p empty_file)
      else (INVALID_HANDLE_VALUE, fs))"

definition open_read_only :: "os \<Rightarrow> filesys \<Rightarrow> path \<Rightarrow> FileHandle" where
  "open_read_only w fs p =
     (if os_CreateFileW w fs p \<and> fexists fs p then Handle p else INVALID_HANDLE_VALUE)"

text \<open>\<^verbatim>\<open>std::filesystem::remove\<close> with its error code ignored.\<close>

definition fs_remove :: "os \<Rightarrow> filesys \<Rightarrow> path \<Rightarrow> filesys" where
  "fs_remove w fs p =
     (if os_DeleteFile w fs p then fs\<lparr> fs_files := AList.delete p (fs_files fs) \<rparr> else fs)"

section \<open>Laws\<close>

lemma get_put_file [simp, fs_simps]: "get_file (put_file fs p f) q = (if q = p then f else get_file fs q)"
  by (simp add: get_file_def put_file_def update_conv')

lemma fexists_put_file [simp, fs_simps]: "fexists (put_file fs p f) q \<longleftrightarrow> q = p \<or> fexists fs q"
  by (auto simp: fexists_def put_file_def update_conv')

lemma dirs_put_file [simp]: "fs_dirs (put_file fs p f) = fs_dirs fs"
  by (simp add: put_file_def)

lemma get_file_remove [fs_simps]:
  "os_DeleteFile w fs p \<Longrightarrow> get_file (fs_remove w fs p) q = (if q = p then empty_file else get_file fs q)"
  by (simp add: get_file_def fs_remove_def delete_conv')

lemma fexists_remove [fs_simps]:
  "os_DeleteFile w fs p \<Longrightarrow> fexists (fs_remove w fs p) q \<longleftrightarrow> q \<noteq> p \<and> fexists fs q"
  by (simp add: fexists_def fs_remove_def delete_conv')

lemma get_file_remove_other [simp]: "q \<noteq> p \<Longrightarrow> get_file (fs_remove w fs p) q = get_file fs q"
  by (simp add: get_file_def fs_remove_def delete_conv')

lemma fexists_remove_other [simp]: "q \<noteq> p \<Longrightarrow> fexists (fs_remove w fs p) q = fexists fs q"
  by (simp add: fexists_def fs_remove_def delete_conv')

lemma files_create_directories [simp]:
  "get_file (create_directories fs d) p = get_file fs p"
  "fexists (create_directories fs d) p = fexists fs p"
  by (simp_all add: get_file_def fexists_def create_directories_def)

lemma dir_files_create_directories [simp]: "dir_files (create_directories fs d) e = dir_files fs e"
  by (simp add: dir_files_def create_directories_def)

lemma set_dir_files: "p \<in> set (dir_files fs d) \<longleftrightarrow> fexists fs p \<and> p \<noteq> [] \<and> butlast p = d"
  by (auto simp: dir_files_def fexists_def map_of_eq_None_iff image_iff)

text \<open>Operations on a handle leave every other path alone, whatever the operating system does.\<close>

lemma fh_write_other: "q \<noteq> p \<Longrightarrow> get_file (snd (fh_write w fs (Handle p) b)) q = get_file fs q"
  by (simp add: fh_write_def Let_def split: prod.splits)

lemma fh_flush_data [simp]: "f_data (get_file (fh_flush w fs h) q) = f_data (get_file fs q)"
  by (simp add: fh_flush_def Let_def split: FileHandle.splits)

lemma fh_flush_exists [simp]: "fexists (fh_flush w fs h) q = fexists fs q"
  by (auto simp: fh_flush_def Let_def split: FileHandle.splits)

lemma fh_flush_other [simp]: "q \<noteq> p \<Longrightarrow> get_file (fh_flush w fs (Handle p)) q = get_file fs q"
  by (simp add: fh_flush_def Let_def)

lemma fh_flush_synced:
  "reliable w \<Longrightarrow> fexists fs p \<Longrightarrow> f_synced (get_file (fh_flush w fs (Handle p)) p) = length (fdata fs p)"
  by (simp add: fh_flush_def reliable_def Let_def)

text \<open>Under a reliable operating system.\<close>

lemma reliable_write:
  "reliable w \<Longrightarrow> fh_write w fs (Handle p) b =
     (True, put_file fs p ((get_file fs p)\<lparr> f_data := fdata fs p @ b \<rparr>))"
  by (simp add: fh_write_def reliable_def Let_def)

lemma reliable_read:
  "reliable w \<Longrightarrow> fh_read_at w fs (Handle p) k n =
     (if n = 0 \<or> k + n \<le> length (fdata fs p) then Some (take n (drop k (fdata fs p))) else None)"
  by (auto simp: fh_read_at_def reliable_def Let_def min_def)

lemma reliable_size:
  "reliable w \<Longrightarrow> fh_get_size w fs (Handle p) = of_nat (length (fdata fs p))"
  by (simp add: fh_get_size_def reliable_def)

lemma reliable_truncate:
  "reliable w \<Longrightarrow> n \<le> length (fdata fs p) \<Longrightarrow> fh_truncate w fs (Handle p) n =
     (True, put_file fs p ((get_file fs p)\<lparr> f_data := take n (fdata fs p),
        f_synced := min (f_synced (get_file fs p)) n \<rparr>))"
  by (simp add: fh_truncate_def reliable_def Let_def)

lemma reliable_open_rw:
  "reliable w \<Longrightarrow> open_read_write w fs p True = (Handle p, if fexists fs p then fs else put_file fs p empty_file)"
  by (simp add: open_read_write_def reliable_def)

lemma reliable_open_ro:
  "reliable w \<Longrightarrow> open_read_only w fs p = (if fexists fs p then Handle p else INVALID_HANDLE_VALUE)"
  by (simp add: open_read_only_def reliable_def)

lemmas reliable_simps = reliable_write reliable_read reliable_size reliable_open_rw reliable_open_ro

lemma get_file_missing: "\<not> fexists fs p \<Longrightarrow> get_file fs p = empty_file"
  by (simp add: get_file_def fexists_def)

lemma empty_file_sel [simp]: "f_data empty_file = []" "f_synced empty_file = 0"
  by (simp_all add: empty_file_def)

text \<open>Two file systems that agree outside a set of paths.\<close>

definition same_outside :: "path set \<Rightarrow> filesys \<Rightarrow> filesys \<Rightarrow> bool" where
  "same_outside P fs fs' \<longleftrightarrow> fs_dirs fs' = fs_dirs fs \<and>
     (\<forall>q. q \<notin> P \<longrightarrow> get_file fs' q = get_file fs q \<and> fexists fs' q = fexists fs q)"

lemma same_outside_refl [simp]: "same_outside P fs fs"
  by (simp add: same_outside_def)

lemma same_outside_trans: "same_outside P a b \<Longrightarrow> same_outside P b c \<Longrightarrow> same_outside P a c"
  by (simp add: same_outside_def)

lemma same_outside_mono: "same_outside P a b \<Longrightarrow> P \<subseteq> Q \<Longrightarrow> same_outside Q a b"
  by (auto simp: same_outside_def)

lemma same_outside_put_file [simp]: "p \<in> P \<Longrightarrow> same_outside P fs (put_file fs p f)"
  by (auto simp: same_outside_def)

lemma same_outside_flush [simp]: "p \<in> P \<Longrightarrow> same_outside P fs (fh_flush w fs (Handle p))"
  by (simp add: fh_flush_def Let_def)

lemma same_outsideD:
  "same_outside P fs fs' \<Longrightarrow> q \<notin> P \<Longrightarrow> get_file fs' q = get_file fs q"
  "same_outside P fs fs' \<Longrightarrow> q \<notin> P \<Longrightarrow> fexists fs' q = fexists fs q"
  "same_outside P fs fs' \<Longrightarrow> fs_dirs fs' = fs_dirs fs"
  by (auto simp: same_outside_def)

end
