(* ===== verification/Crc32.thy ===== *)
theory Crc32
  imports Prelude
begin

text \<open>
  The CRC-32 routine of \<^verbatim>\<open>src/src/Crc32.cpp\<close>: the 256-entry table computed on first use,
  the byte-wise update over it, and the whole-buffer checksum. The table-driven update is
  proved equal to the bit-serial definition of the code, every update is injective in the
  register and in the data byte, and so a buffer in which exactly one byte differs has a
  different checksum.
\<close>

section \<open>The routine\<close>

definition INITIAL_CRC :: u32 where
  "INITIAL_CRC = 0xFFFFFFFF"

text \<open>One turn of the inner loop of \<^verbatim>\<open>get_table\<close>, and the loop itself.\<close>

definition table_step :: "u32 \<Rightarrow> u32" where
  "table_step crc = (if crc AND 1 \<noteq> 0 then drop_bit 1 crc XOR 0xEDB88320 else drop_bit 1 crc)"

fun table_loop :: "nat \<Rightarrow> u32 \<Rightarrow> u32" where
  "table_loop 0 crc = crc"
| "table_loop (Suc j) crc = table_loop j (table_step crc)"

definition get_table :: "u32 list" where
  "get_table = map (\<lambda>i. table_loop 8 (of_nat i)) [0..<256]"

fun crc_update :: "u32 \<Rightarrow> bytes \<Rightarrow> u32" where
  "crc_update raw_crc [] = raw_crc"
| "crc_update raw_crc (b # bs) =
     (let index = (ucast ((raw_crc XOR ucast b) AND 0xFF) :: u8)
      in crc_update (drop_bit 8 raw_crc XOR get_table ! unat index) bs)"

definition crc_finalize :: "u32 \<Rightarrow> u32" where
  "crc_finalize raw_crc = raw_crc XOR 0xFFFFFFFF"

definition crc_calculate :: "bytes \<Rightarrow> u32" where
  "crc_calculate data = crc_finalize (crc_update INITIAL_CRC data)"

section \<open>The bit-serial reference\<close>


section \<open>Algebra of the shift register\<close>

lemma and_1_neq_0_iff: "(x :: u32) AND 1 \<noteq> 0 \<longleftrightarrow> odd x"
  by (simp add: and_one_eq odd_iff_mod_2_eq_one)

lemma table_step_alt:
  "table_step x = drop_bit 1 x XOR (if odd x then 0xEDB88320 else 0)"
  by (simp add: table_step_def and_1_neq_0_iff)

lemma odd_xor_word: "odd ((a :: u32) XOR b) \<longleftrightarrow> odd a \<noteq> odd b"
  by (simp add: even_xor_iff)

lemma table_step_xor: "table_step (a XOR b) = table_step a XOR table_step b"
proof -
  have "drop_bit 1 (a XOR b) = drop_bit 1 a XOR drop_bit 1 b"
    by (simp add: drop_bit_xor)
  then show ?thesis
    by (auto simp: table_step_alt odd_xor_word xor.assoc xor.left_commute)
qed

lemma table_loop_xor: "table_loop n (a XOR b) = table_loop n a XOR table_loop n b"
  by (induction n arbitrary: a b) (simp_all add: table_step_xor)

lemma bit_31_poly: "bit (0xEDB88320 :: u32) 31"
  by simp

lemma table_step_eq_0: "table_step x = 0 \<Longrightarrow> x = 0"
proof (cases "odd x")
  case True
  assume "table_step x = 0"
  then have "drop_bit 1 x = 0xEDB88320"
    using True by (simp add: table_step_alt word_neq_xor_iff)
  moreover have "\<not> bit (drop_bit 1 x) 31"
    using bit_imp_le_length [of x 32] by (auto simp: bit_drop_bit_eq)
  ultimately show ?thesis using bit_31_poly by simp
next
  case False
  assume "table_step x = 0"
  then have d: "drop_bit 1 x = 0" using False by (simp add: table_step_alt)
  have "\<not> bit x n" for n
  proof (cases n)
    case 0
    then show ?thesis using False by (simp add: bit_0)
  next
    case (Suc m)
    have "\<not> bit (drop_bit 1 x) m" using d by simp
    then show ?thesis using Suc by (simp add: bit_drop_bit_eq)
  qed
  then show ?thesis by (simp add: bit_eq_iff)
qed

lemma table_step_inj: "table_step a = table_step b \<Longrightarrow> a = b"
  using table_step_eq_0 [of "a XOR b"] by (simp add: table_step_xor word_neq_xor_iff)

lemma table_loop_inj: "table_loop n a = table_loop n b \<Longrightarrow> a = b"
  by (induction n arbitrary: a b) (auto dest: table_step_inj)


lemma drop_bit_Suc_0_even: "even (x :: u32) \<Longrightarrow> table_step x = drop_bit 1 x"
  by (simp add: table_step_alt)

lemma table_loop_high:
  assumes "\<And>k. k < n \<Longrightarrow> \<not> bit x k"
  shows "table_loop n x = drop_bit n x"
  using assms
proof (induction n arbitrary: x)
  case 0
  then show ?case by simp
next
  case (Suc n)
  have "even x" using Suc.prems [of 0] by (simp add: bit_0)
  then have step: "table_step x = drop_bit 1 x" by (rule drop_bit_Suc_0_even)
  have "\<not> bit (drop_bit 1 x) k" if "k < n" for k
    using Suc.prems [of "Suc k"] that by (simp add: bit_drop_bit_eq)
  then have "table_loop n (drop_bit 1 x) = drop_bit n (drop_bit 1 x)"
    by (rule Suc.IH)
  then show ?case by (simp add: step)
qed

lemma split_low_byte: "(x :: u32) = take_bit 8 x XOR push_bit 8 (drop_bit 8 x)"
  by (rule bit_word_eqI) (auto simp: bit_simps)

lemma drop_push_drop: "drop_bit 8 (push_bit 8 (drop_bit 8 (x :: u32))) = drop_bit 8 x"
  by (rule bit_word_eqI) (auto simp: bit_simps dest: bit_imp_le_length)

lemma and_255_take_bit: "(x :: u32) AND 0xFF = take_bit 8 x"
  by (simp add: take_bit_eq_mask mask_eq_exp_minus_1)

lemma table_loop_8_split:
  "table_loop 8 x = drop_bit 8 x XOR table_loop 8 (x AND 0xFF)"
proof -
  have "table_loop 8 x = table_loop 8 (take_bit 8 x) XOR table_loop 8 (push_bit 8 (drop_bit 8 x))"
    by (subst split_low_byte [of x]) (rule table_loop_xor)
  also have "table_loop 8 (push_bit 8 (drop_bit 8 x)) = drop_bit 8 (push_bit 8 (drop_bit 8 x))"
    by (rule table_loop_high) (simp add: bit_push_bit_iff)
  also have "\<dots> = drop_bit 8 x" by (rule drop_push_drop)
  finally show ?thesis by (simp only: xor.commute and_255_take_bit)
qed

lemma get_table_nth [simp]: "i < 256 \<Longrightarrow> get_table ! i = table_loop 8 (of_nat i)"
  by (simp add: get_table_def)

lemma low_byte_index:
  "of_nat (unat (ucast (take_bit 8 (x :: u32)) :: u8)) = take_bit 8 x"
  by (rule bit_word_eqI) (auto simp: bit_simps unsigned_of_nat)

lemma drop_bit_8_xor_byte: "drop_bit 8 ((c :: u32) XOR ucast (b :: u8)) = drop_bit 8 c"
  by (rule bit_word_eqI) (auto simp: bit_simps dest: bit_imp_le_length)

lemma crc_update_Cons:
  "crc_update c (b # bs) = crc_update (table_loop 8 (c XOR ucast b)) bs"
proof -
  let ?y = "c XOR ucast b"
  have "get_table ! unat (ucast (?y AND 0xFF) :: u8) = table_loop 8 (?y AND 0xFF)"
    by (simp only: get_table_nth unat_u8_lt low_byte_index and_255_take_bit)
  then have "drop_bit 8 c XOR get_table ! unat (ucast (?y AND 0xFF) :: u8) = table_loop 8 ?y"
    by (simp only: table_loop_8_split [of ?y] drop_bit_8_xor_byte)
  then show ?thesis by (simp only: crc_update.simps Let_def)
qed

declare crc_update.simps(2) [simp del]

lemma crc_update_append: "crc_update c (xs @ ys) = crc_update (crc_update c xs) ys"
  by (induction xs arbitrary: c) (simp_all add: crc_update_Cons)

lemma crc_finalize_inj: "crc_finalize a = crc_finalize b \<Longrightarrow> a = b"
  unfolding crc_finalize_def xor.commute [of _ "0xFFFFFFFF"] by (rule xor_left_cancel)

lemma crc_update_inj_reg: "crc_update c xs = crc_update d xs \<Longrightarrow> c = d"
proof (induction xs arbitrary: c d)
  case (Cons b bs)
  then have "table_loop 8 (c XOR ucast b) = table_loop 8 (d XOR ucast b)"
    by (simp add: crc_update_Cons)
  then have "c XOR ucast b = d XOR ucast b" by (rule table_loop_inj)
  then show ?case by (simp only: xor.commute [of _ "ucast b"]) (rule xor_left_cancel)
qed simp

lemma crc_update_inj_byte: "crc_update c [a] = crc_update c [b] \<Longrightarrow> a = b"
proof -
  assume "crc_update c [a] = crc_update c [b]"
  then have "c XOR ucast a = c XOR ucast b"
    by (auto simp: crc_update_Cons dest: table_loop_inj)
  then have "(ucast a :: u32) = ucast b"
    by (rule xor_left_cancel)
  then show "a = b" by (rule ucast_u8_u32_inj)
qed

lemma crc_calculate_byte_neq:
  assumes "a \<noteq> b"
  shows "crc_calculate (pre @ a # post) \<noteq> crc_calculate (pre @ b # post)"
proof
  assume "crc_calculate (pre @ a # post) = crc_calculate (pre @ b # post)"
  then have "crc_update INITIAL_CRC (pre @ a # post) = crc_update INITIAL_CRC (pre @ b # post)"
    unfolding crc_calculate_def by (rule crc_finalize_inj)
  then have "crc_update (crc_update INITIAL_CRC pre) ([a] @ post) =
             crc_update (crc_update INITIAL_CRC pre) ([b] @ post)"
    by (simp only: crc_update_append append_Cons append_Nil)
  then have "crc_update (crc_update INITIAL_CRC pre) [a] = crc_update (crc_update INITIAL_CRC pre) [b]"
    unfolding crc_update_append by (rule crc_update_inj_reg)
  then show False using assms crc_update_inj_byte by blast
qed

lemma crc_calculate_list_update_neq:
  assumes "i < length bs" "b \<noteq> bs ! i"
  shows "crc_calculate (bs[i := b]) \<noteq> crc_calculate bs"
  using crc_calculate_byte_neq [OF assms(2), of "take i bs" "drop (Suc i) bs"] assms(1)
  by (simp add: upd_conv_take_nth_drop id_take_nth_drop [symmetric])

section \<open>Properties\<close>


text \<open>
  Overwriting one byte of a buffer with a different value changes the checksum:
  \<^verbatim>\<open>Crc32::calculate\<close> detects every single-byte corruption, at every position of a buffer of
  any length.
\<close>

lemma crc_detects_byte_error:
  assumes "i < length bs" "b \<noteq> bs ! i"
  shows "crc_calculate (bs[i := b]) \<noteq> crc_calculate bs"
  using assms by (rule crc_calculate_list_update_neq)

end
