(* ===== verification/ByteOrder.thy ===== *)
theory ByteOrder
  imports Prelude
begin

text \<open>
  Object representations of integers on the little-endian x86-64 host, the byte swaps the
  sources spell out, and their round trips. \<open>be16\<close>, \<open>be32\<close> and \<open>be64\<close> are the big-endian
  encodings that both codecs produce.
\<close>

section \<open>Object representation\<close>

definition u16_mem :: "u16 \<Rightarrow> bytes" where
  "u16_mem v = [ucast v, ucast (drop_bit 8 v)]"

definition mem_u16 :: "bytes \<Rightarrow> u16" where
  "mem_u16 bs = ucast (bs ! 0) OR push_bit 8 (ucast (bs ! 1))"

definition u32_mem :: "u32 \<Rightarrow> bytes" where
  "u32_mem v = [ucast v, ucast (drop_bit 8 v), ucast (drop_bit 16 v), ucast (drop_bit 24 v)]"

definition mem_u32 :: "bytes \<Rightarrow> u32" where
  "mem_u32 bs = ucast (bs ! 0) OR push_bit 8 (ucast (bs ! 1)) OR
     push_bit 16 (ucast (bs ! 2)) OR push_bit 24 (ucast (bs ! 3))"

definition u64_mem :: "u64 \<Rightarrow> bytes" where
  "u64_mem v = [ucast v, ucast (drop_bit 8 v), ucast (drop_bit 16 v), ucast (drop_bit 24 v),
     ucast (drop_bit 32 v), ucast (drop_bit 40 v), ucast (drop_bit 48 v), ucast (drop_bit 56 v)]"

definition mem_u64 :: "bytes \<Rightarrow> u64" where
  "mem_u64 bs = ucast (bs ! 0) OR push_bit 8 (ucast (bs ! 1)) OR
     push_bit 16 (ucast (bs ! 2)) OR push_bit 24 (ucast (bs ! 3)) OR
     push_bit 32 (ucast (bs ! 4)) OR push_bit 40 (ucast (bs ! 5)) OR
     push_bit 48 (ucast (bs ! 6)) OR push_bit 56 (ucast (bs ! 7))"

section \<open>Byte swaps\<close>

definition bswap16 :: "u16 \<Rightarrow> u16" where
  "bswap16 v = push_bit 8 v OR drop_bit 8 v"

definition bswap32 :: "u32 \<Rightarrow> u32" where
  "bswap32 v = push_bit 24 (v AND 0x000000FF) OR push_bit 8 (v AND 0x0000FF00) OR
     drop_bit 8 (v AND 0x00FF0000) OR drop_bit 24 (v AND 0xFF000000)"

definition bswap64 :: "u64 \<Rightarrow> u64" where
  "bswap64 v = push_bit 56 (v AND 0x00000000000000FF) OR
     push_bit 40 (v AND 0x000000000000FF00) OR
     push_bit 24 (v AND 0x0000000000FF0000) OR
     push_bit 8 (v AND 0x00000000FF000000) OR
     drop_bit 8 (v AND 0x000000FF00000000) OR
     drop_bit 24 (v AND 0x0000FF0000000000) OR
     drop_bit 40 (v AND 0x00FF000000000000) OR
     drop_bit 56 (v AND 0xFF00000000000000)"

section \<open>Big-endian encodings\<close>

definition be16 :: "u16 \<Rightarrow> bytes" where
  "be16 v = [ucast (drop_bit 8 v), ucast v]"

definition be32 :: "u32 \<Rightarrow> bytes" where
  "be32 v = [ucast (drop_bit 24 v), ucast (drop_bit 16 v), ucast (drop_bit 8 v), ucast v]"

definition be64 :: "u64 \<Rightarrow> bytes" where
  "be64 v = [ucast (drop_bit 56 v), ucast (drop_bit 48 v), ucast (drop_bit 40 v),
     ucast (drop_bit 32 v), ucast (drop_bit 24 v), ucast (drop_bit 16 v), ucast (drop_bit 8 v),
     ucast v]"

lemma length_be [simp, bytes_simps]:
  "length (be16 v) = 2" "length (be32 w) = 4" "length (be64 x) = 8"
  by (simp_all add: be16_def be32_def be64_def)

lemma length_mem [simp, bytes_simps]:
  "length (u16_mem v) = 2" "length (u32_mem w) = 4" "length (u64_mem x) = 8"
  by (simp_all add: u16_mem_def u32_mem_def u64_mem_def)

lemma masks32:
  "(0xFF :: u32) = mask 8" "(0xFF00 :: u32) = push_bit 8 (mask 8)"
  "(0xFF0000 :: u32) = push_bit 16 (mask 8)" "(0xFF000000 :: u32) = push_bit 24 (mask 8)"
  by (simp_all add: mask_eq_exp_minus_1 push_bit_eq_mult)

lemma masks64:
  "(0xFF :: u64) = mask 8" "(0xFF00 :: u64) = push_bit 8 (mask 8)"
  "(0xFF0000 :: u64) = push_bit 16 (mask 8)" "(0xFF000000 :: u64) = push_bit 24 (mask 8)"
  "(0xFF00000000 :: u64) = push_bit 32 (mask 8)" "(0xFF0000000000 :: u64) = push_bit 40 (mask 8)"
  "(0xFF000000000000 :: u64) = push_bit 48 (mask 8)" "(0xFF00000000000000 :: u64) = push_bit 56 (mask 8)"
  by (simp_all add: mask_eq_exp_minus_1 push_bit_eq_mult)

lemma bswap16_layout: "u16_mem (bswap16 v) = be16 v"
  unfolding u16_mem_def be16_def bswap16_def list.inject
  by (intro conjI refl; rule bit_word_eqI, simp add: bit_simps)

lemma bswap32_layout: "u32_mem (bswap32 v) = be32 v"
  unfolding u32_mem_def be32_def bswap32_def masks32 list.inject
  by (intro conjI refl; rule bit_word_eqI, simp add: bit_simps)

lemma bswap64_layout: "u64_mem (bswap64 v) = be64 v"
  unfolding u64_mem_def be64_def bswap64_def masks64 list.inject
  by (intro conjI refl; rule bit_word_eqI, simp add: bit_simps)

text \<open>
  Reading back is proved through the memory representation: the two conversions are
  inverse, and the byte swap reverses the bytes.
\<close>

lemma not_bit_u8_high [simp]: "8 \<le> k \<Longrightarrow> \<not> bit (a :: u8) (k + n)"
  using bit_imp_le_length [of a "k + n"] by auto

lemma u16_mem_mem: "u16_mem (mem_u16 (a # b # rest)) = [a, b]"
  unfolding u16_mem_def mem_u16_def list.inject
  by (intro conjI refl; rule bit_word_eqI, simp add: bit_simps)

lemma u32_mem_mem: "u32_mem (mem_u32 (a # b # c # d # rest)) = [a, b, c, d]"
  unfolding u32_mem_def mem_u32_def list.inject
  by (intro conjI refl; rule bit_word_eqI, simp add: bit_simps)

lemma u64_mem_mem:
  "u64_mem (mem_u64 (a # b # c # d # e # f # g # h # rest)) = [a, b, c, d, e, f, g, h]"
  unfolding u64_mem_def mem_u64_def list.inject
  by (intro conjI refl; rule bit_word_eqI, simp add: bit_simps)

lemma byte_bits_eq:
  "(ucast (drop_bit k (a :: 'a :: len word)) :: u8) = ucast (drop_bit k b) \<Longrightarrow> i < 8 \<Longrightarrow>
   bit a (k + i) = bit b (k + i)"
  by (drule arg_cong [where f = "\<lambda>w. bit w i"]) (auto simp: bit_simps dest: bit_imp_le_length)

lemma byte0_bits_eq:
  "(ucast (a :: 'a :: len word) :: u8) = ucast b \<Longrightarrow> i < 8 \<Longrightarrow> bit a i = bit b i"
  using byte_bits_eq [of 0 a b i] by simp

lemmas byte_bits_eqs = byte0_bits_eq byte_bits_eq [of 8] byte_bits_eq [of 16] byte_bits_eq [of 24]
  byte_bits_eq [of 32] byte_bits_eq [of 40] byte_bits_eq [of 48] byte_bits_eq [of 56]

lemma byte_position:
  assumes "n < 64"
  shows "n = n mod 8 \<or> n = 8 + n mod 8 \<or> n = 16 + n mod 8 \<or> n = 24 + n mod 8 \<or>
    n = 32 + n mod 8 \<or> n = 40 + n mod 8 \<or> n = 48 + n mod 8 \<or> n = 56 + n mod (8 :: nat)"
proof -
  define k i where "k = n div 8" and "i = n mod 8"
  have n: "n = 8 * k + i" by (simp add: k_def i_def)
  have "k < 8" using assms by (simp add: k_def)
  then have "k = 0 \<or> k = 1 \<or> k = 2 \<or> k = 3 \<or> k = 4 \<or> k = 5 \<or> k = 6 \<or> k = 7"
    by linarith
  then show ?thesis using n unfolding i_def [symmetric] by (elim disjE) simp_all
qed

lemma u16_mem_inj: "u16_mem a = u16_mem b \<Longrightarrow> a = b"
proof (rule bit_word_eqI)
  fix n assume eq: "u16_mem a = u16_mem b" and n: "n < LENGTH(16)"
  define i where "i = n mod 8"
  have i: "i < 8" and ns: "n = i \<or> n = 8 + i"
    using n byte_position [of n] unfolding i_def [symmetric] by (auto simp: i_def)
  from ns i eq show "bit a n = bit b n"
    unfolding u16_mem_def list.inject by (elim disjE) (auto dest: byte_bits_eqs)
qed

lemma u32_mem_inj: "u32_mem a = u32_mem b \<Longrightarrow> a = b"
proof (rule bit_word_eqI)
  fix n assume eq: "u32_mem a = u32_mem b" and n: "n < LENGTH(32)"
  define i where "i = n mod 8"
  have i: "i < 8" and ns: "n = i \<or> n = 8 + i \<or> n = 16 + i \<or> n = 24 + i"
    using n byte_position [of n] unfolding i_def [symmetric] by (auto simp: i_def)
  from ns i eq show "bit a n = bit b n"
    unfolding u32_mem_def list.inject by (elim disjE) (auto dest: byte_bits_eqs)
qed

lemma u64_mem_inj: "u64_mem a = u64_mem b \<Longrightarrow> a = b"
proof (rule bit_word_eqI)
  fix n assume eq: "u64_mem a = u64_mem b" and n: "n < LENGTH(64)"
  define i where "i = n mod 8"
  have i: "i < 8" by (simp add: i_def)
  have "n = i \<or> n = 8 + i \<or> n = 16 + i \<or> n = 24 + i
      \<or> n = 32 + i \<or> n = 40 + i \<or> n = 48 + i \<or> n = 56 + i"
    using byte_position [of n] n unfolding i_def by simp
  with i eq show "bit a n = bit b n"
    unfolding u64_mem_def list.inject by (elim disjE) (auto dest: byte_bits_eqs)
qed

lemma mem_u32_mem: "mem_u32 (u32_mem v @ rest) = v"
  by (rule u32_mem_inj) (simp add: u32_mem_def [of v] u32_mem_mem)

lemma mem_u64_mem: "mem_u64 (u64_mem v @ rest) = v"
  by (rule u64_mem_inj) (simp add: u64_mem_def [of v] u64_mem_mem)

lemma be_rev: "be16 v = rev (u16_mem v)" "be32 w = rev (u32_mem w)" "be64 x = rev (u64_mem x)"
  by (simp_all add: be16_def be32_def be64_def u16_mem_def u32_mem_def u64_mem_def)

lemma mem_u16_be: "bswap16 (mem_u16 (be16 v @ rest)) = v"
proof (rule u16_mem_inj)
  have "u16_mem (mem_u16 (be16 v @ rest)) = be16 v"
    by (simp add: be16_def u16_mem_mem)
  then show "u16_mem (bswap16 (mem_u16 (be16 v @ rest))) = u16_mem v"
    by (simp only: bswap16_layout be_rev(1) rev_rev_ident)
qed

lemma mem_u32_be: "bswap32 (mem_u32 (be32 v @ rest)) = v"
proof (rule u32_mem_inj)
  have "u32_mem (mem_u32 (be32 v @ rest)) = be32 v"
    by (simp add: be32_def u32_mem_mem)
  then show "u32_mem (bswap32 (mem_u32 (be32 v @ rest))) = u32_mem v"
    by (simp only: bswap32_layout be_rev(2) rev_rev_ident)
qed

lemma mem_u64_be: "bswap64 (mem_u64 (be64 v @ rest)) = v"
proof (rule u64_mem_inj)
  have "u64_mem (mem_u64 (be64 v @ rest)) = be64 v"
    by (simp add: be64_def u64_mem_mem)
  then show "u64_mem (bswap64 (mem_u64 (be64 v @ rest))) = u64_mem v"
    by (simp only: bswap64_layout be_rev(3) rev_rev_ident)
qed

lemma be32_mem_u32: "length bs = 4 \<Longrightarrow> be32 (bswap32 (mem_u32 (bs @ rest))) = bs"
proof -
  assume "length bs = 4"
  then obtain a b c d where bs: "bs = [a, b, c, d]"
    by (auto simp: length_Suc_conv eval_nat_numeral)
  have "be32 (bswap32 (mem_u32 (bs @ rest))) = rev (u32_mem (bswap32 (mem_u32 (bs @ rest))))"
    by (rule be_rev(2))
  also have "\<dots> = u32_mem (mem_u32 (bs @ rest))"
    by (simp only: bswap32_layout be_rev(2) rev_rev_ident)
  finally show ?thesis by (simp add: bs u32_mem_mem)
qed

lemma be64_mem_u64: "length bs = 8 \<Longrightarrow> be64 (bswap64 (mem_u64 (bs @ rest))) = bs"
proof -
  assume "length bs = 8"
  then obtain a b c d e f g h where bs: "bs = [a, b, c, d, e, f, g, h]"
    by (auto simp: length_Suc_conv eval_nat_numeral)
  have "be64 (bswap64 (mem_u64 (bs @ rest))) = rev (u64_mem (bswap64 (mem_u64 (bs @ rest))))"
    by (rule be_rev(3))
  also have "\<dots> = u64_mem (mem_u64 (bs @ rest))"
    by (simp only: bswap64_layout be_rev(3) rev_rev_ident)
  finally show ?thesis by (simp add: bs u64_mem_mem)
qed

lemma be32_inj [simp]: "be32 a = be32 b \<longleftrightarrow> a = b"
  by (metis append_Nil2 mem_u32_be)

lemma be64_inj [simp]: "be64 a = be64 b \<longleftrightarrow> a = b"
  by (metis append_Nil2 mem_u64_be)

end
