(* ===== verification/RecordCodec.thy ===== *)
theory RecordCodec
  imports Crc32 ByteOrder Status
begin

text \<open>
  The on-disk record format of \<^verbatim>\<open>src/src/RecordCodec.cpp\<close>. A record is
  \<^verbatim>\<open>length(4) crc(4) offset(8) timestamp(8) key_len(4) key value\<close>, all big-endian, with
  \<^verbatim>\<open>length\<close> counting what follows it and the CRC covering everything after the CRC field.
  \<open>record_bytes\<close> is that layout written out; \<open>record_encode\<close> and \<open>record_decode\<close> follow
  the buffer operations of the code.
\<close>

section \<open>Records and integer fields\<close>

record Record =
  r_offset :: u64
  r_timestamp_ms :: i64
  r_key :: bytes
  r_value :: bytes

definition default_Record :: Record where
  "default_Record = \<lparr> r_offset = 0, r_timestamp_ms = 0, r_key = [], r_value = [] \<rparr>"

definition read_u32 :: "bytes \<Rightarrow> u32" where
  "read_u32 buffer = (let val = mem_u32 buffer in
     push_bit 24 (val AND 0x000000FF) OR push_bit 8 (val AND 0x0000FF00) OR
     drop_bit 8 (val AND 0x00FF0000) OR drop_bit 24 (val AND 0xFF000000))"

definition write_u32 :: "u32 \<Rightarrow> bytes" where
  "write_u32 v = u32_mem (
     push_bit 24 (v AND 0x000000FF) OR push_bit 8 (v AND 0x0000FF00) OR
     drop_bit 8 (v AND 0x00FF0000) OR drop_bit 24 (v AND 0xFF000000))"

definition read_u64 :: "bytes \<Rightarrow> u64" where
  "read_u64 buffer = (let val = mem_u64 buffer in
     push_bit 56 (val AND 0x00000000000000FF) OR
     push_bit 40 (val AND 0x000000000000FF00) OR
     push_bit 24 (val AND 0x0000000000FF0000) OR
     push_bit 8 (val AND 0x00000000FF000000) OR
     drop_bit 8 (val AND 0x000000FF00000000) OR
     drop_bit 24 (val AND 0x0000FF0000000000) OR
     drop_bit 40 (val AND 0x00FF000000000000) OR
     drop_bit 56 (val AND 0xFF00000000000000))"

definition write_u64 :: "u64 \<Rightarrow> bytes" where
  "write_u64 v = u64_mem (
     push_bit 56 (v AND 0x00000000000000FF) OR
     push_bit 40 (v AND 0x000000000000FF00) OR
     push_bit 24 (v AND 0x0000000000FF0000) OR
     push_bit 8 (v AND 0x00000000FF000000) OR
     drop_bit 8 (v AND 0x000000FF00000000) OR
     drop_bit 24 (v AND 0x0000FF0000000000) OR
     drop_bit 40 (v AND 0x00FF000000000000) OR
     drop_bit 56 (v AND 0xFF00000000000000))"

text \<open>A read through a pointer \<^verbatim>\<open>buffer + k\<close>, undefined when it leaves the buffer.\<close>

definition read_u32_at :: "bytes \<Rightarrow> nat \<Rightarrow> u32 option" where
  "read_u32_at buffer k = map_option read_u32 (mem_read buffer k 4)"

definition read_u64_at :: "bytes \<Rightarrow> nat \<Rightarrow> u64 option" where
  "read_u64_at buffer k = map_option read_u64 (mem_read buffer k 8)"

section \<open>Encoding and decoding\<close>

definition record_encode :: "Record \<Rightarrow> bytes option" where
  "record_encode record =
     (let key_len = of_nat (length (r_key record)) :: u32;
          value_len = of_nat (length (r_value record)) :: u32;
          len = 24 + key_len + value_len;
          buffer = replicate (unat (4 + len)) 0
      in do {
        b1 \<leftarrow> mem_write buffer 0 (write_u32 len);
        b2 \<leftarrow> mem_write b1 8 (write_u64 (r_offset record));
        b3 \<leftarrow> mem_write b2 16 (write_u64 (r_timestamp_ms record));
        b4 \<leftarrow> mem_write b3 24 (write_u32 key_len);
        b5 \<leftarrow> (if key_len > 0
               then mem_write b4 28 (take (unat key_len) (r_key record)) else Some b4);
        b6 \<leftarrow> (if value_len > 0
               then mem_write b5 (28 + unat key_len) (take (unat value_len) (r_value record))
               else Some b5);
        body \<leftarrow> mem_read b6 8 (unat (len - 4));
        mem_write b6 4 (write_u32 (crc_calculate body))
      })"

definition record_decode :: "bytes \<Rightarrow> nat \<Rightarrow> Record \<Rightarrow> (Status \<times> Record) option" where
  "record_decode buffer sz out_record =
     (if sz < 28 then
        Some (Status Corrupt ''Buffer size less than record header size (28 bytes)'', out_record)
      else do {
        len \<leftarrow> read_u32_at buffer 0;
        if len < 24 then
          Some (Status Corrupt (''Invalid record length field: '' @ to_string (unat len)), out_record)
        else if len > MAX_RECORD_SIZE then
          Some (Status RecordTooLarge
                 (''Record length '' @ to_string (unat len) @ '' exceeds maximum limit of 1 MiB''),
                out_record)
        else if sz < unat (4 + len) then
          Some (Status Corrupt ''Incomplete record payload buffer'', out_record)
        else do {
          stored_crc \<leftarrow> read_u32_at buffer 4;
          body \<leftarrow> mem_read buffer 8 (unat (len - 4));
          let computed_crc = crc_calculate body;
          if stored_crc \<noteq> computed_crc then
            Some (Status Corrupt
                   (''CRC mismatch. Stored: '' @ to_string (unat stored_crc) @
                    '', computed: '' @ to_string (unat computed_crc)), out_record)
          else do {
            off \<leftarrow> read_u64_at buffer 8;
            ts \<leftarrow> read_u64_at buffer 16;
            key_len \<leftarrow> read_u32_at buffer 24;
            let out1 = out_record\<lparr> r_offset := off, r_timestamp_ms := ts \<rparr>;
            if 24 + key_len > len then
              Some (Status Corrupt ''Invalid key length in record header'', out1)
            else do {
              let value_len = len - 24 - key_len;
              k \<leftarrow> (if key_len > 0 then mem_read buffer 28 (unat key_len) else Some []);
              v \<leftarrow> (if value_len > 0
                    then mem_read buffer (28 + unat key_len) (unat value_len) else Some []);
              Some (Status_OK, out1\<lparr> r_key := k, r_value := v \<rparr>)
            }
          }
        }
      })"

section \<open>The layout\<close>

definition record_size :: "Record \<Rightarrow> nat" where
  "record_size r = 28 + length (r_key r) + length (r_value r)"

text \<open>What follows the CRC field, and the whole record.\<close>

definition record_payload :: "Record \<Rightarrow> bytes" where
  "record_payload r = be64 (r_offset r) @ be64 (r_timestamp_ms r) @
     be32 (of_nat (length (r_key r))) @ r_key r @ r_value r"

definition record_bytes :: "Record \<Rightarrow> bytes" where
  "record_bytes r = be32 (of_nat (record_size r - 4)) @ be32 (crc_calculate (record_payload r)) @
     record_payload r"

lemma write_u32_be [simp]: "write_u32 v = be32 v"
  unfolding write_u32_def bswap32_layout [symmetric] bswap32_def ..

lemma write_u64_be [simp]: "write_u64 v = be64 v"
  unfolding write_u64_def bswap64_layout [symmetric] bswap64_def ..

lemma read_u32_be [simp]: "read_u32 (be32 v @ rest) = v"
  using mem_u32_be [of v rest] unfolding read_u32_def bswap32_def Let_def .

lemma read_u64_be [simp]: "read_u64 (be64 v @ rest) = v"
  using mem_u64_be [of v rest] unfolding read_u64_def bswap64_def Let_def .

lemma read_u32_be0 [simp]: "read_u32 (be32 v) = v"
  using read_u32_be [of v "[]"] by simp

lemma read_u64_be0 [simp]: "read_u64 (be64 v) = v"
  using read_u64_be [of v "[]"] by simp

lemma be32_read_u32: "length bs = 4 \<Longrightarrow> be32 (read_u32 bs) = bs"
  using be32_mem_u32 [of bs "[]"] by (simp add: read_u32_def bswap32_def Let_def)

lemma be64_read_u64: "length bs = 8 \<Longrightarrow> be64 (read_u64 bs) = bs"
  using be64_mem_u64 [of bs "[]"] by (simp add: read_u64_def bswap64_def Let_def)

lemma read_u32_at_mid: "length pre = k \<Longrightarrow> read_u32_at (pre @ be32 v @ post) k = Some v"
  by (simp add: read_u32_at_def mem_read_def)

lemma read_u64_at_mid: "length pre = k \<Longrightarrow> read_u64_at (pre @ be64 v @ post) k = Some v"
  by (simp add: read_u64_at_def mem_read_def)

lemma length_record_payload [bytes_simps]:
  "length (record_payload r) = record_size r - 8"
  by (simp add: record_payload_def record_size_def)

lemma length_record_bytes [simp, bytes_simps]: "length (record_bytes r) = record_size r"
  by (simp add: record_bytes_def length_record_payload) (simp add: record_size_def)

lemma record_size_ge [simp]: "28 \<le> record_size r"
  by (simp add: record_size_def)

lemma record_bytes_nonempty [simp]: "record_bytes r \<noteq> []"
  using record_size_ge [of r] by (metis length_record_bytes list.size(3) not_numeral_le_zero)


section \<open>Encoding produces the layout\<close>

lemma record_encode_layout:
  assumes "record_size r < 4294967296"
  shows "record_encode r = Some (record_bytes r)"
proof -
  define k v len where "k = length (r_key r)" and "v = length (r_value r)"
    and "len = (of_nat (24 + k + v) :: u32)"
  define Z :: "nat \<Rightarrow> bytes" where "Z n = replicate n 0" for n
  note szs = assms [unfolded record_size_def, folded k_def v_def]
  have kl: "unat (of_nat k :: u32) = k" and vl: "unat (of_nat v :: u32) = v"
    using szs by (simp_all add: unat_of_nat_u32)
  have len: "24 + of_nat k + of_nat v = len" by (simp add: len_def)
  have ul: "unat len = 24 + k + v" using szs unfolding len_def by (intro unat_of_nat_u32) simp
  have u4: "unat (4 + len) = 28 + k + v" using szs ul by (subst unat_add_small_u32) simp_all
  have u4': "unat (len - 4) = 20 + k + v" using ul by (subst unat_sub_small) simp_all
  have kz: "(of_nat k :: u32) > 0 \<longleftrightarrow> r_key r \<noteq> []"
    using kl by (cases "r_key r") (auto simp: k_def word_gt_0_no word_less_nat_alt)
  have vz: "(of_nat v :: u32) > 0 \<longleftrightarrow> r_value r \<noteq> []"
    using vl by (cases "r_value r") (auto simp: v_def word_gt_0_no word_less_nat_alt)
  have b0: "replicate (28 + k + v) (0 :: u8) = Z 4 @ Z 4 @ Z 8 @ Z 8 @ Z 4 @ Z k @ Z v"
    unfolding Z_def by (simp add: replicate_add [symmetric])
  have [simp]: "length (Z n) = n" for n by (simp add: Z_def)
  define H where "H = be32 len @ Z 4 @ be64 (r_offset r) @ be64 (r_timestamp_ms r)"
  have [simp]: "length H = 24" by (simp add: H_def)
  define R1 where "R1 = Z 8 @ Z 8 @ Z 4 @ Z k @ Z v"
  have s1: "mem_write (Z 4 @ Z 4 @ R1) 0 (be32 len) = Some (be32 len @ Z 4 @ R1)"
    using mem_write_mid [of "Z 4" "be32 len" "[]" 0 "Z 4 @ R1"] by simp
  have s2: "mem_write (be32 len @ Z 4 @ R1) 8 (be64 (r_offset r)) =
      Some (be32 len @ Z 4 @ be64 (r_offset r) @ Z 8 @ Z 4 @ Z k @ Z v)"
    using mem_write_mid [of "Z 8" "be64 (r_offset r)" "be32 len @ Z 4" 8 "Z 8 @ Z 4 @ Z k @ Z v"]
    by (simp add: R1_def)
  have s3: "mem_write (be32 len @ Z 4 @ be64 (r_offset r) @ Z 8 @ Z 4 @ Z k @ Z v) 16
        (be64 (r_timestamp_ms r)) = Some (H @ Z 4 @ Z k @ Z v)"
    using mem_write_mid [of "Z 8" "be64 (r_timestamp_ms r)" "be32 len @ Z 4 @ be64 (r_offset r)" 16
      "Z 4 @ Z k @ Z v"] by (simp add: H_def)
  have s4: "mem_write (H @ Z 4 @ Z k @ Z v) 24 (be32 (of_nat k)) =
      Some (H @ be32 (of_nat k) @ Z k @ Z v)"
    by (rule mem_write_mid) simp_all
  have s5: "(if (of_nat k :: u32) > 0 then mem_write (H @ be32 (of_nat k) @ Z k @ Z v) 28 (take k (r_key r))
      else Some (H @ be32 (of_nat k) @ Z k @ Z v)) = Some (H @ be32 (of_nat k) @ r_key r @ Z v)"
    using mem_write_mid [of "Z k" "r_key r" "H @ be32 (of_nat k)" 28 "Z v"]
    unfolding kz by (auto simp: k_def Z_def)
  have s6: "(if (of_nat v :: u32) > 0
      then mem_write (H @ be32 (of_nat k) @ r_key r @ Z v) (28 + k) (take v (r_value r))
      else Some (H @ be32 (of_nat k) @ r_key r @ Z v)) = Some (H @ be32 (of_nat k) @ r_key r @ r_value r)"
    using mem_write_mid [of "Z v" "r_value r" "H @ be32 (of_nat k) @ r_key r" "28 + k" "[]"]
    unfolding vz by (auto simp: v_def k_def Z_def)
  have body: "H @ be32 (of_nat k) @ r_key r @ r_value r = (be32 len @ Z 4) @ record_payload r @ []"
    by (simp add: H_def record_payload_def k_def)
  have s7: "mem_read (H @ be32 (of_nat k) @ r_key r @ r_value r) 8 (20 + k + v) = Some (record_payload r)"
    unfolding body by (rule mem_read_mid) (simp_all add: record_payload_def k_def v_def)
  have s8: "mem_write (H @ be32 (of_nat k) @ r_key r @ r_value r) 4 (be32 (crc_calculate (record_payload r)))
      = Some (record_bytes r)"
    using mem_write_mid [of "Z 4" "be32 (crc_calculate (record_payload r))" "be32 len" 4 "record_payload r"]
    unfolding body by (simp add: record_bytes_def record_size_def len_def k_def v_def)
  show ?thesis
    unfolding record_encode_def Let_def k_def [symmetric] v_def [symmetric] len u4 u4' kl vl
      b0 R1_def [symmetric] write_u32_be write_u64_be
    by (simp only: s1 s2 s3 s4 s5 s6 s7 s8 Option.bind.bind_lunit)
qed


section \<open>Decoding\<close>

lemma record_decode_short: "sz < 28 \<Longrightarrow> \<exists>m. record_decode buf sz out = Some (Status Corrupt m, out)"
  by (simp add: record_decode_def)

text \<open>
  The decision of the header: a complete record of admissible length is rejected or accepted
  on its CRC and key length alone.
\<close>

lemma record_decode_header:
  assumes buf: "buf = be32 len @ be32 crc @ payload @ rest" and sz: "sz = length buf"
    and len: "24 \<le> len" "len \<le> MAX_RECORD_SIZE" and pl: "length payload = unat len - 4"
  shows "record_decode buf sz out =
    (if crc \<noteq> crc_calculate payload then
       Some (Status Corrupt (''CRC mismatch. Stored: '' @ to_string (unat crc) @
          '', computed: '' @ to_string (unat (crc_calculate payload))), out)
     else do {
       off \<leftarrow> read_u64_at buf 8;
       ts \<leftarrow> read_u64_at buf 16;
       key_len \<leftarrow> read_u32_at buf 24;
       let out1 = out\<lparr> r_offset := off, r_timestamp_ms := ts \<rparr>;
       if 24 + key_len > len then
         Some (Status Corrupt ''Invalid key length in record header'', out1)
       else do {
         let value_len = len - 24 - key_len;
         k \<leftarrow> (if key_len > 0 then mem_read buf 28 (unat key_len) else Some []);
         v \<leftarrow> (if value_len > 0 then mem_read buf (28 + unat key_len) (unat value_len) else Some []);
         Some (Status_OK, out1\<lparr> r_key := k, r_value := v \<rparr>)
       }
     })"
proof -
  have ul: "24 \<le> unat len" "unat len \<le> 1048576"
    using len by (simp_all add: word_le_nat_alt)
  have u4: "unat (4 + len) = 4 + unat len" using ul by (subst unat_add_small_u32) simp_all
  have u4': "unat (len - 4) = unat len - 4" using ul by (subst unat_sub_small) simp_all
  have nl: "\<not> len < 24" "\<not> MAX_RECORD_SIZE < len" using len by simp_all
  have c1: "\<not> sz < 28" "\<not> sz < unat (4 + len)" using sz buf pl ul by (simp_all add: u4)
  have r0: "read_u32_at buf 0 = Some len"
    using read_u32_at_mid [of "[]" 0 len "be32 crc @ payload @ rest"] by (simp add: buf)
  have r4: "read_u32_at buf 4 = Some crc"
    using read_u32_at_mid [of "be32 len" 4 crc "payload @ rest"] by (simp add: buf)
  have r8: "mem_read buf 8 (unat (len - 4)) = Some payload"
    using mem_read_mid [of "be32 len @ be32 crc" 8 payload "unat len - 4" rest] pl
    by (simp add: buf u4')
  show ?thesis
    unfolding record_decode_def
    by (simp only: c1 nl r0 r4 r8 if_False Option.bind.bind_lunit Let_def)
qed

lemma record_decode_bytes:
  assumes size: "record_size r \<le> 1048580"
  shows "record_decode (record_bytes r @ rest) (record_size r + length rest) out = Some (Status_OK, r)"
proof -
  define k v len where "k = length (r_key r)" and "v = length (r_value r)"
    and "len = (of_nat (record_size r - 4) :: u32)"
  have szs: "record_size r = 28 + k + v" by (simp add: record_size_def k_def v_def)
  have ul: "unat len = 24 + k + v" using size szs unfolding len_def by (subst unat_of_nat_u32) simp_all
  have kl: "unat (of_nat k :: u32) = k" using size szs by (intro unat_of_nat_u32) simp
  have buf: "record_bytes r @ rest = be32 len @ be32 (crc_calculate (record_payload r)) @ record_payload r @ rest"
    by (simp add: record_bytes_def len_def)
  have len: "24 \<le> len" "len \<le> MAX_RECORD_SIZE"
    using ul size szs by (simp_all add: word_le_nat_alt)
  have pl: "length (record_payload r) = unat len - 4"
    by (simp add: length_record_payload szs ul)
  let ?pre = "be32 len @ be32 (crc_calculate (record_payload r))"
  have r8: "read_u64_at (record_bytes r @ rest) 8 = Some (r_offset r)"
    unfolding buf record_payload_def
    using read_u64_at_mid [of ?pre 8 "r_offset r"] by (simp add: record_payload_def)
  have r16: "read_u64_at (record_bytes r @ rest) 16 = Some (r_timestamp_ms r)"
    unfolding buf record_payload_def
    using read_u64_at_mid [of "?pre @ be64 (r_offset r)" 16 "r_timestamp_ms r"]
    by (simp add: record_payload_def)
  have r24: "read_u32_at (record_bytes r @ rest) 24 = Some (of_nat k)"
    unfolding buf record_payload_def
    using read_u32_at_mid [of "?pre @ be64 (r_offset r) @ be64 (r_timestamp_ms r)" 24 "of_nat k"]
    by (simp add: record_payload_def k_def)
  let ?h = "?pre @ be64 (r_offset r) @ be64 (r_timestamp_ms r) @ be32 (of_nat k)"
  have bytes: "record_bytes r @ rest = ?h @ r_key r @ r_value r @ rest"
    by (simp add: buf) (simp add: record_payload_def k_def)
  have rk: "mem_read (record_bytes r @ rest) 28 k = Some (r_key r)"
    unfolding bytes by (rule mem_read_mid) (simp_all add: k_def)
  have rv: "mem_read (record_bytes r @ rest) (28 + k) v = Some (r_value r)"
    using mem_read_mid [of "?h @ r_key r" "28 + k" "r_value r" v rest]
    unfolding bytes by (simp add: k_def v_def)
  have s24: "unat (24 + of_nat k :: u32) = 24 + k"
    using kl size szs by (subst unat_add_small_u32) simp_all
  have nk: "\<not> len < 24 + of_nat k" using s24 ul by (simp add: word_less_nat_alt)
  have vl: "len - 24 - of_nat k = of_nat v"
    using szs by (simp add: len_def)
  have uv: "unat (of_nat v :: u32) = v" using size szs by (intro unat_of_nat_u32) simp
  have kz: "(0 :: u32) < of_nat k \<longleftrightarrow> r_key r \<noteq> []" using kl by (auto simp: word_less_nat_alt k_def)
  have vz: "(0 :: u32) < of_nat v \<longleftrightarrow> r_value r \<noteq> []" using uv by (auto simp: word_less_nat_alt v_def)
  have sz: "record_size r + length rest = length (record_bytes r @ rest)" by simp
  show ?thesis
    unfolding record_decode_header [OF buf sz len pl] r8 r16 r24 Option.bind.bind_lunit Let_def vl kl uv
      rk rv kz vz
    by (simp add: nk)
qed


lemma split_header:
  assumes "28 \<le> length buf" "unat len \<le> length buf - 4" "24 \<le> unat len"
    and "len = read_u32 (take 4 buf)"
  shows "buf = be32 len @ be32 (read_u32 (take 4 (drop 4 buf))) @
    take (unat len - 4) (drop 8 buf) @ drop (4 + unat len) buf"
proof -
  have "be32 len = take 4 buf" using assms by (simp add: be32_read_u32)
  moreover have "be32 (read_u32 (take 4 (drop 4 buf))) = take 4 (drop 4 buf)"
    using assms by (simp add: be32_read_u32)
  moreover have "take (unat len - 4) (drop 8 buf) @ drop (4 + unat len) buf = drop 8 buf"
  proof -
    have "drop (4 + unat len) buf = drop (unat len - 4) (drop 8 buf)"
      using assms by (simp add: drop_drop)
    then show ?thesis by (simp only: append_take_drop_id)
  qed
  moreover have "take 4 buf @ take 4 (drop 4 buf) @ drop 8 buf = buf"
    by (metis append_take_drop_id drop_drop numeral_Bit0)
  ultimately show ?thesis by simp
qed

lemma payload_split:
  assumes "length p = 20 + k + v"
  shows "p = be64 (read_u64 (take 8 p)) @ be64 (read_u64 (take 8 (drop 8 p))) @
    be32 (read_u32 (take 4 (drop 16 p))) @ take k (drop 20 p) @ take v (drop (20 + k) p)"
proof -
  have "be64 (read_u64 (take 8 p)) = take 8 p"
    "be64 (read_u64 (take 8 (drop 8 p))) = take 8 (drop 8 p)"
    "be32 (read_u32 (take 4 (drop 16 p))) = take 4 (drop 16 p)"
    using assms by (simp_all add: be64_read_u64 be32_read_u32)
  moreover have "take v (drop (20 + k) p) = drop (20 + k) p" using assms by simp
  moreover have "take k (drop 20 p) @ drop (20 + k) p = drop 20 p"
    by (metis add.commute append_take_drop_id drop_drop)
  moreover have "take 8 p @ take 8 (drop 8 p) @ take 4 (drop 16 p) @ drop 20 p = p"
  proof -
    have "take 4 (drop 16 p) @ drop 20 p = drop 16 p"
      using append_take_drop_id [of 4 "drop 16 p"] by (simp add: drop_drop)
    moreover have "take 8 (drop 8 p) @ drop 16 p = drop 8 p"
      using append_take_drop_id [of 8 "drop 8 p"] by (simp add: drop_drop)
    ultimately show ?thesis by simp
  qed
  ultimately show ?thesis by simp
qed

lemma mem_read_eq_Some: "mem_read buf k n = Some x \<longleftrightarrow> k + n \<le> length buf \<and> x = take n (drop k buf)"
  by (auto simp: mem_read_def)

lemma record_decode_okD:
  assumes dec: "record_decode buf (length buf) out = Some (st, r)" and ok: "ok st"
    and bound: "length buf < 4294967296"
  shows "buf = record_bytes r @ drop (record_size r) buf \<and> record_size r \<le> 1048580
    \<and> record_size r \<le> length buf"
proof -
  have l28: "28 \<le> length buf"
    using dec ok by (auto simp: record_decode_def split: if_splits)
  define len where "len = read_u32 (take 4 buf)"
  have r0: "read_u32_at buf 0 = Some len"
    using l28 by (simp add: read_u32_at_def mem_read_def len_def)
  have c: "24 \<le> len" "len \<le> MAX_RECORD_SIZE" "unat (4 + len) \<le> length buf"
    using dec ok l28 r0 by (auto simp: record_decode_def split: if_splits)
  have ul: "24 \<le> unat len" "unat len \<le> 1048576" using c by (simp_all add: word_le_nat_alt)
  have u4: "unat (4 + len) = 4 + unat len" using ul by (subst unat_add_small_u32) simp_all
  define crc p where "crc = read_u32 (take 4 (drop 4 buf))" and "p = take (unat len - 4) (drop 8 buf)"
  have buf: "buf = be32 len @ be32 crc @ p @ drop (4 + unat len) buf"
    unfolding crc_def p_def using split_header [OF l28 _ ul(1) len_def] c u4 by simp
  have pl: "length p = unat len - 4" using c u4 l28 by (simp add: p_def)
  define kl where "kl = read_u32 (take 4 (drop 16 p))"
  have reads: "read_u64_at buf 8 = Some (read_u64 (take 8 p))"
    "read_u64_at buf 16 = Some (read_u64 (take 8 (drop 8 p)))" "read_u32_at buf 24 = Some kl"
    using l28 ul pl c u4
    by (simp_all add: read_u64_at_def read_u32_at_def mem_read_def p_def kl_def drop_take min_def)
  note D = dec [unfolded record_decode_header [OF buf refl c(1,2) pl] reads Option.bind.bind_lunit Let_def]
  have crc: "crc = crc_calculate p" using D ok by (auto split: if_splits)
  have nw: "\<not> 24 + kl > len" using D ok crc by (auto split: if_splits)
  have kr: "(if kl > 0 then mem_read buf 28 (unat kl) else Some []) = Some (r_key r)"
    and vr: "(if len - 24 - kl > 0 then mem_read buf (28 + unat kl) (unat (len - 24 - kl)) else Some [])
      = Some (r_value r)"
    and ro: "r_offset r = read_u64 (take 8 p)" "r_timestamp_ms r = read_u64 (take 8 (drop 8 p))"
    using D crc nw by (auto split: bind_splits)
  have small: "unat kl < 4294967272"
  proof (rule ccontr)
    assume "\<not> unat kl < 4294967272"
    then have big: "4294967272 \<le> unat kl" by simp
    then have "(0 :: u32) < kl" by (simp add: word_less_nat_alt)
    with kr big bound show False by (auto simp: mem_read_def split: if_splits)
  qed
  then have u24: "unat (24 + kl) = 24 + unat kl" by (subst unat_add_small_u32) simp_all
  with nw have kle: "24 + unat kl \<le> unat len" by (simp add: word_less_nat_alt)
  define v where "v = unat len - 24 - unat kl"
  have uv: "unat (len - 24 - kl) = v"
    using kle by (simp add: v_def unat_sub_small)
  have key: "r_key r = take (unat kl) (drop 28 buf)"
    using kr by (cases "kl > 0") (auto simp: mem_read_eq_Some word_less_nat_alt)
  have val: "r_value r = take v (drop (28 + unat kl) buf)"
    using vr by (cases "len - 24 - kl > 0") (auto simp: mem_read_eq_Some word_less_nat_alt uv)
  have pl': "length p = 20 + unat kl + v" using pl kle ul by (simp add: v_def)
  have key': "r_key r = take (unat kl) (drop 20 p)" and val': "r_value r = take v (drop (20 + unat kl) p)"
    unfolding key val p_def using kle by (auto simp: drop_take v_def min_def add.commute)
  have lk: "length (r_key r) = unat kl" "length (r_value r) = v" using key' val' pl' by simp_all
  have pay: "record_payload r = p"
    using payload_split [OF pl'] lk ro unfolding record_payload_def key' [symmetric] val' [symmetric]
    by (simp add: kl_def)
  have rs: "record_size r = 4 + unat len" using lk kle by (simp add: record_size_def v_def)
  have "record_bytes r @ drop (record_size r) buf = buf"
    using buf unfolding record_bytes_def pay crc rs by simp
  then show ?thesis using rs ul c u4 by simp
qed

section \<open>Properties\<close>

text \<open>
  C14. Encoding and decoding round trip: a record whose encoding fits the 1 MiB limit is
  encoded without leaving its buffer, and decoding the buffer, with any bytes after it,
  returns status OK and the same record.
\<close>

theorem record_roundtrip:
  assumes "record_size r \<le> 1048580"
  shows "\<exists>buf. record_encode r = Some buf \<and>
    record_decode (buf @ rest) (length (buf @ rest)) out = Some (Status_OK, r)"
  using record_encode_layout [of r] record_decode_bytes [of r rest out] assms by simp

theorem record_roundtrip_witness:
  "\<exists>buf. record_encode \<lparr> r_offset = 5, r_timestamp_ms = 7, r_key = [1], r_value = [2, 3] \<rparr> = Some buf \<and>
    record_decode (buf @ [0]) (length (buf @ [0])) default_Record =
      Some (Status_OK, \<lparr> r_offset = 5, r_timestamp_ms = 7, r_key = [1], r_value = [2, 3] \<rparr>)"
  using record_roundtrip [of "\<lparr> r_offset = 5, r_timestamp_ms = 7, r_key = [1], r_value = [2, 3] \<rparr>" "[0]"]
  by (simp add: record_size_def)

lemma record_decode_corrupt:
  assumes "record_size r \<le> 1048580" "4 \<le> i" "i < record_size r" "b \<noteq> record_bytes r ! i"
  shows "\<exists>m. record_decode ((record_bytes r)[i := b]) (record_size r) out = Some (Status Corrupt m, out)"
proof -
  define len where "len = (of_nat (record_size r - 4) :: u32)"
  define p where "p = record_payload r"
  have ul: "unat len = record_size r - 4" using assms(1) unfolding len_def by (subst unat_of_nat_u32) simp_all
  have len: "24 \<le> len" "len \<le> MAX_RECORD_SIZE"
    using ul assms(1) by (simp_all add: word_le_nat_alt record_size_def)
  have pl: "length p = unat len - 4" by (simp add: p_def length_record_payload ul)
  have bytes: "record_bytes r = be32 len @ be32 (crc_calculate p) @ p"
    by (simp add: record_bytes_def len_def p_def)
  have sz: "record_size r = length ((record_bytes r)[i := b])" by simp
  show ?thesis
  proof (cases "i < 8")
    case True
    then obtain j where i: "i = 4 + j" and j: "j < 4"
      using assms(2) by (metis add_less_cancel_left le_Suc_ex numeral_Bit0)
    define crc where "crc = read_u32 ((be32 (crc_calculate p))[j := b])"
    have cb: "be32 crc = (be32 (crc_calculate p))[j := b]" by (simp add: crc_def be32_read_u32)
    have upd: "(record_bytes r)[i := b] = be32 len @ be32 crc @ p @ []"
      using j by (simp add: bytes cb list_update_append i)
    have "(be32 (crc_calculate p)) ! j \<noteq> b"
      using assms(4) j by (simp add: bytes nth_append i)
    then have "be32 crc \<noteq> be32 (crc_calculate p)"
      using j by (metis cb nth_list_update_eq length_be(2))
    then show ?thesis unfolding record_decode_header [OF upd sz len pl] by simp
  next
    case False
    then obtain j where i: "i = 8 + j"
      by (metis le_Suc_ex not_less)
    have j: "j < length p" using assms(3) i by (simp add: p_def length_record_payload)
    define q where "q = p[j := b]"
    have upd: "(record_bytes r)[i := b] = be32 len @ be32 (crc_calculate p) @ q @ []"
      by (simp add: bytes q_def list_update_append i)
    have "crc_calculate q \<noteq> crc_calculate p"
      unfolding q_def using assms(4) j
      by (intro crc_calculate_list_update_neq) (simp_all add: bytes nth_append i)
    moreover have "length q = unat len - 4" using pl by (simp add: q_def)
    ultimately show ?thesis unfolding record_decode_header [OF upd sz len \<open>length q = _\<close>] by auto
  qed
qed

text \<open>
  C15. Every single-byte corruption after the length field is detected: when one byte of an
  encoded record at position 4 or later is overwritten with another value,
  \<^verbatim>\<open>RecordCodec::decode\<close> answers \<^verbatim>\<open>Corrupt\<close> and leaves the output record untouched.
\<close>

theorem record_corruption_detected:
  assumes "record_size r \<le> 1048580" "4 \<le> i" "i < record_size r" "b \<noteq> record_bytes r ! i"
  shows "\<exists>m. record_decode ((record_bytes r)[i := b]) (record_size r) out = Some (Status Corrupt m, out)"
  by (rule record_decode_corrupt [OF assms])

theorem record_corruption_detected_witness:
  "\<exists>m. record_decode ((record_bytes default_Record)[9 := 1]) 28 default_Record
     = Some (Status Corrupt m, default_Record)"
proof -
  have "record_bytes default_Record ! 9 = 0"
    by (simp add: record_bytes_def record_payload_def default_Record_def be32_def be64_def)
  then show ?thesis
    using record_corruption_detected [of default_Record 9 1 default_Record]
    by (simp add: record_size_def default_Record_def)
qed

text \<open>
  Decoding accepts nothing but encodings: whenever \<^verbatim>\<open>RecordCodec::decode\<close> returns OK on a
  buffer below 4 GiB, the buffer starts with exactly the encoding of the record it returned,
  whose length is within the limit.
\<close>

lemma record_decode_sound:
  assumes "record_decode buf (length buf) out = Some (st, r)" "ok st" "length buf < 2 ^ 32"
  shows "\<exists>rest. buf = record_bytes r @ rest \<and> record_size r \<le> 4 + unat MAX_RECORD_SIZE"
  using record_decode_okD [OF assms(1,2)] assms(3) by (intro exI [of _ "drop (record_size r) buf"]) simp

text \<open>
  The key-length check of \<^verbatim>\<open>RecordCodec::decode\<close> wraps around: on a 28-byte buffer with a
  correct CRC whose key length is \<open>2 ^ 32 - 24\<close>, \<^verbatim>\<open>24 + key_len\<close> is 0, the check passes and
  the decoder copies far beyond the buffer (the model has no defined result).
\<close>

lemma record_decode_key_length_wraps:
  "let p = be64 off @ be64 ts @ be32 0xFFFFFFE8 in
   record_decode (be32 24 @ be32 (crc_calculate p) @ p) 28 out = None"
proof -
  define p where "p = be64 off @ be64 ts @ be32 0xFFFFFFE8"
  define buf where "buf = be32 24 @ be32 (crc_calculate p) @ p"
  have b: "buf = be32 24 @ be32 (crc_calculate p) @ p @ []" by (simp add: buf_def)
  have sz: "28 = length buf" by (simp add: buf_def p_def)
  have len: "24 \<le> (24 :: u32)" "(24 :: u32) \<le> MAX_RECORD_SIZE" by (simp_all add: MAX_RECORD_SIZE_def)
  have pl: "length p = unat (24 :: u32) - 4" by (simp add: p_def)
  have r: "read_u64_at buf 8 = Some off" "read_u64_at buf 16 = Some ts"
    "read_u32_at buf 24 = Some 0xFFFFFFE8"
    using read_u64_at_mid [of "be32 24 @ be32 (crc_calculate p)" 8 off "be64 ts @ be32 0xFFFFFFE8"]
      read_u64_at_mid [of "be32 24 @ be32 (crc_calculate p) @ be64 off" 16 ts "be32 0xFFFFFFE8"]
      read_u32_at_mid [of "be32 24 @ be32 (crc_calculate p) @ be64 off @ be64 ts" 24 "0xFFFFFFE8" "[]"]
    by (simp_all add: buf_def p_def)
  have "mem_read buf 28 4294967272 = None" by (simp add: mem_read_def sz [symmetric])
  then have "record_decode buf 28 out = None"
    unfolding record_decode_header [OF b sz len pl] r by simp
  then show ?thesis by (simp add: buf_def p_def)
qed

end
