(* ===== verification/OffsetIndex.thy ===== *)
theory OffsetIndex
  imports FileHandle RecordCodec
begin

text \<open>
  The sparse index of a segment, \<^verbatim>\<open>src/src/OffsetIndex.cpp\<close>: entries (relative offset, file
  position), the binary search \<^verbatim>\<open>lookup\<close>, and the index file. The search is the bisection of
  \<^verbatim>\<open>std::upper_bound\<close>; on a sorted index it is proved to return the position of the last entry
  whose offset is at most the target. Loading an index file returns the entries that were
  appended or rewritten to it.
\<close>

section \<open>Entries and search\<close>

record IndexEntry =
  relative_offset :: u32
  file_position :: u32

definition add_entry :: "IndexEntry list \<Rightarrow> u32 \<Rightarrow> u32 \<Rightarrow> IndexEntry list" where
  "add_entry entries rel pos = entries @ [\<lparr> relative_offset = rel, file_position = pos \<rparr>]"

text \<open>\<^verbatim>\<open>std::upper_bound\<close> by bisection over the range \<open>[first, first + count)\<close>: the first
  position whose element is greater than the target.\<close>

function upper_bound :: "(IndexEntry \<Rightarrow> bool) \<Rightarrow> IndexEntry list \<Rightarrow> nat \<Rightarrow> nat \<Rightarrow> nat" where
  "upper_bound gt entries first count =
     (if count = 0 then first
      else (let half = count div 2; mid = first + half
            in if gt (entries ! mid) then upper_bound gt entries first half
               else upper_bound gt entries (mid + 1) (count - half - 1)))"
  by pat_completeness auto
termination
  by (relation "measure (\<lambda>(gt, entries, first, count). count)") auto

declare upper_bound.simps [simp del]

definition lookup :: "IndexEntry list \<Rightarrow> u32 \<Rightarrow> u32" where
  "lookup entries target =
     (if entries = [] then 0
      else (let it = upper_bound (\<lambda>entry. target < relative_offset entry) entries 0 (length entries)
            in if it = 0 then file_position (hd entries)
               else file_position (entries ! (it - 1))))"

section \<open>The index file\<close>

definition parse_entry :: "bytes \<Rightarrow> nat \<Rightarrow> IndexEntry option" where
  "parse_entry buffer i = do {
     rel_off \<leftarrow> read_u32_at buffer (i * 8);
     file_pos \<leftarrow> read_u32_at buffer (i * 8 + 4);
     Some \<lparr> relative_offset = rel_off, file_position = file_pos \<rparr>
   }"

text \<open>The result flag and the entries the object holds afterwards. The size given to
  \<^verbatim>\<open>read_at\<close> is the file size cut to a \<^verbatim>\<open>DWORD\<close>.\<close>

definition load_from_file :: "os \<Rightarrow> filesys \<Rightarrow> FileHandle \<Rightarrow> (bool \<times> IndexEntry list) option" where
  "load_from_file w fs h =
     (let file_size = fh_get_size w fs h
      in if file_size = 0 then Some (True, [])
         else (let num_entries = unat (file_size div 8);
                   buffer = replicate (unat file_size) 0
               in case fh_read_at w fs h 0 (unat (ucast file_size :: u32)) of
                    None \<Rightarrow> Some (False, [])
                  | Some got \<Rightarrow> do {
                      buffer' \<leftarrow> mem_write buffer 0 got;
                      entries \<leftarrow> those (map (parse_entry buffer') [0..<num_entries]);
                      Some (True, entries)
                    }))"

definition append_to_file ::
  "os \<Rightarrow> filesys \<Rightarrow> FileHandle \<Rightarrow> IndexEntry list \<Rightarrow> u32 \<Rightarrow> u32 \<Rightarrow> bool \<times> IndexEntry list \<times> filesys" where
  "append_to_file w fs h entries rel pos =
     (let buf = write_u32 rel @ write_u32 pos;
          entries' = add_entry entries rel pos;
          (res, fs') = fh_write w fs h buf
      in (res, entries', fs'))"

definition rewrite_file :: "os \<Rightarrow> filesys \<Rightarrow> FileHandle \<Rightarrow> IndexEntry list \<Rightarrow> bool \<times> filesys" where
  "rewrite_file w fs h entries =
     (let fs1 = snd (fh_truncate w fs h 0)
      in if entries = [] then (True, fs1)
         else fh_write w fs1 h
                (concat (map (\<lambda>e. write_u32 (relative_offset e) @ write_u32 (file_position e)) entries)))"

section \<open>The search is correct\<close>

lemma upper_bound_partition:
  assumes mono: "\<And>i j. gt (es ! i) \<Longrightarrow> i \<le> j \<Longrightarrow> j < n \<Longrightarrow> gt (es ! j)" and "f + c \<le> n"
  shows "f \<le> upper_bound gt es f c \<and> upper_bound gt es f c \<le> f + c \<and>
    (\<forall>i. f \<le> i \<and> i < upper_bound gt es f c \<longrightarrow> \<not> gt (es ! i)) \<and>
    (\<forall>i. upper_bound gt es f c \<le> i \<and> i < f + c \<longrightarrow> gt (es ! i))"
  using assms(2)
proof (induction c arbitrary: f rule: less_induct)
  case (less c)
  show ?case
  proof (cases "c = 0")
    case False
    define h where "h = c div 2"
    have h: "h < c" using False by (simp add: h_def)
    show ?thesis
    proof (cases "gt (es ! (f + h))")
      case True
      define r where "r = upper_bound gt es f h"
      have eq: "upper_bound gt es f c = r"
        using False True by (simp add: upper_bound.simps [of gt es f c] h_def r_def Let_def)
      have IH: "f \<le> r" "r \<le> f + h" "\<And>i. f \<le> i \<Longrightarrow> i < r \<Longrightarrow> \<not> gt (es ! i)"
          "\<And>i. r \<le> i \<Longrightarrow> i < f + h \<Longrightarrow> gt (es ! i)"
        using less.IH [OF h, of f] less.prems h unfolding r_def by auto
      have "gt (es ! i)" if "r \<le> i" "i < f + c" for i
        using IH(4) [of i] mono [OF True, of i] that less.prems by (cases "i < f + h") simp_all
      then show ?thesis using IH h unfolding eq by simp
    next
      case nt: False
      define r where "r = upper_bound gt es (f + h + 1) (c - h - 1)"
      have eq: "upper_bound gt es f c = r"
        using False nt by (simp add: upper_bound.simps [of gt es f c] h_def r_def Let_def)
      have IH: "f + h + 1 \<le> r" "r \<le> f + c" "\<And>i. f + h + 1 \<le> i \<Longrightarrow> i < r \<Longrightarrow> \<not> gt (es ! i)"
          "\<And>i. r \<le> i \<Longrightarrow> i < f + c \<Longrightarrow> gt (es ! i)"
        using less.IH [of "c - h - 1" "f + h + 1"] less.prems h unfolding r_def by auto
      have "\<not> gt (es ! i)" if "f \<le> i" "i < r" for i
        using IH(3) [of i] that mono [of i "f + h"] nt less.prems h by (cases "i \<le> f + h") auto
      then show ?thesis using IH h unfolding eq by simp
    qed
  qed (auto simp: upper_bound.simps [of gt es f 0])
qed

text \<open>An index is sorted by relative offset.\<close>

definition index_sorted :: "IndexEntry list \<Rightarrow> bool" where
  "index_sorted es \<longleftrightarrow> sorted (map relative_offset es)"

lemma lookup_sorted:
  assumes "index_sorted es" "es \<noteq> []"
  shows "\<exists>i \<le> length es.
    lookup es t = (if i = 0 then file_position (hd es) else file_position (es ! (i - 1))) \<and>
    (\<forall>j < i. relative_offset (es ! j) \<le> t) \<and>
    (\<forall>j. i \<le> j \<and> j < length es \<longrightarrow> t < relative_offset (es ! j))"
proof -
  define gt :: "IndexEntry \<Rightarrow> bool" where "gt = (\<lambda>e. t < relative_offset e)"
  define i where "i = upper_bound gt es 0 (length es)"
  have mono: "gt (es ! j)" if "gt (es ! i)" "i \<le> j" "j < length es" for i j
    using sorted_nth_mono [of "map relative_offset es" i j] assms(1) that
    by (simp add: gt_def index_sorted_def)
  have "i \<le> length es \<and> (\<forall>j < i. \<not> gt (es ! j)) \<and> (\<forall>j. i \<le> j \<and> j < length es \<longrightarrow> gt (es ! j))"
    using upper_bound_partition [where gt = gt and es = es and n = "length es" and f = 0 and c = "length es"]
      mono unfolding i_def by auto
  moreover have "lookup es t = (if i = 0 then file_position (hd es) else file_position (es ! (i - 1)))"
    using assms(2) by (simp add: lookup_def i_def gt_def Let_def)
  ultimately show ?thesis
    by (intro exI [of _ i]) (simp add: gt_def not_less)
qed

text \<open>
  C16. On an index sorted by offset, the bisection \<^verbatim>\<open>OffsetIndex::lookup\<close> returns what a linear
  scan returns: the file position of the last entry whose relative offset is at most the
  target, the position of the first entry when there is none, and 0 for an empty index.
\<close>

theorem lookup_is_last_at_most:
  assumes "sorted (map relative_offset es)"
  shows "lookup es t =
    (if es = [] then 0
     else if filter (\<lambda>e. relative_offset e \<le> t) es = [] then file_position (hd es)
     else file_position (last (filter (\<lambda>e. relative_offset e \<le> t) es)))"
proof (cases "es = []")
  case False
  obtain i where i: "i \<le> length es"
    and l: "lookup es t = (if i = 0 then file_position (hd es) else file_position (es ! (i - 1)))"
    and below: "\<And>j. j < i \<Longrightarrow> relative_offset (es ! j) \<le> t"
    and above: "\<And>j. i \<le> j \<Longrightarrow> j < length es \<Longrightarrow> t < relative_offset (es ! j)"
    using lookup_sorted [of es t] assms False unfolding index_sorted_def by blast
  have "filter (\<lambda>e. relative_offset e \<le> t) (drop i es) = []"
    using above by (auto simp: filter_empty_conv in_set_conv_nth not_le)
  moreover have "filter (\<lambda>e. relative_offset e \<le> t) (take i es) = take i es"
    using below by (auto simp: filter_id_conv in_set_conv_nth)
  ultimately have "filter (\<lambda>e. relative_offset e \<le> t) es = take i es"
    by (metis append_Nil2 append_take_drop_id filter_append)
  then show ?thesis using l i False by (simp add: last_conv_nth)
qed (simp add: lookup_def)

theorem lookup_is_last_at_most_witness:
  "lookup [\<lparr> relative_offset = 0, file_position = 0 \<rparr>, \<lparr> relative_offset = 3, file_position = 90 \<rparr>,
     \<lparr> relative_offset = 7, file_position = 200 \<rparr>] 6 = 90"
  by (subst lookup_is_last_at_most) simp_all

section \<open>Loading returns what was written\<close>

definition entry_bytes :: "IndexEntry \<Rightarrow> bytes" where
  "entry_bytes e = be32 (relative_offset e) @ be32 (file_position e)"

lemma length_entry_bytes [simp]: "length (entry_bytes e) = 8"
  by (simp add: entry_bytes_def)

lemma length_concat_entry_bytes [simp]: "length (concat (map entry_bytes es)) = 8 * length es"
  by (induction es) auto

lemma concat_entry_split:
  assumes "i < length es"
  shows "concat (map entry_bytes es) @ t = concat (map entry_bytes (take i es)) @
    entry_bytes (es ! i) @ concat (map entry_bytes (drop (Suc i) es)) @ t"
  by (subst id_take_nth_drop [OF assms]) simp

lemma parse_entry_nth:
  assumes "i < length es"
  shows "parse_entry (concat (map entry_bytes es) @ t) i = Some (es ! i)"
proof -
  let ?a = "concat (map entry_bytes (take i es))"
  let ?z = "concat (map entry_bytes (drop (Suc i) es)) @ t"
  let ?e = "es ! i"
  have len: "length ?a = i * 8" using assms by simp
  have "read_u32_at (?a @ be32 (relative_offset ?e) @ (be32 (file_position ?e) @ ?z)) (i * 8)
      = Some (relative_offset ?e)"
    by (rule read_u32_at_mid [OF len])
  moreover have "read_u32_at ((?a @ be32 (relative_offset ?e)) @ be32 (file_position ?e) @ ?z) (i * 8 + 4)
      = Some (file_position ?e)"
    by (rule read_u32_at_mid) (simp only: len length_append length_be)
  ultimately show ?thesis
    unfolding concat_entry_split [OF assms] parse_entry_def entry_bytes_def by simp
qed

lemma those_map_Some: "(\<And>x. x \<in> set xs \<Longrightarrow> f x = Some (g x)) \<Longrightarrow> those (map f xs) = Some (map g xs)"
  by (induction xs) auto

lemma load_from_file_entries:
  assumes "reliable w" "fdata fs p = concat (map entry_bytes es) @ t" "length t < 8"
    and "8 * length es + length t < 2 ^ 32"
  shows "load_from_file w fs (Handle p) = Some (True, es)"
proof -
  define n where "n = 8 * length es + length t"
  have lenf: "length (fdata fs p) = n" using assms(2) by (simp add: n_def)
  have bound: "n < 2 ^ 32" using assms(4) by (simp add: n_def)
  have sz: "fh_get_size w fs (Handle p) = of_nat n"
    using assms(1) lenf by (simp add: reliable_size)
  have un: "unat (of_nat n :: u64) = n" using bound by (simp add: unat_of_nat_u64)
  have cast: "unat (ucast (of_nat n :: u64) :: u32) = n"
    using bound un by (simp add: unsigned_ucast_eq take_bit_nat_eq_self)
  have num: "unat ((of_nat n :: u64) div 8) = length es"
    using un assms(3) by (simp add: unat_div n_def)
  have buf: "mem_write (replicate n 0) 0 (fdata fs p) = Some (fdata fs p)"
    using lenf by (simp add: mem_write_def)
  show ?thesis
  proof (cases "n = 0")
    case False
    then have nz: "(of_nat n :: u64) \<noteq> 0" using un by (metis unat_0)
    have parse: "those (map (parse_entry (fdata fs p)) [0..<length es]) = Some (map (\<lambda>i. es ! i) [0..<length es])"
      using assms(2) by (intro those_map_Some) (simp add: parse_entry_nth)
    have rd: "fh_read_at w fs (Handle p) 0 n = Some (fdata fs p)"
      using assms(1) lenf by (simp add: reliable_read)
    show ?thesis
      unfolding load_from_file_def sz Let_def num cast un rd
      using nz buf parse by (simp add: map_nth)
  qed (use sz n_def in \<open>simp add: load_from_file_def\<close>)
qed

lemma append_to_file_reliable:
  "reliable w \<Longrightarrow> append_to_file w fs (Handle p) es rel pos =
     (True, add_entry es rel pos, put_file fs p
       ((get_file fs p)\<lparr> f_data := fdata fs p @ entry_bytes \<lparr> relative_offset = rel, file_position = pos \<rparr> \<rparr>))"
  by (simp add: append_to_file_def reliable_write entry_bytes_def)

lemma rewrite_file_reliable:
  assumes "reliable w"
  shows "fst (rewrite_file w fs (Handle p) es)"
    and "fdata (snd (rewrite_file w fs (Handle p) es)) p = concat (map entry_bytes es)"
    and "q \<noteq> p \<Longrightarrow> get_file (snd (rewrite_file w fs (Handle p) es)) q = get_file fs q"
    and "fexists fs p \<Longrightarrow> fexists (snd (rewrite_file w fs (Handle p) es)) q = fexists fs q"
  using assms by (auto simp: rewrite_file_def reliable_truncate reliable_write Let_def
      entry_bytes_def [abs_def])

text \<open>
  The index file round trip: after \<^verbatim>\<open>rewrite_file\<close> followed by any further
  \<^verbatim>\<open>append_to_file\<close>, \<^verbatim>\<open>load_from_file\<close> returns exactly the entries held in memory.
\<close>

lemma index_file_roundtrip:
  assumes "reliable w" "8 * length es + 8 < 2 ^ 32"
  shows "case append_to_file w (snd (rewrite_file w fs (Handle p) es)) (Handle p) es rel pos of
    (res, es', fs') \<Rightarrow> res \<and> es' = es @ [\<lparr> relative_offset = rel, file_position = pos \<rparr>] \<and>
      load_from_file w fs' (Handle p) = Some (True, es')"
proof -
  let ?e = "\<lparr> relative_offset = rel, file_position = pos \<rparr>"
  define fs1 where "fs1 = snd (rewrite_file w fs (Handle p) es)"
  define fs2 where "fs2 = put_file fs1 p ((get_file fs1 p)\<lparr> f_data := fdata fs1 p @ entry_bytes ?e \<rparr>)"
  have "fdata fs2 p = concat (map entry_bytes (es @ [?e]))"
    using rewrite_file_reliable(2) [OF assms(1), of fs p es] by (simp add: fs1_def fs2_def)
  then have "load_from_file w fs2 (Handle p) = Some (True, es @ [?e])"
    using assms by (intro load_from_file_entries [where t = "[]"]) simp_all
  then show ?thesis
    by (simp add: append_to_file_reliable [OF assms(1)] add_entry_def fs1_def fs2_def)
qed

end
