(* ===== verification/LogSegment.thy ===== *)
theory LogSegment
  imports OffsetIndex
begin

text \<open>
  One log segment, \<^verbatim>\<open>src/src/LogSegment.cpp\<close>: a \<^verbatim>\<open>.log\<close> file of records, its sparse
  \<^verbatim>\<open>.index\<close> file, and the \<^verbatim>\<open>.sealed\<close> marker. The operations follow the code, with the file
  system passed along; log messages and crash injection have no effect on the state and are
  left out. \<open>seg_rep\<close> relates a segment and its files to the list of records it holds.
\<close>

section \<open>State\<close>

record LogSegment =
  m_base_offset :: u64
  m_partition_dir :: path
  m_log_file :: FileHandle
  m_index_file :: FileHandle
  m_index :: "IndexEntry list"
  m_log_size_bytes :: u32
  m_bytes_since_last_index :: u32
  m_index_interval_bytes :: u32
  m_is_sealed :: bool
  m_running_crc_raw :: u32
  m_record_count :: u64
  m_last_offset :: u64
  m_max_timestamp_ms :: i64

definition format_base_offset :: "u64 \<Rightarrow> string" where
  "format_base_offset base_offset =
     (let ds = to_string (unat base_offset) in replicate (20 - length ds) (digit 0) @ ds)"

text \<open>The three paths the constructor computes; they never change afterwards.\<close>

definition log_path :: "LogSegment \<Rightarrow> path" where
  "log_path s = m_partition_dir s @ [format_base_offset (m_base_offset s) @ ''.log'']"

definition index_path :: "LogSegment \<Rightarrow> path" where
  "index_path s = m_partition_dir s @ [format_base_offset (m_base_offset s) @ ''.index'']"

definition sealed_path :: "LogSegment \<Rightarrow> path" where
  "sealed_path s = m_partition_dir s @ [format_base_offset (m_base_offset s) @ ''.sealed'']"

definition make_LogSegment :: "u64 \<Rightarrow> path \<Rightarrow> u32 \<Rightarrow> LogSegment" where
  "make_LogSegment base dir interval =
     \<lparr> m_base_offset = base, m_partition_dir = dir,
       m_log_file = INVALID_HANDLE_VALUE, m_index_file = INVALID_HANDLE_VALUE,
       m_index = [], m_log_size_bytes = 0, m_bytes_since_last_index = 0,
       m_index_interval_bytes = interval, m_is_sealed = False,
       m_running_crc_raw = INITIAL_CRC, m_record_count = 0, m_last_offset = 0,
       m_max_timestamp_ms = 0 \<rparr>"

definition running_crc :: "LogSegment \<Rightarrow> u32" where
  "running_crc s = crc_finalize (m_running_crc_raw s)"

section \<open>The sealed marker\<close>

record SealedMarker =
  sm_magic :: u32
  sm_record_count :: u64
  sm_last_offset :: u64
  sm_crc32_of_whole_log :: u32
  sm_max_timestamp_ms :: i64

definition default_SealedMarker :: SealedMarker where
  "default_SealedMarker =
     \<lparr> sm_magic = 0x5346534C, sm_record_count = 0, sm_last_offset = 0,
       sm_crc32_of_whole_log = 0, sm_max_timestamp_ms = 0 \<rparr>"

text \<open>The packed struct as it lies in memory (32 bytes).\<close>

definition marker_mem :: "SealedMarker \<Rightarrow> bytes" where
  "marker_mem mk = u32_mem (sm_magic mk) @ u64_mem (sm_record_count mk) @ u64_mem (sm_last_offset mk) @
     u32_mem (sm_crc32_of_whole_log mk) @ u64_mem (sm_max_timestamp_ms mk)"

definition mem_marker :: "bytes \<Rightarrow> SealedMarker" where
  "mem_marker b =
     \<lparr> sm_magic = mem_u32 b, sm_record_count = mem_u64 (drop 4 b), sm_last_offset = mem_u64 (drop 12 b),
       sm_crc32_of_whole_log = mem_u32 (drop 20 b), sm_max_timestamp_ms = mem_u64 (drop 24 b) \<rparr>"

definition has_sealed_marker :: "filesys \<Rightarrow> LogSegment \<Rightarrow> bool" where
  "has_sealed_marker fs s \<longleftrightarrow> fs_exists fs (sealed_path s)"

definition write_sealed_marker :: "os \<Rightarrow> filesys \<Rightarrow> LogSegment \<Rightarrow> Status \<times> filesys" where
  "write_sealed_marker w fs s =
     (let (marker_file, fs1) = open_read_write w fs (sealed_path s) True
      in if \<not> fh_is_valid marker_file then
           (Status IoError (''Failed to open sealed marker file: '' @ path_string (sealed_path s)), fs1)
         else
           (let marker = \<lparr> sm_magic = 0x5346534C, sm_record_count = m_record_count s,
                  sm_last_offset = m_last_offset s, sm_crc32_of_whole_log = running_crc s,
                  sm_max_timestamp_ms = m_max_timestamp_ms s \<rparr>;
                (res, fs2) = fh_write w fs1 marker_file (marker_mem marker)
            in if \<not> res then (Status IoError ''Failed to write sealed marker to file'', fs2)
               else (Status_OK, fh_flush w fs2 marker_file)))"

definition read_sealed_marker ::
  "os \<Rightarrow> filesys \<Rightarrow> LogSegment \<Rightarrow> SealedMarker \<Rightarrow> Status \<times> SealedMarker" where
  "read_sealed_marker w fs s out_marker =
     (let marker_file = open_read_only w fs (sealed_path s)
      in if \<not> fh_is_valid marker_file then
           (Status NotFound (''Sealed marker file not found: '' @ path_string (sealed_path s)), out_marker)
         else case fh_read_at w fs marker_file 0 32 of
           None \<Rightarrow> (Status Corrupt (''Sealed marker file corrupted or incomplete: '' @ path_string (sealed_path s)),
                    out_marker)
         | Some b \<Rightarrow>
             if sm_magic (mem_marker b) \<noteq> 0x5346534C then
               (Status Corrupt (''Invalid sealed marker magic header in '' @ path_string (sealed_path s)),
                mem_marker b)
             else (Status_OK, mem_marker b))"

section \<open>Opening\<close>

definition seg_open :: "os \<Rightarrow> filesys \<Rightarrow> LogSegment \<Rightarrow> (Status \<times> LogSegment \<times> filesys) option" where
  "seg_open w fs s =
     (let fs0 = create_directories fs (m_partition_dir s);
          (lf, fs1) = open_read_write w fs0 (log_path s) True;
          s1 = s\<lparr> m_log_file := lf \<rparr>
      in if \<not> fh_is_valid lf then
           Some (Status IoError (''Failed to open log file: '' @ path_string (log_path s)), s1, fs1)
         else
           (let (xf, fs2) = open_read_write w fs1 (index_path s) True;
                s2 = s1\<lparr> m_index_file := xf \<rparr>
            in if \<not> fh_is_valid xf then
                 Some (Status IoError (''Failed to open index file: '' @ path_string (index_path s)), s2, fs2)
               else do {
                 let s3 = s2\<lparr> m_log_size_bytes := ucast (fh_get_size w fs2 lf) \<rparr>;
                 (loaded, es) \<leftarrow> load_from_file w fs2 xf;
                 let s4 = s3\<lparr> m_index := es \<rparr>;
                 if \<not> loaded then
                   Some (Status IoError (''Failed to load index file: '' @ path_string (index_path s)), s4, fs2)
                 else do {
                   let s5 = s4\<lparr> m_bytes_since_last_index :=
                     (if es \<noteq> [] then
                        (let last_pos = file_position (last es)
                         in if m_log_size_bytes s4 \<ge> last_pos then m_log_size_bytes s4 - last_pos else 0)
                      else m_log_size_bytes s4) \<rparr>;
                   let s6 =
                     (if has_sealed_marker fs2 s5 then
                        (let (st, marker) = read_sealed_marker w fs2 s5 default_SealedMarker
                         in if ok st then
                              s5\<lparr> m_record_count := sm_record_count marker,
                                  m_last_offset := sm_last_offset marker,
                                  m_max_timestamp_ms := sm_max_timestamp_ms marker,
                                  m_is_sealed := True \<rparr>
                            else s5)
                      else s5);
                   Some (Status_OK, s6, fs2)
                 }
               }))"

section \<open>Appending, reading, sealing\<close>

definition seg_flush :: "os \<Rightarrow> filesys \<Rightarrow> LogSegment \<Rightarrow> filesys" where
  "seg_flush w fs s = fh_flush w (fh_flush w fs (m_log_file s)) (m_index_file s)"

definition seg_seal :: "os \<Rightarrow> filesys \<Rightarrow> LogSegment \<Rightarrow> LogSegment \<times> filesys" where
  "seg_seal w fs s = (let s' = s\<lparr> m_is_sealed := True \<rparr> in (s', seg_flush w fs s'))"

text \<open>The bookkeeping of a record that has been written, lines 147 to 153.\<close>

definition note_record :: "LogSegment \<Rightarrow> Record \<Rightarrow> i64 \<Rightarrow> bytes \<Rightarrow> LogSegment" where
  "note_record s record custom_ts encoded =
     s\<lparr> m_log_size_bytes := m_log_size_bytes s + of_nat (length encoded),
        m_running_crc_raw := crc_update (m_running_crc_raw s) encoded,
        m_record_count := m_record_count s + 1,
        m_last_offset := r_offset record,
        m_max_timestamp_ms :=
          (if sint custom_ts > sint (m_max_timestamp_ms s) then custom_ts else m_max_timestamp_ms s) \<rparr>"

definition seg_append_with_timestamp ::
  "os \<Rightarrow> filesys \<Rightarrow> LogSegment \<Rightarrow> Record \<Rightarrow> i64 \<Rightarrow> bool \<Rightarrow> (Status \<times> Record \<times> LogSegment \<times> filesys) option" where
  "seg_append_with_timestamp w fs s record0 custom_ts sync =
     (if m_is_sealed s then
        Some (Status IoError ''Cannot append to a sealed log segment'', record0, s, fs)
      else do {
        let record = record0\<lparr> r_timestamp_ms := custom_ts \<rparr>;
        encoded \<leftarrow> record_encode record;
        if length encoded > unat MAX_RECORD_SIZE then
          Some (Status RecordTooLarge
                  (''Record size '' @ to_string (length encoded) @ '' exceeds 1 MiB limit''), record, s, fs)
        else do {
          let record_pos = m_log_size_bytes s;
          let (res, fs1) = fh_write w fs (m_log_file s) encoded;
          if \<not> res then Some (Status IoError ''Failed to write record to log file'', record, s, fs1)
          else do {
            let s1 = note_record s record custom_ts encoded;
            let rel_offset = (ucast (r_offset record - m_base_offset s) :: u32);
            if m_index s1 = [] \<or> m_bytes_since_last_index s1 \<ge> m_index_interval_bytes s1 then do {
              let (ires, es, fs2) = append_to_file w fs1 (m_index_file s1) (m_index s1) rel_offset record_pos;
              let s2 = s1\<lparr> m_index := es \<rparr>;
              if \<not> ires then Some (Status IoError ''Failed to append index entry'', record, s2, fs2)
              else do {
                let s3 = s2\<lparr> m_bytes_since_last_index := 0 \<rparr>;
                Some (Status_OK, record, s3, if sync then seg_flush w fs2 s3 else fs2)
              }
            } else do {
              let s2 = s1\<lparr> m_bytes_since_last_index := m_bytes_since_last_index s1 + of_nat (length encoded) \<rparr>;
              Some (Status_OK, record, s2, if sync then seg_flush w fs1 s2 else fs1)
            }
          }
        }
      })"

definition seg_append ::
  "os \<Rightarrow> filesys \<Rightarrow> LogSegment \<Rightarrow> Record \<Rightarrow> bool \<Rightarrow> (Status \<times> Record \<times> LogSegment \<times> filesys) option" where
  "seg_append w fs s record sync = seg_append_with_timestamp w fs s record (r_timestamp_ms record) sync"

definition read_record_at ::
  "os \<Rightarrow> filesys \<Rightarrow> LogSegment \<Rightarrow> u64 \<Rightarrow> Record \<Rightarrow> (Status \<times> Record) option" where
  "read_record_at w fs s pos out_record =
     (if pos \<ge> ucast (m_log_size_bytes s) then
        Some (Status OffsetOutOfRange ''File position beyond log size'', out_record)
      else case fh_read_at w fs (m_log_file s) (unat pos) 28 of
        None \<Rightarrow> Some (Status Corrupt
                 (''Failed to read record header at position '' @ to_string (unat pos)), out_record)
      | Some header \<Rightarrow>
          (let len = read_u32 header
           in if len < 24 \<or> len > MAX_RECORD_SIZE then
                Some (Status Corrupt (''Invalid record length ('' @ to_string (unat len) @
                        '') at position '' @ to_string (unat pos)), out_record)
              else
                (let total_record_size = 4 + len
                 in case fh_read_at w fs (m_log_file s) (unat pos) (unat total_record_size) of
                      None \<Rightarrow> Some (Status Corrupt
                        (''Failed to read complete record buffer at position '' @ to_string (unat pos)), out_record)
                    | Some buffer \<Rightarrow> record_decode buffer (length buffer) out_record)))"

definition lookup_file_position :: "LogSegment \<Rightarrow> u64 \<Rightarrow> u32" where
  "lookup_file_position s target_offset =
     (if target_offset \<le> m_base_offset s then 0
      else lookup (m_index s) (ucast (target_offset - m_base_offset s)))"

section \<open>File names\<close>

lemma length_format_base_offset [simp]: "length (format_base_offset b) = 20"
proof -
  have "unat b < 10 ^ 20" using unat_u64_lt [of b] by (rule less_trans) simp
  then have "length (to_string (unat b)) \<le> 20" by (rule length_to_string_le) simp
  then show ?thesis by (simp add: format_base_offset_def Let_def)
qed

lemma digits_val_format_base_offset [simp]: "digits_val 0 (format_base_offset b) = unat b"
  by (simp add: format_base_offset_def Let_def digits_val_append digits_val_replicate_0 digits_val_to_string)

lemma format_base_offset_digits: "c \<in> set (format_base_offset b) \<Longrightarrow> is_digit c"
  by (auto simp: format_base_offset_def Let_def dest: to_string_digits)

lemma format_base_offset_inj [simp]: "format_base_offset a = format_base_offset b \<longleftrightarrow> a = b"
  by (metis digits_val_format_base_offset word_unat_eq_iff)

lemmas seg_paths = log_path_def index_path_def sealed_path_def

lemma seg_paths_distinct [simp]:
  "log_path s \<noteq> index_path t" "index_path s \<noteq> log_path t"
  "log_path s \<noteq> sealed_path t" "sealed_path s \<noteq> log_path t"
  "index_path s \<noteq> sealed_path t" "sealed_path s \<noteq> index_path t"
  by (auto simp: seg_paths)

lemma seg_paths_base [simp]:
  "m_partition_dir s = m_partition_dir t \<Longrightarrow> log_path s = log_path t \<longleftrightarrow> m_base_offset s = m_base_offset t"
  "m_partition_dir s = m_partition_dir t \<Longrightarrow> index_path s = index_path t \<longleftrightarrow> m_base_offset s = m_base_offset t"
  "m_partition_dir s = m_partition_dir t \<Longrightarrow> sealed_path s = sealed_path t \<longleftrightarrow> m_base_offset s = m_base_offset t"
  by (auto simp: seg_paths)

lemma seg_paths_update [simp, seg_simps]:
  "log_path (m_index_update f s) = log_path s" "index_path (m_index_update f s) = index_path s"
  "log_path (m_log_size_bytes_update g s) = log_path s" "index_path (m_log_size_bytes_update g s) = index_path s"
  "log_path (m_bytes_since_last_index_update g s) = log_path s"
  "index_path (m_bytes_since_last_index_update g s) = index_path s"
  "log_path (m_is_sealed_update h s) = log_path s" "index_path (m_is_sealed_update h s) = index_path s"
  "sealed_path (m_is_sealed_update h s) = sealed_path s"
  "log_path (note_record s r ts b) = log_path s" "index_path (note_record s r ts b) = index_path s"
  by (simp_all add: seg_paths note_record_def)

section \<open>What a segment holds\<close>

definition log_bytes :: "Record list \<Rightarrow> bytes" where
  "log_bytes rs = concat (map record_bytes rs)"

definition pos_of :: "Record list \<Rightarrow> nat \<Rightarrow> nat" where
  "pos_of rs i = length (log_bytes (take i rs))"

definition offsets_from :: "u64 \<Rightarrow> Record list \<Rightarrow> bool" where
  "offsets_from base rs \<longleftrightarrow>
     (\<forall>i < length rs. r_offset (rs ! i) = base + of_nat i) \<and> unat base + length rs < 2 ^ 64"

definition entry_at :: "u64 \<Rightarrow> Record list \<Rightarrow> nat \<Rightarrow> IndexEntry" where
  "entry_at base rs i =
     \<lparr> relative_offset = ucast (r_offset (rs ! i) - base), file_position = of_nat (pos_of rs i) \<rparr>"

text \<open>The index has entries for some of the records, in order, the first one included.\<close>

definition index_ok :: "u64 \<Rightarrow> Record list \<Rightarrow> IndexEntry list \<Rightarrow> bool" where
  "index_ok base rs es \<longleftrightarrow>
     (\<exists>ns. es = map (entry_at base rs) ns \<and> sorted_wrt (<) ns \<and> set ns \<subseteq> {..<length rs} \<and>
           (rs \<noteq> [] \<longrightarrow> ns \<noteq> [] \<and> hd ns = 0))"

definition seg_rep :: "filesys \<Rightarrow> LogSegment \<Rightarrow> Record list \<Rightarrow> bool" where
  "seg_rep fs s rs \<longleftrightarrow>
     m_log_file s = Handle (log_path s) \<and> m_index_file s = Handle (index_path s) \<and>
     fexists fs (log_path s) \<and> fexists fs (index_path s) \<and>
     fdata fs (log_path s) = log_bytes rs \<and> length (log_bytes rs) < 2 ^ 32 \<and>
     m_log_size_bytes s = of_nat (length (log_bytes rs)) \<and>
     fdata fs (index_path s) = concat (map entry_bytes (m_index s)) \<and>
     index_ok (m_base_offset s) rs (m_index s) \<and>
     offsets_from (m_base_offset s) rs \<and> (\<forall>r \<in> set rs. record_size r \<le> 1048580)"

lemma log_bytes_simps [simp]:
  "log_bytes [] = []" "log_bytes (r # rs) = record_bytes r @ log_bytes rs"
  "log_bytes (rs @ ts) = log_bytes rs @ log_bytes ts"
  by (simp_all add: log_bytes_def)

lemma length_log_bytes_ge: "28 * length rs \<le> length (log_bytes rs)"
proof (induction rs)
  case (Cons r rs)
  then show ?case by (simp add: record_size_def)
qed simp

lemma length_log_bytes_eq_0 [simp]: "log_bytes rs = [] \<longleftrightarrow> rs = []"
  using length_log_bytes_ge [of rs] by auto

lemma pos_of_simps [simp]: "pos_of rs 0 = 0" "pos_of rs (length rs) = length (log_bytes rs)"
  by (simp_all add: pos_of_def)

lemma pos_of_Suc: "i < length rs \<Longrightarrow> pos_of rs (Suc i) = pos_of rs i + record_size (rs ! i)"
  by (simp add: pos_of_def take_Suc_conv_app_nth)

lemma pos_of_append: "i \<le> length rs \<Longrightarrow> pos_of (rs @ ts) i = pos_of rs i"
  by (simp add: pos_of_def)

lemma log_bytes_split:
  "i < length rs \<Longrightarrow>
   log_bytes rs = log_bytes (take i rs) @ record_bytes (rs ! i) @ log_bytes (drop (Suc i) rs)"
  by (metis id_take_nth_drop log_bytes_simps(2,3))

lemma pos_of_le: "i \<le> length rs \<Longrightarrow> pos_of rs i \<le> length (log_bytes rs)"
  by (metis append_take_drop_id le_add1 length_append log_bytes_simps(3) pos_of_def)

lemma pos_of_less: "i < length rs \<Longrightarrow> pos_of rs i + record_size (rs ! i) \<le> length (log_bytes rs)"
  using pos_of_le [of "Suc i" rs] by (simp add: pos_of_Suc)

lemma drop_pos_of:
  "i < length rs \<Longrightarrow> drop (pos_of rs i) (log_bytes rs) = record_bytes (rs ! i) @ log_bytes (drop (Suc i) rs)"
  by (subst log_bytes_split, assumption) (simp add: pos_of_def)

lemma entry_at_append: "i < length rs \<Longrightarrow> entry_at base (rs @ ts) i = entry_at base rs i"
  by (simp add: entry_at_def nth_append pos_of_append)

lemma index_ok_append:
  assumes "index_ok base rs es"
  shows "rs \<noteq> [] \<Longrightarrow> index_ok base (rs @ [r]) es"
    and "index_ok base (rs @ [r]) (es @ [entry_at base (rs @ [r]) (length rs)])"
proof -
  obtain ns where ns: "es = map (entry_at base rs) ns" "sorted_wrt (<) ns" "set ns \<subseteq> {..<length rs}"
      "rs \<noteq> [] \<longrightarrow> ns \<noteq> [] \<and> hd ns = 0"
    using assms by (auto simp: index_ok_def)
  have es: "es = map (entry_at base (rs @ [r])) ns"
    using ns by (auto simp: entry_at_append)
  show "rs \<noteq> [] \<Longrightarrow> index_ok base (rs @ [r]) es"
    unfolding index_ok_def by (rule exI [of _ ns]) (use ns es in auto)
  show "index_ok base (rs @ [r]) (es @ [entry_at base (rs @ [r]) (length rs)])"
    unfolding index_ok_def
    by (rule exI [of _ "ns @ [length rs]"])
      (use ns es in \<open>auto simp: sorted_wrt_append hd_append\<close>)
qed

section \<open>Reading a segment\<close>

lemma offset_rel:
  assumes "offsets_from base rs" "i < length rs" "length rs < 2 ^ 32"
  shows "unat (ucast (r_offset (rs ! i) - base) :: u32) = i"
proof -
  have "unat (of_nat i :: u64) = i" using assms by (simp add: unat_of_nat_u64)
  then show ?thesis using assms
    by (simp add: offsets_from_def unsigned_ucast_eq take_bit_nat_eq_self)
qed

lemma unat_offset:
  assumes "offsets_from base rs" "i < length rs"
  shows "unat (r_offset (rs ! i)) = unat base + i"
proof -
  have "unat (of_nat i :: u64) = i" using assms by (simp add: unat_of_nat_u64 offsets_from_def)
  then show ?thesis using assms by (simp add: offsets_from_def unat_add_small_u64)
qed

lemma index_ok_sorted:
  assumes "index_ok base rs es" "offsets_from base rs" "length rs < 2 ^ 32"
  shows "index_sorted es"
proof -
  obtain ns where ns: "es = map (entry_at base rs) ns" "sorted_wrt (<) ns" "set ns \<subseteq> {..<length rs}"
    using assms(1) by (auto simp: index_ok_def)
  have "sorted_wrt (\<le>) (map (\<lambda>i. relative_offset (entry_at base rs i)) ns)"
    unfolding sorted_wrt_map
    by (rule sorted_wrt_mono_rel [OF _ ns(2)])
      (use ns(3) assms in \<open>auto simp: entry_at_def word_le_nat_alt offset_rel\<close>)
  then show ?thesis by (simp add: index_sorted_def ns(1) comp_def)
qed

lemma lookup_index_ok:
  assumes "index_ok base rs es" "offsets_from base rs" "length rs < 2 ^ 32" "rs \<noteq> []"
  shows "\<exists>i < length rs. i \<le> unat t \<and> lookup es t = of_nat (pos_of rs i)"
proof -
  obtain ns where ns: "es = map (entry_at base rs) ns" "set ns \<subseteq> {..<length rs}" "ns \<noteq> []" "hd ns = 0"
    using assms(1,4) by (auto simp: index_ok_def)
  have "es \<noteq> []" using ns by simp
  then obtain k where k: "k \<le> length es"
      "lookup es t = (if k = 0 then file_position (hd es) else file_position (es ! (k - 1)))"
      "\<forall>j < k. relative_offset (es ! j) \<le> t"
    using lookup_sorted [OF index_ok_sorted [OF assms(1-3)]] by blast
  show ?thesis
  proof (cases "k = 0")
    case True
    then show ?thesis using k ns assms(4) by (intro exI [of _ 0]) (simp add: hd_map entry_at_def)
  next
    case False
    let ?i = "ns ! (k - 1)"
    have l: "k - 1 < length ns" using False k ns by simp
    then have i: "?i < length rs" using ns(2) by (meson lessThan_iff nth_mem subsetD)
    have "relative_offset (es ! (k - 1)) \<le> t" using k(3) False by simp
    then have "?i \<le> unat t"
      using l i ns(1) offset_rel [OF assms(2) i assms(3)] by (simp add: entry_at_def word_le_nat_alt)
    then show ?thesis using i l False k(2) ns(1)
      by (intro exI [of _ ?i]) (simp add: entry_at_def)
  qed
qed

lemma seg_rep_length:
  assumes "seg_rep fs s rs"
  shows "length rs < 2 ^ 32" "8 * length (m_index s) < 2 ^ 32"
proof -
  have l: "28 * length rs < 2 ^ 32"
    using assms length_log_bytes_ge [of rs] by (simp add: seg_rep_def)
  then show "length rs < 2 ^ 32" by simp
  obtain ns where ns: "m_index s = map (entry_at (m_base_offset s) rs) ns" "sorted_wrt (<) ns" "set ns \<subseteq> {..<length rs}"
    using assms by (auto simp: seg_rep_def index_ok_def)
  have "distinct ns" using ns(2) by (simp add: strict_sorted_iff)
  then have "length ns \<le> length rs"
    using ns(3) by (metis card_lessThan card_mono distinct_card finite_lessThan)
  then show "8 * length (m_index s) < 2 ^ 32" using l ns(1) by simp
qed

text \<open>The position the index gives is the start of a record at or before the target.\<close>

lemma lookup_file_position_rep:
  assumes rep: "seg_rep fs s rs" and rs: "rs \<noteq> []" and t: "unat target < unat (m_base_offset s) + length rs"
  shows "\<exists>i < length rs. lookup_file_position s target = of_nat (pos_of rs i) \<and>
    (i = 0 \<or> unat (m_base_offset s) + i \<le> unat target)"
proof (cases "target \<le> m_base_offset s")
  case True
  then show ?thesis using rs by (intro exI [of _ 0]) (simp add: lookup_file_position_def)
next
  case False
  let ?d = "target - m_base_offset s"
  have d: "unat ?d = unat target - unat (m_base_offset s)"
    using False by (simp add: unat_sub_small word_le_nat_alt)
  have len: "length rs < 2 ^ 32" by (rule seg_rep_length [OF rep])
  have "unat (ucast ?d :: u32) = unat ?d"
    using d t len by (simp add: unsigned_ucast_eq take_bit_nat_eq_self)
  moreover obtain i where "i < length rs" "i \<le> unat (ucast ?d :: u32)"
      "lookup (m_index s) (ucast ?d) = of_nat (pos_of rs i)"
    using lookup_index_ok [of "m_base_offset s" rs "m_index s" "ucast ?d"] rep len rs
    by (auto simp: seg_rep_def)
  ultimately show ?thesis using False d
    by (intro exI [of _ i]) (auto simp: lookup_file_position_def word_le_nat_alt)
qed

lemma read_record_at_end:
  "unat pos = unat (m_log_size_bytes s) \<Longrightarrow>
   read_record_at w fs s pos out = Some (Status OffsetOutOfRange ''File position beyond log size'', out)"
  by (simp add: read_record_at_def word_le_nat_alt unsigned_ucast_eq take_bit_nat_eq_self)

lemma read_record_at_rep:
  assumes w: "reliable w" and rep: "seg_rep fs s rs" and i: "i < length rs"
    and pos: "unat pos = pos_of rs i"
  shows "read_record_at w fs s pos out = Some (Status_OK, rs ! i)"
proof -
  let ?r = "rs ! i" and ?d = "fdata fs (log_path s)"
  define rest where "rest = log_bytes (drop (Suc i) rs)"
  have lf: "m_log_file s = Handle (log_path s)" and d: "?d = log_bytes rs"
    and bound: "length (log_bytes rs) < 4294967296" and msize: "unat (m_log_size_bytes s) = length (log_bytes rs)"
    and size: "record_size ?r \<le> 1048580"
    using rep i by (simp_all add: seg_rep_def unat_of_nat_u32)
  have fit: "pos_of rs i + record_size ?r \<le> length (log_bytes rs)" by (rule pos_of_less [OF i])
  have fit28: "pos_of rs i + 28 \<le> length (log_bytes rs)"
    using fit by (rule order_trans [rotated]) simp
  have at: "drop (pos_of rs i) ?d = record_bytes ?r @ rest"
    unfolding d rest_def by (rule drop_pos_of [OF i])
  define len where "len = (of_nat (record_size ?r - 4) :: u32)"
  have len: "unat len = record_size ?r - 4" using size by (simp add: len_def unat_of_nat_u32)
  have hd: "read_u32 (take 28 (record_bytes ?r @ rest)) = len"
    by (simp add: record_bytes_def len_def)
  have total: "unat (4 + len) = record_size ?r"
    using size len by (subst unat_add_small_u32) (simp_all add: record_size_def)
  have r1: "fh_read_at w fs (m_log_file s) (unat pos) 28 = Some (take 28 (record_bytes ?r @ rest))"
    unfolding lf pos reliable_read [OF w] at using fit28 d by simp
  have r2: "fh_read_at w fs (m_log_file s) (unat pos) (unat (4 + len)) = Some (record_bytes ?r)"
    unfolding lf pos reliable_read [OF w] at total using fit d by simp
  have lo: "\<not> (len < 24 \<or> MAX_RECORD_SIZE < len)"
    using len size by (simp add: word_less_nat_alt record_size_def)
  have "\<not> ucast (m_log_size_bytes s) \<le> pos"
    using fit28 msize pos bound by (simp add: word_le_nat_alt unsigned_ucast_eq take_bit_nat_eq_self)
  then show ?thesis
    unfolding read_record_at_def r1 option.case Let_def hd r2
    using lo record_decode_bytes [OF size, of "[]" out] by simp
qed

section \<open>Appending to a segment\<close>

text \<open>The metadata a segment keeps beside the log, as a function of its records.\<close>

fun max_ts :: "i64 \<Rightarrow> Record list \<Rightarrow> i64" where
  "max_ts m [] = m"
| "max_ts m (r # rs) = max_ts (if sint (r_timestamp_ms r) > sint m then r_timestamp_ms r else m) rs"

lemma max_ts_append: "max_ts m (rs @ ts) = max_ts (max_ts m rs) ts"
  by (induction m rs rule: max_ts.induct) auto

definition seg_meta :: "LogSegment \<Rightarrow> Record list \<Rightarrow> bool" where
  "seg_meta s rs \<longleftrightarrow>
     m_record_count s = of_nat (length rs) \<and>
     (rs \<noteq> [] \<longrightarrow> m_last_offset s = r_offset (last rs)) \<and>
     m_running_crc_raw s = crc_update INITIAL_CRC (log_bytes rs) \<and>
     m_max_timestamp_ms s = max_ts 0 rs"

lemma note_record_sel [simp, seg_simps]:
  "m_base_offset (note_record s r ts b) = m_base_offset s"
  "m_partition_dir (note_record s r ts b) = m_partition_dir s"
  "m_log_file (note_record s r ts b) = m_log_file s"
  "m_index_file (note_record s r ts b) = m_index_file s"
  "m_index (note_record s r ts b) = m_index s"
  "m_log_size_bytes (note_record s r ts b) = m_log_size_bytes s + of_nat (length b)"
  "m_bytes_since_last_index (note_record s r ts b) = m_bytes_since_last_index s"
  "m_index_interval_bytes (note_record s r ts b) = m_index_interval_bytes s"
  "m_is_sealed (note_record s r ts b) = m_is_sealed s"
  by (simp_all add: note_record_def)

lemma note_record_meta:
  "seg_meta s rs \<Longrightarrow> r_timestamp_ms r = ts \<Longrightarrow> seg_meta (note_record s r ts (record_bytes r)) (rs @ [r])"
  by (simp add: seg_meta_def note_record_def crc_update_append max_ts_append)

lemma seg_meta_update [simp, seg_simps]:
  "seg_meta (m_index_update f s) rs = seg_meta s rs"
  "seg_meta (m_bytes_since_last_index_update g s) rs = seg_meta s rs"
  "seg_meta (m_is_sealed_update h s) rs = seg_meta s rs"
  by (simp_all add: seg_meta_def)

lemma seg_rep_update [simp, seg_simps]:
  "seg_rep fs (m_bytes_since_last_index_update g s) rs = seg_rep fs s rs"
  "seg_rep fs (m_is_sealed_update h s) rs = seg_rep fs s rs"
  by (simp_all add: seg_rep_def)

lemma seg_rep_cong:
  assumes "seg_rep fs s rs"
    and "fdata fs' (log_path s) = fdata fs (log_path s)" "fdata fs' (index_path s) = fdata fs (index_path s)"
    and "fexists fs' (log_path s) = fexists fs (log_path s)" "fexists fs' (index_path s) = fexists fs (index_path s)"
  shows "seg_rep fs' s rs"
  using assms by (simp add: seg_rep_def)

lemma seg_rep_flush [simp, seg_simps]: "seg_rep (seg_flush w fs t) s rs = seg_rep fs s rs"
  by (simp add: seg_rep_def seg_flush_def)

lemma seg_rep_outside:
  "seg_rep fs s rs \<Longrightarrow> same_outside P fs fs' \<Longrightarrow> log_path s \<notin> P \<Longrightarrow> index_path s \<notin> P \<Longrightarrow> seg_rep fs' s rs"
  by (erule seg_rep_cong) (auto dest: same_outsideD)

lemma same_outside_seg_flush:
  "seg_rep fs s rs \<Longrightarrow> same_outside {log_path s, index_path s} fs (seg_flush w fs s)"
  unfolding seg_flush_def seg_rep_def
  by (elim conjE) (auto intro!: same_outside_trans [OF same_outside_flush same_outside_flush])

text \<open>Everything a segment holds is durable.\<close>

definition seg_synced :: "filesys \<Rightarrow> LogSegment \<Rightarrow> bool" where
  "seg_synced fs s \<longleftrightarrow> f_synced (get_file fs (log_path s)) = length (fdata fs (log_path s)) \<and>
     f_synced (get_file fs (index_path s)) = length (fdata fs (index_path s))"

lemma seg_synced_flush:
  assumes "reliable w" "seg_rep fs s rs"
  shows "seg_synced (seg_flush w fs s) s"
proof -
  have lf: "m_log_file s = Handle (log_path s)" "m_index_file s = Handle (index_path s)"
    and ex: "fexists fs (log_path s)" "fexists fs (index_path s)"
    using assms(2) by (simp_all add: seg_rep_def)
  show ?thesis
    unfolding seg_synced_def seg_flush_def lf
    using ex fh_flush_synced [OF assms(1)] by simp
qed

text \<open>A record goes to the end of the log file; one index entry may follow.\<close>

lemma offsets_from_snoc:
  assumes "offsets_from base rs" "r_offset r = base + of_nat (length rs)" "unat base + length rs + 1 < 2 ^ 64"
  shows "offsets_from base (rs @ [r])"
  using assms by (auto simp: offsets_from_def nth_append less_Suc_eq)

lemma seg_rep_write:
  assumes rep: "seg_rep fs s rs"
    and off: "r_offset r = m_base_offset s + of_nat (length rs)" "unat (m_base_offset s) + length rs + 1 < 2 ^ 64"
    and size: "record_size r \<le> 1048580" and room: "length (log_bytes rs) + record_size r < 2 ^ 32"
    and fs1: "fs1 = put_file fs (log_path s) ((get_file fs (log_path s))\<lparr> f_data := fdata fs (log_path s) @ record_bytes r \<rparr>)"
    and es: "es = m_index s \<and> rs \<noteq> [] \<and> fs2 = fs1 \<or>
      es = m_index s @ [entry_at (m_base_offset s) (rs @ [r]) (length rs)] \<and>
      fs2 = put_file fs1 (index_path s) ((get_file fs1 (index_path s))\<lparr> f_data :=
        fdata fs1 (index_path s) @ entry_bytes (entry_at (m_base_offset s) (rs @ [r]) (length rs)) \<rparr>)"
  shows "seg_rep fs2 ((note_record s r ts (record_bytes r))\<lparr> m_index := es \<rparr>) (rs @ [r])"
proof -
  have ix: "index_ok (m_base_offset s) (rs @ [r]) es"
    using es index_ok_append [of "m_base_offset s" rs "m_index s" r] rep by (auto simp: seg_rep_def)
  have "offsets_from (m_base_offset s) (rs @ [r])"
    using offsets_from_snoc off rep by (simp add: seg_rep_def)
  then show ?thesis
    using rep ix es size room unfolding seg_rep_def fs1
    by (elim disjE conjE) (simp_all add: seg_rep_def)
qed

text \<open>Two states of one segment object.\<close>

definition same_seg :: "LogSegment \<Rightarrow> LogSegment \<Rightarrow> bool" where
  "same_seg s s' \<longleftrightarrow> m_base_offset s' = m_base_offset s \<and> m_partition_dir s' = m_partition_dir s \<and>
     m_index_interval_bytes s' = m_index_interval_bytes s"

lemma same_seg_paths:
  "same_seg s s' \<Longrightarrow> log_path s' = log_path s \<and> index_path s' = index_path s \<and> sealed_path s' = sealed_path s"
  by (simp add: same_seg_def seg_paths)

lemma seg_append_ok:
  assumes w: "reliable w" and rep: "seg_rep fs s rs" and live: "\<not> m_is_sealed s"
    and off: "r_offset r0 = m_base_offset s + of_nat (length rs)" "unat (m_base_offset s) + length rs + 1 < 2 ^ 64"
    and size: "record_size r0 \<le> 1048576" and room: "length (log_bytes rs) + record_size r0 < 2 ^ 32"
    and r_def: "r = r0\<lparr> r_timestamp_ms := ts \<rparr>"
  shows "\<exists>s' fs'. seg_append_with_timestamp w fs s r0 ts sync = Some (Status_OK, r, s', fs') \<and>
    seg_rep fs' s' (rs @ [r]) \<and> (seg_meta s rs \<longrightarrow> seg_meta s' (rs @ [r])) \<and> same_seg s s' \<and>
    \<not> m_is_sealed s' \<and> same_outside {log_path s, index_path s} fs fs' \<and> (sync \<longrightarrow> seg_synced fs' s')"
proof -
  define e where "e = entry_at (m_base_offset s) (rs @ [r]) (length rs)"
  define fs1 where "fs1 = put_file fs (log_path s)
    ((get_file fs (log_path s))\<lparr> f_data := fdata fs (log_path s) @ record_bytes r \<rparr>)"
  define fs2 where "fs2 = put_file fs1 (index_path s)
    ((get_file fs1 (index_path s))\<lparr> f_data := fdata fs1 (index_path s) @ entry_bytes e \<rparr>)"
  define s1 where "s1 = note_record s r ts (record_bytes r)"
  have h: "m_log_file s = Handle (log_path s)" "m_index_file s = Handle (index_path s)"
    and pos: "m_log_size_bytes s = of_nat (length (log_bytes rs))" and idx: "index_ok (m_base_offset s) rs (m_index s)"
    using rep by (simp_all add: seg_rep_def)
  have rsize: "record_size r = record_size r0" by (simp add: r_def record_size_def)
  have roff: "r_offset r = m_base_offset s + of_nat (length rs)" using off(1) by (simp add: r_def)
  have enc: "record_encode r = Some (record_bytes r)"
    using size rsize by (intro record_encode_layout) simp
  have wr: "fh_write w fs (m_log_file s) (record_bytes r) = (True, fs1)"
    by (simp add: h reliable_write [OF w] fs1_def)
  have e: "e = \<lparr> relative_offset = ucast (r_offset r - m_base_offset s), file_position = m_log_size_bytes s \<rparr>"
    by (simp add: e_def entry_at_def pos pos_of_append)
  have ap: "append_to_file w fs1 (m_index_file s) (m_index s) (ucast (r_offset r - m_base_offset s)) (m_log_size_bytes s)
      = (True, m_index s @ [e], fs2)"
    by (simp add: h append_to_file_reliable [OF w] e fs2_def add_entry_def)
  have rep': "seg_rep fs' (s1\<lparr> m_index := es \<rparr>) (rs @ [r])"
    if "es = m_index s \<and> rs \<noteq> [] \<and> fs' = fs1 \<or> es = m_index s @ [e] \<and> fs' = fs2" for es fs'
    unfolding s1_def
    by (rule seg_rep_write [OF rep roff off(2) _ _ fs1_def])
      (use that size room rsize in \<open>simp_all add: e_def fs2_def\<close>)
  have meta: "seg_meta s rs \<Longrightarrow> seg_meta s1 (rs @ [r])"
    unfolding s1_def by (rule note_record_meta) (simp_all add: r_def)
  have out: "same_outside {log_path s, index_path s} fs fs1" "same_outside {log_path s, index_path s} fs fs2"
    unfolding fs2_def fs1_def by (auto intro: same_outside_trans [OF same_outside_put_file same_outside_put_file])
  have step: ?thesis
    if eq: "seg_append_with_timestamp w fs s r0 ts sync =
        Some (Status_OK, r, s', if sync then seg_flush w fs' s' else fs')"
      and s': "s' = s1\<lparr> m_index := es, m_bytes_since_last_index := n \<rparr>"
      and c: "es = m_index s \<and> rs \<noteq> [] \<and> fs' = fs1 \<or> es = m_index s @ [e] \<and> fs' = fs2" for s' es n fs'
  proof -
    have srep: "seg_rep fs' s' (rs @ [r])"
      using rep' [OF c] by (simp add: s')
    have paths: "log_path s' = log_path s" "index_path s' = index_path s" by (simp_all add: s' s1_def)
    have "same_outside {log_path s, index_path s} fs fs'" using c out by auto
    moreover have "same_outside {log_path s, index_path s} fs' (seg_flush w fs' s')"
      using same_outside_seg_flush [OF srep] by (simp add: paths)
    moreover have "same_seg s s'" "\<not> m_is_sealed s'" using live by (simp_all add: same_seg_def s' s1_def)
    moreover have "seg_meta s rs \<longrightarrow> seg_meta s' (rs @ [r])" using meta by (simp add: s')
    moreover have "seg_synced (seg_flush w fs' s') s'" by (rule seg_synced_flush [OF w srep])
    ultimately show ?thesis
      unfolding eq using srep by (auto intro: same_outside_trans)
  qed
  have enc_len: "\<not> unat MAX_RECORD_SIZE < length (record_bytes r)" using size rsize by simp
  show ?thesis
  proof (cases "m_index s1 = [] \<or> m_bytes_since_last_index s1 \<ge> m_index_interval_bytes s1")
    case True
    have "seg_append_with_timestamp w fs s r0 ts sync = Some (Status_OK, r,
        s1\<lparr> m_index := m_index s @ [e], m_bytes_since_last_index := 0 \<rparr>,
        if sync then seg_flush w fs2 (s1\<lparr> m_index := m_index s @ [e], m_bytes_since_last_index := 0 \<rparr>) else fs2)"
      using True live ap enc_len unfolding seg_append_with_timestamp_def Let_def r_def [symmetric] enc
      by (simp add: wr s1_def)
    then show ?thesis by (rule step) (rule refl, simp)
  next
    case False
    define n where "n = m_bytes_since_last_index s1 + of_nat (length (record_bytes r))"
    have "seg_append_with_timestamp w fs s r0 ts sync = Some (Status_OK, r, s1\<lparr> m_bytes_since_last_index := n \<rparr>,
        if sync then seg_flush w fs1 (s1\<lparr> m_bytes_since_last_index := n \<rparr>) else fs1)"
      using False live enc_len unfolding seg_append_with_timestamp_def Let_def r_def [symmetric] enc
      by (simp add: wr s1_def n_def)
    moreover have "s1\<lparr> m_bytes_since_last_index := n \<rparr> = s1\<lparr> m_index := m_index s, m_bytes_since_last_index := n \<rparr>"
      by (simp add: s1_def note_record_def)
    moreover have "m_index s = m_index s \<and> rs \<noteq> [] \<and> fs1 = fs1 \<or> m_index s = m_index s @ [e] \<and> fs1 = fs2"
      using False idx by (auto simp: index_ok_def s1_def)
    ultimately show ?thesis by (rule step)
  qed
qed

lemma seg_append_sealed:
  "m_is_sealed s \<Longrightarrow> seg_append_with_timestamp w fs s r ts sync =
     Some (Status IoError ''Cannot append to a sealed log segment'', r, s, fs)"
  by (simp add: seg_append_with_timestamp_def)

section \<open>An example segment\<close>

text \<open>The files of a segment object that has been opened.\<close>

definition seg_opened :: "filesys \<Rightarrow> LogSegment \<Rightarrow> bool" where
  "seg_opened fs s \<longleftrightarrow> m_log_file s = Handle (log_path s) \<and> m_index_file s = Handle (index_path s) \<and>
     fexists fs (log_path s) \<and> fexists fs (index_path s)"

text \<open>A segment with one record, for concrete instances.\<close>

definition sample_record :: Record where
  "sample_record = \<lparr> r_offset = 0, r_timestamp_ms = 5, r_key = [1], r_value = [2, 3] \<rparr>"

definition sample_seg :: LogSegment where
  "sample_seg = (let s = make_LogSegment 0 [''topic-0''] 4096
     in s\<lparr> m_log_file := Handle (log_path s), m_index_file := Handle (index_path s) \<rparr>)"

definition sample_fs :: "bytes \<Rightarrow> filesys" where
  "sample_fs d = \<lparr> fs_files = [(log_path sample_seg, \<lparr> f_data = d, f_synced = 0 \<rparr>), (index_path sample_seg, empty_file)],
     fs_dirs = [[''topic-0'']] \<rparr>"

lemma sample_sel [simp]:
  "record_size sample_record = 31" "r_offset sample_record = 0"
  "m_base_offset sample_seg = 0" "\<not> m_is_sealed sample_seg" "m_index sample_seg = []"
  "fdata (sample_fs d) (log_path sample_seg) = d"
  by (simp_all add: sample_record_def sample_seg_def sample_fs_def record_size_def make_LogSegment_def
      Let_def get_file_def)

lemma sample_opened [simp]: "seg_opened (sample_fs d) sample_seg"
  by (auto simp: seg_opened_def sample_seg_def sample_fs_def Let_def seg_paths make_LogSegment_def fexists_def)

lemma sample_offsets [simp]: "offsets_from 0 [sample_record]"
  by (simp add: offsets_from_def)

lemma sample_rep: "seg_rep (sample_fs []) sample_seg []"
  using sample_opened [of "[]"] unfolding seg_opened_def
  by (auto simp: seg_rep_def index_ok_def offsets_from_def)
    (auto simp: sample_fs_def sample_seg_def Let_def seg_paths make_LogSegment_def get_file_def)

section \<open>Appending and reading back\<close>

text \<open>
  Appending to an open segment refines appending to a list: the call succeeds, the segment
  and its files then represent the old records followed by the new one, metadata included,
  every record of the segment can be read at its position, and with \<^verbatim>\<open>sync_on_append\<close> log
  and index are durable.
\<close>

lemma segment_append_refines:
  assumes "reliable w" "seg_rep fs s rs" "seg_meta s rs" "\<not> m_is_sealed s"
    and "r_offset r = m_base_offset s + of_nat (length rs)" "unat (m_base_offset s) + length rs + 1 < 2 ^ 64"
    and "record_size r \<le> unat MAX_RECORD_SIZE" "length (log_bytes rs) + record_size r < 2 ^ 32"
  shows "\<exists>s' fs'. seg_append w fs s r sync = Some (Status_OK, r, s', fs') \<and>
    seg_rep fs' s' (rs @ [r]) \<and> seg_meta s' (rs @ [r]) \<and> (sync \<longrightarrow> seg_synced fs' s') \<and>
    (\<forall>i \<le> length rs. read_record_at w fs' s' (of_nat (pos_of (rs @ [r]) i)) out = Some (Status_OK, (rs @ [r]) ! i))"
proof -
  obtain s' fs' where a: "seg_append w fs s r sync = Some (Status_OK, r, s', fs')" "seg_rep fs' s' (rs @ [r])"
      "seg_meta s' (rs @ [r])" "sync \<longrightarrow> seg_synced fs' s'"
    using seg_append_ok [OF assms(1,2,4-6), of r "r_timestamp_ms r" sync] assms(3,7,8)
    unfolding seg_append_def by auto
  have "read_record_at w fs' s' (of_nat (pos_of (rs @ [r]) i)) out = Some (Status_OK, (rs @ [r]) ! i)"
    if "i \<le> length rs" for i
  proof (rule read_record_at_rep [OF assms(1) a(2)])
    show "i < length (rs @ [r])" using that by simp
    have "pos_of (rs @ [r]) i \<le> length (log_bytes (rs @ [r]))" using that by (intro pos_of_le) simp
    then show "unat (of_nat (pos_of (rs @ [r]) i) :: u64) = pos_of (rs @ [r]) i"
      using assms(8) by (intro unat_of_nat_u64) simp
  qed
  then show ?thesis using a by blast
qed

end
