(* ===== verification/LogRecovery.thy ===== *)
theory LogRecovery
  imports LogSegment
begin

text \<open>
  Recovery of a segment, \<^verbatim>\<open>src/src/LogSegment.cpp\<close> lines 217 to 414: the scan that keeps the
  records up to the first one that is incomplete or corrupt, truncates the file there and
  rebuilds the index; the quick check of a sealed segment; and the full scan, a second copy
  of the recovery loop that also counts. The loops run over \<^verbatim>\<open>uint32_t\<close> positions and are
  partial functions of the option monad; for log files below 4 GiB they are proved to return.
\<close>

section \<open>The scan\<close>

record scan =
  sc_index :: "IndexEntry list"
  sc_pos :: u32
  sc_since_idx :: u32
  sc_crc_raw :: u32
  sc_count :: u64
  sc_last_offset :: u64
  sc_max_ts :: i64
  sc_next_offset :: u64

definition scan_init :: "u64 \<Rightarrow> scan" where
  "scan_init base =
     \<lparr> sc_index = [], sc_pos = 0, sc_since_idx = 0, sc_crc_raw = INITIAL_CRC, sc_count = 0,
       sc_last_offset = base, sc_max_ts = 0, sc_next_offset = base \<rparr>"

text \<open>The part of the loop body that finds a record at the current position, lines 230 to 258:
  \<open>Some None\<close> where the loop breaks, \<open>None\<close> where decoding reads out of bounds.\<close>

definition scan_read ::
  "os \<Rightarrow> filesys \<Rightarrow> FileHandle \<Rightarrow> u32 \<Rightarrow> u32 \<Rightarrow> (bytes \<times> Record) option option" where
  "scan_read w fs h log_size current_pos =
     (if current_pos + 28 > log_size then Some None
      else case fh_read_at w fs h (unat current_pos) 28 of
        None \<Rightarrow> Some None
      | Some header \<Rightarrow>
          (let len = read_u32 header
           in if len < 24 \<or> len > MAX_RECORD_SIZE then Some None
              else
                (let total_size = 4 + len
                 in if current_pos + total_size > log_size then Some None
                    else case fh_read_at w fs h (unat current_pos) (unat total_size) of
                      None \<Rightarrow> Some None
                    | Some buf \<Rightarrow> do {
                        (st, record) \<leftarrow> record_decode buf (length buf) default_Record;
                        Some (if ok st then Some (buf, record) else None)
                      })))"

text \<open>The rest of the loop body, lines 260 to 275.\<close>

definition scan_note :: "u64 \<Rightarrow> u32 \<Rightarrow> scan \<Rightarrow> bytes \<Rightarrow> Record \<Rightarrow> scan" where
  "scan_note base interval sc buf record =
     (let rel_offset = (ucast (r_offset record - base) :: u32);
          total_size = of_nat (length buf);
          sc1 = (if sc_index sc = [] \<or> sc_since_idx sc \<ge> interval
                 then sc\<lparr> sc_index := add_entry (sc_index sc) rel_offset (sc_pos sc), sc_since_idx := 0 \<rparr>
                 else sc)
      in sc1\<lparr> sc_crc_raw := crc_update (sc_crc_raw sc1) buf,
              sc_count := sc_count sc1 + 1,
              sc_last_offset := r_offset record,
              sc_max_ts := (if sint (r_timestamp_ms record) > sint (sc_max_ts sc1)
                            then r_timestamp_ms record else sc_max_ts sc1),
              sc_since_idx := sc_since_idx sc1 + total_size,
              sc_next_offset := r_offset record + 1,
              sc_pos := sc_pos sc1 + total_size \<rparr>)"

partial_function (option) recover_loop ::
  "os \<Rightarrow> filesys \<Rightarrow> FileHandle \<Rightarrow> u64 \<Rightarrow> u32 \<Rightarrow> u32 \<Rightarrow> scan \<Rightarrow> scan option" where
  "recover_loop w fs h base interval log_size sc =
     (if sc_pos sc < log_size then do {
        found \<leftarrow> scan_read w fs h log_size (sc_pos sc);
        case found of
          None \<Rightarrow> Some sc
        | Some (buf, record) \<Rightarrow> recover_loop w fs h base interval log_size (scan_note base interval sc buf record)
      } else Some sc)"

text \<open>The state of the segment after the loop, lines 278 to 286.\<close>

definition finish_scan :: "os \<Rightarrow> filesys \<Rightarrow> LogSegment \<Rightarrow> u32 \<Rightarrow> scan \<Rightarrow> LogSegment \<times> filesys" where
  "finish_scan w fs s log_size sc =
     (let torn = sc_pos sc < log_size;
          fs1 = (if torn then snd (fh_truncate w fs (m_log_file s) (unat (sc_pos sc))) else fs);
          fs2 = snd (rewrite_file w fs1 (m_index_file s) (sc_index sc))
      in (s\<lparr> m_index := sc_index sc,
             m_log_size_bytes := (if torn then sc_pos sc else log_size),
             m_running_crc_raw := sc_crc_raw sc,
             m_record_count := sc_count sc,
             m_last_offset := sc_last_offset sc,
             m_max_timestamp_ms := sc_max_ts sc,
             m_bytes_since_last_index := sc_since_idx sc \<rparr>, fs2))"

text \<open>The status, the next offset, the segment and the file system.\<close>

definition recover_and_rebuild_index ::
  "os \<Rightarrow> filesys \<Rightarrow> LogSegment \<Rightarrow> (Status \<times> u64 \<times> LogSegment \<times> filesys) option" where
  "recover_and_rebuild_index w fs s = do {
     let log_size = ucast (fh_get_size w fs (m_log_file s));
     sc \<leftarrow> recover_loop w fs (m_log_file s) (m_base_offset s) (m_index_interval_bytes s) log_size
             (scan_init (m_base_offset s));
     let (s', fs') = finish_scan w fs s log_size sc;
     Some (Status_OK, sc_next_offset sc, s', fs')
   }"

section \<open>Verification of sealed segments\<close>

definition verify_quick :: "os \<Rightarrow> filesys \<Rightarrow> LogSegment \<Rightarrow> (Status \<times> bool) option" where
  "verify_quick w fs s =
     (if m_log_size_bytes s = 0 then Some (Status_OK, True)
      else if m_log_size_bytes s < 28 then Some (Status_OK, False)
      else if \<exists>entry \<in> set (m_index s). file_position entry \<ge> m_log_size_bytes s then Some (Status_OK, False)
      else do {
        (st_first, _) \<leftarrow> read_record_at w fs s 0 default_Record;
        if \<not> ok st_first then Some (Status_OK, False)
        else do {
          let last_rec_pos =
            (if m_last_offset s \<ge> m_base_offset s \<and> m_record_count s > 0
             then lookup_file_position s (m_last_offset s)
             else if m_index s \<noteq> [] then file_position (last (m_index s)) else 0);
          if last_rec_pos < m_log_size_bytes s then do {
            (st, _) \<leftarrow> read_record_at w fs s (ucast last_rec_pos) default_Record;
            Some (Status_OK, ok st)
          } else Some (Status_OK, True)
        }
      })"

record full_scan =
  fsc_scan :: scan
  fsc_bytes :: u64
  fsc_records :: u64
  fsc_corrupt :: u64

partial_function (option) full_loop ::
  "os \<Rightarrow> filesys \<Rightarrow> FileHandle \<Rightarrow> u64 \<Rightarrow> u32 \<Rightarrow> u32 \<Rightarrow> full_scan \<Rightarrow> full_scan option" where
  "full_loop w fs h base interval log_size f =
     (if sc_pos (fsc_scan f) < log_size then do {
        found \<leftarrow> scan_read w fs h log_size (sc_pos (fsc_scan f));
        case found of
          None \<Rightarrow> Some (f\<lparr> fsc_corrupt := fsc_corrupt f + 1 \<rparr>)
        | Some (buf, record) \<Rightarrow> full_loop w fs h base interval log_size
            \<lparr> fsc_scan = scan_note base interval (fsc_scan f) buf record,
              fsc_bytes = fsc_bytes f + of_nat (length buf),
              fsc_records = fsc_records f + 1,
              fsc_corrupt = fsc_corrupt f \<rparr>
      } else Some f)"

text \<open>The status, the three counters (starting from the values the caller passes), the segment
  and the file system.\<close>

definition verify_and_rebuild_full ::
  "os \<Rightarrow> filesys \<Rightarrow> LogSegment \<Rightarrow> u64 \<Rightarrow> u64 \<Rightarrow> u64 \<Rightarrow>
    (Status \<times> (u64 \<times> u64 \<times> u64) \<times> LogSegment \<times> filesys) option" where
  "verify_and_rebuild_full w fs s bytes records corrupt = do {
     let log_size = ucast (fh_get_size w fs (m_log_file s));
     f \<leftarrow> full_loop w fs (m_log_file s) (m_base_offset s) (m_index_interval_bytes s) log_size
            \<lparr> fsc_scan = scan_init (m_base_offset s), fsc_bytes = bytes, fsc_records = records,
              fsc_corrupt = corrupt \<rparr>;
     let (s', fs') = finish_scan w fs s log_size (fsc_scan f);
     Some (Status_OK, (fsc_bytes f, fsc_records f, fsc_corrupt f), s', fs')
   }"

section \<open>The first record of a byte sequence\<close>

text \<open>What the scan finds at a position depends on the bytes from there on only.\<close>

definition first_record :: "bytes \<Rightarrow> Record option option" where
  "first_record d =
     (let len = unat (read_u32 (take 4 d))
      in if length d < 28 \<or> len < 24 \<or> len > 1048576 \<or> length d < 4 + len then Some None
         else do {
           (st, record) \<leftarrow> record_decode (take (4 + len) d) (4 + len) default_Record;
           Some (if ok st then Some record else None)
         })"

lemma read_u32_take:
  assumes "4 \<le> length d" "4 \<le> n"
  shows "read_u32 (take n d) = read_u32 (take 4 d)"
proof -
  have "take n d = be32 (read_u32 (take 4 d)) @ drop 4 (take n d)"
  proof -
    have "take 4 (take n d) = take 4 d" using assms by simp
    then show ?thesis using assms be32_read_u32 [of "take 4 d"] append_take_drop_id [of 4 "take n d"] by simp
  qed
  then show ?thesis by (metis read_u32_be)
qed

lemma scan_read_first_record:
  assumes w: "reliable w" and d: "d = drop n (fdata fs p)" and n: "n \<le> length (fdata fs p)"
    and bound: "length (fdata fs p) < 2 ^ 32"
  shows "scan_read w fs (Handle p) (of_nat (length (fdata fs p))) (of_nat n) =
    map_option (map_option (\<lambda>r. (take (4 + unat (read_u32 (take 4 d))) d, r))) (first_record d)"
proof -
  define len where "len = read_u32 (take 4 d)"
  have ld: "length d = length (fdata fs p) - n" by (simp add: d)
  have un: "unat (of_nat n :: u32) = n" "unat (of_nat (length (fdata fs p)) :: u32) = length (fdata fs p)"
    using n bound by (simp_all add: unat_of_nat_u32)
  have rd: "fh_read_at w fs (Handle p) n k = (if k \<le> length d then Some (take k d) else None)" if "0 < k" for k
    using n that ld by (auto simp: reliable_read [OF w] d)
  have add: "of_nat (length (fdata fs p)) < (of_nat n :: u32) + k \<longleftrightarrow> length d < unat k"
    if "unat k \<le> length d" for k
  proof -
    have "n + unat k < 4294967296" using that n ld bound by simp
    then have "unat ((of_nat n :: u32) + k) = n + unat k"
      using unat_add_small_u32 [of "of_nat n" k] un(1) by simp
    then show ?thesis using that n ld un(2) by (simp add: word_less_nat_alt)
  qed
  show ?thesis
  proof (cases "28 \<le> length d")
    case False
    then show ?thesis using rd [of 28] by (auto simp: scan_read_def first_record_def Let_def un)
  next
    case True
    have hdr: "read_u32 (take 28 d) = len" using True read_u32_take [of d 28] by (simp add: len_def)
    have no28: "\<not> of_nat (length (fdata fs p)) < (of_nat n :: u32) + 28"
      using add [of 28] True by simp
    show ?thesis
    proof (cases "len < 24 \<or> MAX_RECORD_SIZE < len")
      case bad: True
      then show ?thesis using True no28 rd [of 28] hdr
        by (auto simp: scan_read_def first_record_def Let_def un len_def [symmetric] word_less_nat_alt)
    next
      case good: False
      then have l: "24 \<le> unat len" "unat len \<le> 1048576" by (auto simp: word_less_nat_alt)
      have tot: "unat (4 + len) = 4 + unat len" using l by (subst unat_add_small_u32) simp_all
      show ?thesis
      proof (cases "4 + unat len \<le> length d")
        case False
        then show ?thesis using True good no28 rd [of 28] rd [of "unat (4 + len)"] hdr tot
          by (auto simp: scan_read_def first_record_def Let_def un len_def [symmetric])
      next
        case fit: True
        have "\<not> of_nat (length (fdata fs p)) < (of_nat n :: u32) + (4 + len)"
          using add [of "4 + len"] fit tot by simp
        then show ?thesis
          using True good no28 l fit rd [of 28] rd [of "unat (4 + len)"] hdr tot
          by (auto simp: scan_read_def first_record_def Let_def un len_def [symmetric] map_option_case
              split: option.splits prod.splits bind_splits)
      qed
    qed
  qed
qed

lemma first_record_bytes:
  assumes "record_size r \<le> 1048580"
  shows "first_record (record_bytes r @ rest) = Some (Some r)"
proof -
  define len where "len = read_u32 (take 4 (record_bytes r @ rest))"
  have "len = of_nat (record_size r - 4)" by (simp add: len_def record_bytes_def)
  then have len: "unat len = record_size r - 4" using assms by (simp add: unat_of_nat_u32)
  then have tot: "4 + unat len = record_size r" by (simp add: record_size_def)
  have "take (record_size r) (record_bytes r @ rest) = record_bytes r" by simp
  moreover have "\<not> (length (record_bytes r @ rest) < 28 \<or> unat len < 24 \<or> 1048576 < unat len \<or>
      length (record_bytes r @ rest) < record_size r)"
    using len assms by (simp add: record_size_def)
  ultimately show ?thesis
    unfolding first_record_def Let_def len_def [symmetric] tot
    using record_decode_bytes [OF assms, of "[]" default_Record] by simp
qed

lemma first_record_SomeD:
  assumes "first_record d = Some (Some r)"
  shows "d = record_bytes r @ drop (record_size r) d \<and> record_size r \<le> 1048580 \<and>
    4 + unat (read_u32 (take 4 d)) = record_size r"
proof -
  define len where "len = read_u32 (take 4 d)"
  define buf where "buf = take (4 + unat len) d"
  have c: "28 \<le> length d" "24 \<le> unat len" "unat len \<le> 1048576" "4 + unat len \<le> length d"
    using assms by (auto simp: first_record_def Let_def len_def split: if_splits)
  have lb: "length buf = 4 + unat len" using c by (simp add: buf_def)
  obtain st where "record_decode buf (length buf) default_Record = Some (st, r)" "ok st"
    using assms c by (auto simp: first_record_def Let_def len_def buf_def lb split: if_splits bind_splits)
  then have b: "buf = record_bytes r @ drop (record_size r) buf" "record_size r \<le> 1048580" "record_size r \<le> length buf"
    using record_decode_okD [of buf default_Record st r] lb c by auto
  have "take 4 d = take 4 buf" using c by (simp add: buf_def)
  then have "len = read_u32 (take 4 (record_bytes r))"
    using b by (metis add_leD1 len_def length_record_bytes numeral_le_iff order_trans record_size_ge
        semiring_norm(68,69,71,72,78) take_append take_eq_Nil diff_is_0_eq append_Nil2)
  then have len: "unat len = record_size r - 4"
    using b(2) by (simp add: record_bytes_def unat_of_nat_u32)
  then have tot: "4 + unat len = record_size r" by (simp add: record_size_def)
  then have "buf = record_bytes r" using b lb by simp
  then have "d = record_bytes r @ drop (record_size r) d"
    using append_take_drop_id [of "4 + unat len" d] by (simp add: buf_def tot)
  then show ?thesis using b tot by (simp add: len_def)
qed

text \<open>A record cut anywhere is no record, and neither is one with a changed byte after its
  length field.\<close>

lemma first_record_torn:
  assumes "record_size r \<le> 1048580" "k < record_size r"
  shows "first_record (take k (record_bytes r)) = Some None"
proof (cases "k < 28")
  case False
  then have "take 4 (take k (record_bytes r)) = be32 (of_nat (record_size r - 4))"
    by (simp add: record_bytes_def)
  moreover have "unat (of_nat (record_size r - 4) :: u32) = record_size r - 4"
    using assms by (simp add: unat_of_nat_u32)
  ultimately show ?thesis using assms by (auto simp: first_record_def Let_def)
qed (use assms in \<open>simp add: first_record_def Let_def\<close>)

section \<open>What the scan computes\<close>

definition scan_all :: "u64 \<Rightarrow> u32 \<Rightarrow> Record list \<Rightarrow> scan" where
  "scan_all base interval rs = foldl (\<lambda>sc r. scan_note base interval sc (record_bytes r) r) (scan_init base) rs"

lemma scan_note_sel [simp]:
  "sc_pos (scan_note base i sc b r) = sc_pos sc + of_nat (length b)"
  "sc_crc_raw (scan_note base i sc b r) = crc_update (sc_crc_raw sc) b"
  "sc_count (scan_note base i sc b r) = sc_count sc + 1"
  "sc_last_offset (scan_note base i sc b r) = r_offset r"
  "sc_next_offset (scan_note base i sc b r) = r_offset r + 1"
  "sc_max_ts (scan_note base i sc b r) = max_ts (sc_max_ts sc) [r]"
  "sc_index (scan_note base i sc b r) = (if sc_index sc = [] \<or> sc_since_idx sc \<ge> i
     then add_entry (sc_index sc) (ucast (r_offset r - base)) (sc_pos sc) else sc_index sc)"
  by (simp_all add: scan_note_def Let_def)

lemma scan_all_sel:
  "sc_pos (scan_all base i rs) = of_nat (length (log_bytes rs))"
  "sc_crc_raw (scan_all base i rs) = crc_update INITIAL_CRC (log_bytes rs)"
  "sc_count (scan_all base i rs) = of_nat (length rs)"
  "sc_last_offset (scan_all base i rs) = (if rs = [] then base else r_offset (last rs))"
  "sc_next_offset (scan_all base i rs) = (if rs = [] then base else r_offset (last rs) + 1)"
  "sc_max_ts (scan_all base i rs) = max_ts 0 rs"
  by (induction rs rule: rev_induct)
    (simp_all add: scan_all_def scan_init_def crc_update_append max_ts_append)

lemma index_ok_scan_all: "index_ok base rs (sc_index (scan_all base i rs))"
proof (induction rs rule: rev_induct)
  case Nil
  then show ?case by (simp add: scan_all_def scan_init_def index_ok_def)
next
  case (snoc r rs)
  let ?sc = "scan_all base i rs"
  have e: "entry_at base (rs @ [r]) (length rs) =
      \<lparr> relative_offset = ucast (r_offset r - base), file_position = sc_pos ?sc \<rparr>"
    by (simp add: entry_at_def pos_of_append scan_all_sel)
  have "scan_all base i (rs @ [r]) = scan_note base i ?sc (record_bytes r) r"
    by (simp add: scan_all_def)
  moreover have "sc_index ?sc \<noteq> [] \<Longrightarrow> rs \<noteq> []"
    by (auto simp: scan_all_def scan_init_def)
  ultimately show ?case
    using index_ok_append [OF snoc, of r] by (auto simp: add_entry_def e)
qed

text \<open>
  A log file is a sequence of records followed by bytes that do not start with one; the scan
  reads it record by record. \<open>at_tail\<close> is where the scan stops or, when \<open>first_record\<close> is
  \<open>None\<close>, where decoding leaves the buffer.
\<close>

definition records_ok :: "Record list \<Rightarrow> bool" where
  "records_ok rs \<longleftrightarrow> (\<forall>r \<in> set rs. record_size r \<le> 1048580)"

definition at_tail :: "bytes \<Rightarrow> bool" where
  "at_tail t \<longleftrightarrow> (\<forall>r. first_record t \<noteq> Some (Some r))"

lemma records_ok_simps [simp]:
  "records_ok []" "records_ok (r # rs) \<longleftrightarrow> record_size r \<le> 1048580 \<and> records_ok rs"
  "records_ok (rs @ ts) \<longleftrightarrow> records_ok rs \<and> records_ok ts"
  by (auto simp: records_ok_def)

lemma scan_read_at:
  assumes "reliable w" "fdata fs p = log_bytes rs @ d" "length (fdata fs p) < 2 ^ 32"
    and N: "N = of_nat (length (fdata fs p))" and pos: "pos = of_nat (length (log_bytes rs))"
  shows "at_tail d \<Longrightarrow> scan_read w fs (Handle p) N pos = map_option (\<lambda>_. None) (first_record d)"
    and "d = record_bytes r @ rest \<Longrightarrow> record_size r \<le> 1048580 \<Longrightarrow>
      scan_read w fs (Handle p) N pos = Some (Some (record_bytes r, r))"
proof -
  have sr: "scan_read w fs (Handle p) N pos =
      map_option (map_option (\<lambda>r. (take (4 + unat (read_u32 (take 4 d))) d, r))) (first_record d)"
    unfolding N pos by (rule scan_read_first_record) (use assms in simp_all)
  show "at_tail d \<Longrightarrow> scan_read w fs (Handle p) N pos = map_option (\<lambda>_. None) (first_record d)"
    unfolding sr at_tail_def by (cases "first_record d") (auto simp: option.map_id map_option_case split: option.splits)
  assume d: "d = record_bytes r @ rest" and size: "record_size r \<le> 1048580"
  have fr: "first_record d = Some (Some r)" unfolding d by (rule first_record_bytes [OF size])
  have "4 + unat (read_u32 (take 4 d)) = record_size r" using first_record_SomeD [OF fr] by blast
  moreover have "take (record_size r) d = record_bytes r" by (simp add: d)
  ultimately show "scan_read w fs (Handle p) N pos = Some (Some (record_bytes r, r))"
    unfolding sr fr by simp
qed

lemma scan_pos_less:
  assumes "fdata fs p = log_bytes rs @ d" "length (fdata fs p) < 2 ^ 32"
    and "N = of_nat (length (fdata fs p))" "pos = of_nat (length (log_bytes rs))"
  shows "pos < (N :: u32) \<longleftrightarrow> d \<noteq> []"
  using assms by (simp add: word_less_nat_alt unat_of_nat_u32 del: of_nat_add)

lemma first_record_Nil [simp]: "first_record [] = Some None"
  by (simp add: first_record_def Let_def)

lemma recover_loop_from:
  assumes w: "reliable w" and bound: "length (fdata fs p) < 2 ^ 32" and N: "N = of_nat (length (fdata fs p))"
    and tail: "at_tail tail"
  shows "fdata fs p = log_bytes done_rs @ log_bytes rs @ tail \<Longrightarrow> records_ok rs \<Longrightarrow>
    sc_pos sc = of_nat (length (log_bytes done_rs)) \<Longrightarrow>
    recover_loop w fs (Handle p) base i N sc =
      map_option (\<lambda>_. foldl (\<lambda>sc r. scan_note base i sc (record_bytes r) r) sc rs) (first_record tail)"
proof (induction rs arbitrary: done_rs sc)
  case Nil
  then have d: "fdata fs p = log_bytes done_rs @ tail" by simp
  show ?case
    using scan_pos_less [OF d bound N Nil.prems(3)] scan_read_at(1) [OF w d bound N Nil.prems(3) tail]
    by (cases "first_record tail") (auto simp: recover_loop.simps)
next
  case (Cons r rs)
  have d: "fdata fs p = log_bytes done_rs @ record_bytes r @ (log_bytes rs @ tail)"
    and size: "record_size r \<le> 1048580"
    using Cons.prems by simp_all
  have "recover_loop w fs (Handle p) base i N sc =
      recover_loop w fs (Handle p) base i N (scan_note base i sc (record_bytes r) r)"
    using scan_pos_less [OF d bound N Cons.prems(3)] scan_read_at(2) [OF w d bound N Cons.prems(3) refl size]
    by (simp add: recover_loop.simps [of _ _ _ _ _ _ sc])
  then show ?case
    using Cons.IH [of "done_rs @ [r]" "scan_note base i sc (record_bytes r) r"] Cons.prems by simp
qed

lemma full_loop_from:
  assumes w: "reliable w" and bound: "length (fdata fs p) < 2 ^ 32" and N: "N = of_nat (length (fdata fs p))"
    and tail: "at_tail tail"
  shows "fdata fs p = log_bytes done_rs @ log_bytes rs @ tail \<Longrightarrow> records_ok rs \<Longrightarrow>
    sc_pos (fsc_scan f) = of_nat (length (log_bytes done_rs)) \<Longrightarrow>
    full_loop w fs (Handle p) base i N f =
      map_option (\<lambda>_. \<lparr> fsc_scan = foldl (\<lambda>sc r. scan_note base i sc (record_bytes r) r) (fsc_scan f) rs,
         fsc_bytes = fsc_bytes f + of_nat (length (log_bytes rs)),
         fsc_records = fsc_records f + of_nat (length rs),
         fsc_corrupt = fsc_corrupt f + (if tail = [] then 0 else 1) \<rparr>) (first_record tail)"
proof (induction rs arbitrary: done_rs f)
  case Nil
  then have d: "fdata fs p = log_bytes done_rs @ tail" by simp
  show ?case
    using scan_pos_less [OF d bound N Nil.prems(3)] scan_read_at(1) [OF w d bound N Nil.prems(3) tail]
    by (cases "first_record tail") (auto simp: full_loop.simps)
next
  case (Cons r rs)
  let ?f = "\<lparr> fsc_scan = scan_note base i (fsc_scan f) (record_bytes r) r,
     fsc_bytes = fsc_bytes f + of_nat (length (record_bytes r)), fsc_records = fsc_records f + 1,
     fsc_corrupt = fsc_corrupt f \<rparr>"
  have d: "fdata fs p = log_bytes done_rs @ record_bytes r @ (log_bytes rs @ tail)"
    and size: "record_size r \<le> 1048580"
    using Cons.prems by simp_all
  have "full_loop w fs (Handle p) base i N f = full_loop w fs (Handle p) base i N ?f"
    using scan_pos_less [OF d bound N Cons.prems(3)] scan_read_at(2) [OF w d bound N Cons.prems(3) refl size]
    by (simp add: full_loop.simps [of _ _ _ _ _ _ f])
  then show ?case
    using Cons.IH [of "done_rs @ [r]" ?f] Cons.prems by (simp add: add_ac)
qed

lemma first_record_corrupt:
  assumes size: "record_size r \<le> 1048580" and i: "4 \<le> i" "i < record_size r" "b \<noteq> record_bytes r ! i"
  shows "first_record ((record_bytes r)[i := b] @ rest) = Some None"
proof -
  let ?c = "(record_bytes r)[i := b]"
  define len where "len = read_u32 (take 4 (?c @ rest))"
  have "take 4 (?c @ rest) = take 4 (record_bytes r)"
    using i by (simp add: take_update_cancel record_size_def)
  then have "len = of_nat (record_size r - 4)" by (simp add: len_def record_bytes_def)
  then have len: "unat len = record_size r - 4" using size by (simp add: unat_of_nat_u32)
  then have tot: "4 + unat len = record_size r" by (simp add: record_size_def)
  have "take (record_size r) (?c @ rest) = ?c" by simp
  moreover obtain m where "record_decode ?c (record_size r) default_Record = Some (Status Corrupt m, default_Record)"
    using record_decode_corrupt [OF size i] by blast
  ultimately show ?thesis
    unfolding first_record_def Let_def len_def [symmetric] tot by simp
qed

lemma log_split: "\<exists>rs tail. d = log_bytes rs @ tail \<and> records_ok rs \<and> at_tail tail"
proof (induction "length d" arbitrary: d rule: less_induct)
  case less
  show ?case
  proof (cases "at_tail d")
    case True
    then show ?thesis by (intro exI [of _ "[]"] exI [of _ d]) simp
  next
    case False
    then obtain r where r: "first_record d = Some (Some r)" by (auto simp: at_tail_def)
    then have d: "d = record_bytes r @ drop (record_size r) d" "record_size r \<le> 1048580"
      using first_record_SomeD by blast+
    then have "d \<noteq> []" by (metis append_is_Nil_conv record_bytes_nonempty)
    then have "length (drop (record_size r) d) < length d" by (simp add: record_size_def)
    then obtain rs tail where "drop (record_size r) d = log_bytes rs @ tail" "records_ok rs" "at_tail tail"
      using less by blast
    then show ?thesis using d by (intro exI [of _ "r # rs"] exI [of _ tail]) simp
  qed
qed

section \<open>Recovery\<close>

lemma finish_scan_spec:
  assumes w: "reliable w" and op: "seg_opened fs s" and d: "fdata fs (log_path s) = log_bytes rs @ tail"
    and bound: "length (fdata fs (log_path s)) < 2 ^ 32" and N: "N = of_nat (length (fdata fs (log_path s)))"
    and fin: "finish_scan w fs s N (scan_all (m_base_offset s) (m_index_interval_bytes s) rs) = (s', fs')"
  shows "fdata fs' (log_path s) = log_bytes rs" "fdata fs' (index_path s) = concat (map entry_bytes (m_index s'))"
    "m_index s' = sc_index (scan_all (m_base_offset s) (m_index_interval_bytes s) rs)"
    "m_log_size_bytes s' = of_nat (length (log_bytes rs))"
    "seg_meta s' rs" "same_seg s s'" "m_is_sealed s' = m_is_sealed s" "seg_opened fs' s'"
    "same_outside {log_path s, index_path s} fs fs'"
proof -
  define sc where "sc = scan_all (m_base_offset s) (m_index_interval_bytes s) rs"
  define fs1 where "fs1 = (if tail \<noteq> [] then snd (fh_truncate w fs (Handle (log_path s)) (length (log_bytes rs))) else fs)"
  have h: "m_log_file s = Handle (log_path s)" "m_index_file s = Handle (index_path s)"
    "fexists fs (log_path s)" "fexists fs (index_path s)"
    using op by (simp_all add: seg_opened_def)
  have torn: "sc_pos sc < N \<longleftrightarrow> tail \<noteq> []"
    by (rule scan_pos_less [OF d bound N]) (simp add: sc_def scan_all_sel)
  have pos: "unat (sc_pos sc) = length (log_bytes rs)"
    using bound d by (simp add: sc_def scan_all_sel unat_of_nat_u32)
  have fs1: "fdata fs1 (log_path s) = log_bytes rs" "fexists fs1 (log_path s)" "fexists fs1 (index_path s)"
      "same_outside {log_path s, index_path s} fs fs1"
    using d h w by (simp_all add: fs1_def reliable_truncate)
  have fs': "fs' = snd (rewrite_file w fs1 (Handle (index_path s)) (sc_index sc))"
    and s': "s' = s\<lparr> m_index := sc_index sc, m_log_size_bytes := (if tail \<noteq> [] then sc_pos sc else N),
       m_running_crc_raw := sc_crc_raw sc, m_record_count := sc_count sc, m_last_offset := sc_last_offset sc,
       m_max_timestamp_ms := sc_max_ts sc, m_bytes_since_last_index := sc_since_idx sc \<rparr>"
    using fin h(1) pos by (auto simp: finish_scan_def Let_def sc_def [symmetric] torn h(2) fs1_def)
  note rw = rewrite_file_reliable [OF w, where fs = fs1 and p = "index_path s" and es = "sc_index sc"]
  show "fdata fs' (log_path s) = log_bytes rs" using rw(3) fs1 by (simp add: fs')
  show "fdata fs' (index_path s) = concat (map entry_bytes (m_index s'))" using rw(2) by (simp add: fs' s')
  show "m_index s' = sc_index (scan_all (m_base_offset s) (m_index_interval_bytes s) rs)" by (simp add: s' sc_def)
  show "m_log_size_bytes s' = of_nat (length (log_bytes rs))" using d by (simp add: s' N sc_def scan_all_sel)
  show "seg_meta s' rs" by (simp add: seg_meta_def s' sc_def scan_all_sel)
  show "same_seg s s'" "m_is_sealed s' = m_is_sealed s" by (simp_all add: same_seg_def s')
  show "seg_opened fs' s'"
    using rw(4) fs1 h by (simp add: seg_opened_def fs' s' seg_paths)
  have "same_outside {log_path s, index_path s} fs1 fs'"
    using rw(3,4) fs1 unfolding fs' same_outside_def by (auto simp: rewrite_file_def Let_def reliable_truncate w reliable_write)
  then show "same_outside {log_path s, index_path s} fs fs'"
    using fs1 by (blast intro: same_outside_trans)
qed

lemma opened_log_size:
  assumes "reliable w" "seg_opened fs s" "length (fdata fs (log_path s)) < 2 ^ 32"
  shows "(ucast (fh_get_size w fs (m_log_file s)) :: u32) = of_nat (length (fdata fs (log_path s)))"
proof -
  have "unat (of_nat (length (fdata fs (log_path s))) :: u64) = length (fdata fs (log_path s))"
    using assms(3) by (simp add: unat_of_nat_u64)
  then show ?thesis
    using assms by (intro word_unat_eq_iff [THEN iffD2])
      (simp add: seg_opened_def reliable_size unsigned_ucast_eq unat_of_nat_u32 take_bit_nat_eq_self)
qed

lemma scan_loops:
  assumes w: "reliable w" and op: "seg_opened fs s" and d: "fdata fs (log_path s) = log_bytes rs @ tail"
    and bound: "length (fdata fs (log_path s)) < 2 ^ 32" and rs: "records_ok rs" and tail: "at_tail tail"
    and N: "N = of_nat (length (fdata fs (log_path s)))"
  defines "base \<equiv> m_base_offset s" and "i \<equiv> m_index_interval_bytes s"
  shows "recover_loop w fs (m_log_file s) base i N (scan_init base) =
      map_option (\<lambda>_. scan_all base i rs) (first_record tail)"
    and "full_loop w fs (m_log_file s) base i N
        \<lparr> fsc_scan = scan_init base, fsc_bytes = b, fsc_records = n, fsc_corrupt = c \<rparr> =
      map_option (\<lambda>_. \<lparr> fsc_scan = scan_all base i rs, fsc_bytes = b + of_nat (length (log_bytes rs)),
        fsc_records = n + of_nat (length rs), fsc_corrupt = c + (if tail = [] then 0 else 1) \<rparr>) (first_record tail)"
proof -
  have h: "m_log_file s = Handle (log_path s)" using op by (simp add: seg_opened_def)
  have d0: "fdata fs (log_path s) = log_bytes [] @ log_bytes rs @ tail" using d by simp
  have pos: "sc_pos (scan_init base) = of_nat (length (log_bytes []))" by (simp add: scan_init_def)
  show "recover_loop w fs (m_log_file s) base i N (scan_init base) =
      map_option (\<lambda>_. scan_all base i rs) (first_record tail)"
    unfolding h scan_all_def by (rule recover_loop_from [OF w bound N tail d0 rs pos])
  show "full_loop w fs (m_log_file s) base i N
        \<lparr> fsc_scan = scan_init base, fsc_bytes = b, fsc_records = n, fsc_corrupt = c \<rparr> =
      map_option (\<lambda>_. \<lparr> fsc_scan = scan_all base i rs, fsc_bytes = b + of_nat (length (log_bytes rs)),
        fsc_records = n + of_nat (length rs), fsc_corrupt = c + (if tail = [] then 0 else 1) \<rparr>) (first_record tail)"
    unfolding h scan_all_def by (subst full_loop_from [OF w bound N tail d0 rs]) (simp_all add: pos)
qed

lemma recover_spec:
  assumes w: "reliable w" and op: "seg_opened fs s" and d: "fdata fs (log_path s) = log_bytes rs @ tail"
    and bound: "length (fdata fs (log_path s)) < 2 ^ 32" and rs: "records_ok rs" and tail: "first_record tail = Some None"
  shows "\<exists>s' fs'. recover_and_rebuild_index w fs s =
      Some (Status_OK, if rs = [] then m_base_offset s else r_offset (last rs) + 1, s', fs') \<and>
    fdata fs' (log_path s) = log_bytes rs \<and> m_log_size_bytes s' = of_nat (length (log_bytes rs)) \<and>
    fdata fs' (index_path s) = concat (map entry_bytes (m_index s')) \<and> index_ok (m_base_offset s) rs (m_index s') \<and>
    seg_meta s' rs \<and> same_seg s s' \<and> m_is_sealed s' = m_is_sealed s \<and> seg_opened fs' s' \<and>
    same_outside {log_path s, index_path s} fs fs'"
proof -
  define N :: u32 where "N = of_nat (length (fdata fs (log_path s)))"
  have t: "at_tail tail" using tail by (simp add: at_tail_def)
  obtain s' fs' where fin: "finish_scan w fs s N (scan_all (m_base_offset s) (m_index_interval_bytes s) rs) = (s', fs')"
    by (cases "finish_scan w fs s N (scan_all (m_base_offset s) (m_index_interval_bytes s) rs)") auto
  have "recover_and_rebuild_index w fs s =
      Some (Status_OK, if rs = [] then m_base_offset s else r_offset (last rs) + 1, s', fs')"
    unfolding recover_and_rebuild_index_def opened_log_size [OF w op bound] Let_def
    using scan_loops(1) [OF w op d bound rs t N_def] fin tail by (simp add: N_def scan_all_sel)
  then show ?thesis
    using finish_scan_spec [OF w op d bound N_def fin]
      index_ok_scan_all [of "m_base_offset s" rs "m_index_interval_bytes s"] by simp
qed

lemma recover_rep:
  assumes w: "reliable w" and op: "seg_opened fs s" and d: "fdata fs (log_path s) = log_bytes rs @ tail"
    and bound: "length (fdata fs (log_path s)) < 2 ^ 32" and rs: "records_ok rs" and tail: "first_record tail = Some None"
    and off: "offsets_from (m_base_offset s) rs"
  shows "\<exists>s' fs'. recover_and_rebuild_index w fs s = Some (Status_OK, m_base_offset s + of_nat (length rs), s', fs') \<and>
    seg_rep fs' s' rs \<and> seg_meta s' rs \<and> same_seg s s' \<and> m_is_sealed s' = m_is_sealed s \<and>
    same_outside {log_path s, index_path s} fs fs'"
proof -
  have "(if rs = [] then m_base_offset s else r_offset (last rs) + 1) = m_base_offset s + of_nat (length rs)"
    using off by (auto simp: offsets_from_def last_conv_nth of_nat_diff Suc_le_eq)
  moreover have "length (log_bytes rs) < 2 ^ 32" using d bound by simp
  moreover obtain s' fs' where r: "recover_and_rebuild_index w fs s =
        Some (Status_OK, if rs = [] then m_base_offset s else r_offset (last rs) + 1, s', fs')"
      "fdata fs' (log_path s) = log_bytes rs" "m_log_size_bytes s' = of_nat (length (log_bytes rs))"
      "fdata fs' (index_path s) = concat (map entry_bytes (m_index s'))" "index_ok (m_base_offset s) rs (m_index s')"
      "seg_meta s' rs" "same_seg s s'" "m_is_sealed s' = m_is_sealed s" "seg_opened fs' s'"
      "same_outside {log_path s, index_path s} fs fs'"
    using recover_spec [OF w op d bound rs tail] by blast
  moreover have "m_base_offset s' = m_base_offset s" "log_path s' = log_path s" "index_path s' = index_path s"
    using r(7) same_seg_paths [OF r(7)] by (simp_all add: same_seg_def)
  ultimately show ?thesis
    using off rs by (simp add: seg_rep_def seg_opened_def records_ok_def)
qed

lemma recover_again:
  assumes w: "reliable w" and op: "seg_opened fs s" and d: "fdata fs (log_path s) = log_bytes rs @ tail"
    and bound: "length (fdata fs (log_path s)) < 2 ^ 32" and rs: "records_ok rs" and tail: "first_record tail = Some None"
    and rec: "recover_and_rebuild_index w fs s = Some (st, nxt, s', fs')"
  shows "\<exists>fs''. recover_and_rebuild_index w fs' s' = Some (st, nxt, s', fs'') \<and>
    fdata fs'' (log_path s) = fdata fs' (log_path s) \<and> fdata fs'' (index_path s) = fdata fs' (index_path s)"
proof -
  define N :: u32 where "N = of_nat (length (fdata fs (log_path s)))"
  define M :: u32 where "M = of_nat (length (log_bytes rs))"
  define sc where "sc = scan_all (m_base_offset s) (m_index_interval_bytes s) rs"
  have t: "at_tail tail" "at_tail []" using tail by (simp_all add: at_tail_def)
  have fin: "finish_scan w fs s N sc = (s', fs')" and eqs: "st = Status_OK" "nxt = sc_next_offset sc"
    using rec scan_loops(1) [OF w op d bound rs t(1) N_def] tail
    unfolding recover_and_rebuild_index_def opened_log_size [OF w op bound] Let_def N_def [symmetric] sc_def
    by (auto split: prod.splits)
  note f = finish_scan_spec [OF w op d bound N_def fin [unfolded sc_def], folded sc_def]
  have same: "m_base_offset s' = m_base_offset s" "m_index_interval_bytes s' = m_index_interval_bytes s"
      "log_path s' = log_path s" "index_path s' = index_path s"
    using f(6) same_seg_paths [OF f(6)] by (simp_all add: same_seg_def)
  have d': "fdata fs' (log_path s') = log_bytes rs @ []" and bound': "length (fdata fs' (log_path s')) < 2 ^ 32"
    and M: "M = of_nat (length (fdata fs' (log_path s')))"
    using f(1) same d bound by (simp_all add: M_def)
  obtain s'' fs'' where fin': "finish_scan w fs' s' M sc = (s'', fs'')"
    by (cases "finish_scan w fs' s' M sc") auto
  note f' = finish_scan_spec [OF w f(8) d' bound' M, unfolded same, folded sc_def, OF fin']
  have "s'' = s'"
    using fin fin' f(4) by (auto simp: finish_scan_def Let_def sc_def scan_all_sel M_def)
  moreover have "recover_and_rebuild_index w fs' s' = Some (Status_OK, sc_next_offset sc, s'', fs'')"
    using scan_loops(1) [OF w f(8) d' bound' rs t(2) M] fin'
    unfolding recover_and_rebuild_index_def opened_log_size [OF w f(8) bound'] Let_def M [symmetric]
    by (simp add: same sc_def)
  ultimately show ?thesis using eqs f(1,2) f'(1,2) by auto
qed

section \<open>Properties of recovery\<close>

text \<open>
  Recovery of a log whose last write was torn: when the file holds the records \<open>rs\<close>
  followed by any proper prefix of one more record, \<^verbatim>\<open>recover_and_rebuild_index\<close> returns, the
  segment then holds exactly \<open>rs\<close> with a correct index, counters and running CRC, and the
  next offset is the one after the last complete record.
\<close>

lemma recover_drops_torn_tail:
  assumes "reliable w" "seg_opened fs s" "fdata fs (log_path s) = log_bytes rs @ take k (record_bytes r)"
    and "length (fdata fs (log_path s)) < 2 ^ 32" "records_ok rs" "offsets_from (m_base_offset s) rs"
    and "record_size r \<le> 1048580" "k < record_size r"
  shows "\<exists>s' fs'. recover_and_rebuild_index w fs s =
      Some (Status_OK, m_base_offset s + of_nat (length rs), s', fs') \<and> seg_rep fs' s' rs \<and> seg_meta s' rs"
  using recover_rep [OF assms(1-5) first_record_torn [OF assms(7,8)] assms(6)] by blast

text \<open>
  C17. Recovery of a log with a damaged record: one changed byte after the length field of a
  record makes recovery keep exactly the records before it, whatever follows it.
\<close>

theorem recover_stops_at_corruption:
  assumes "reliable w" "seg_opened fs s"
    and "fdata fs (log_path s) = log_bytes rs @ (record_bytes r)[i := b] @ rest"
    and "length (fdata fs (log_path s)) < 2 ^ 32" "records_ok rs" "offsets_from (m_base_offset s) rs"
    and "record_size r \<le> 1048580" "4 \<le> i" "i < record_size r" "b \<noteq> record_bytes r ! i"
  shows "\<exists>s' fs'. recover_and_rebuild_index w fs s =
      Some (Status_OK, m_base_offset s + of_nat (length rs), s', fs') \<and>
    seg_rep fs' s' rs \<and> seg_meta s' rs \<and> fdata fs' (log_path s) = log_bytes rs"
proof -
  obtain s' fs' where r: "recover_and_rebuild_index w fs s =
      Some (Status_OK, m_base_offset s + of_nat (length rs), s', fs')" "seg_rep fs' s' rs" "seg_meta s' rs" "same_seg s s'"
    using recover_rep [OF assms(1-5) first_record_corrupt [OF assms(7-10)] assms(6)] by blast
  moreover have "fdata fs' (log_path s) = log_bytes rs"
    using r(2) same_seg_paths [OF r(4)] by (simp add: seg_rep_def)
  ultimately show ?thesis by blast
qed

lemma sample_record_byte_30: "record_bytes sample_record ! 30 = 3"
  by (simp add: record_bytes_def record_payload_def nth_append length_be sample_record_def)

theorem recover_stops_at_corruption_witness:
  "\<exists>s' fs'. recover_and_rebuild_index ideal_os
      (sample_fs (log_bytes [sample_record] @ (record_bytes sample_record)[30 := 4] @ record_bytes sample_record)) sample_seg
      = Some (Status_OK, 1, s', fs') \<and> seg_rep fs' s' [sample_record] \<and> seg_meta s' [sample_record] \<and>
        fdata fs' (log_path sample_seg) = log_bytes [sample_record]"
proof -
  have "\<exists>s' fs'. recover_and_rebuild_index ideal_os
      (sample_fs (log_bytes [sample_record] @ (record_bytes sample_record)[30 := 4] @ record_bytes sample_record)) sample_seg
      = Some (Status_OK, m_base_offset sample_seg + of_nat (length [sample_record]), s', fs') \<and>
      seg_rep fs' s' [sample_record] \<and> seg_meta s' [sample_record] \<and>
      fdata fs' (log_path sample_seg) = log_bytes [sample_record]"
    by (rule recover_stops_at_corruption [where r = sample_record and i = 30 and b = 4])
      (simp_all add: sample_record_byte_30)
  then show ?thesis by simp
qed

text \<open>
  C18. Recovery is total and idempotent on arbitrary log files below 4 GiB: the bytes split into
  records and a rest that does not start with one; unless decoding that rest reads out of
  bounds, recovery returns, leaves exactly the records in the log file, and a second recovery
  returns the same next offset and the same segment and changes neither file.
\<close>

theorem recover_total_idempotent:
  assumes "reliable w" "seg_opened fs s" "length (fdata fs (log_path s)) < 2 ^ 32"
  shows "\<exists>rs tail. fdata fs (log_path s) = log_bytes rs @ tail \<and> (\<forall>r. first_record tail \<noteq> Some (Some r)) \<and>
    (first_record tail = Some None \<longrightarrow>
      (\<exists>nxt s' fs' fs''. recover_and_rebuild_index w fs s = Some (Status_OK, nxt, s', fs') \<and>
         fdata fs' (log_path s) = log_bytes rs \<and>
         recover_and_rebuild_index w fs' s' = Some (Status_OK, nxt, s', fs'') \<and>
         fdata fs'' (log_path s) = log_bytes rs \<and> fdata fs'' (index_path s) = fdata fs' (index_path s)))"
proof -
  obtain rs tail where s: "fdata fs (log_path s) = log_bytes rs @ tail" "records_ok rs" "at_tail tail"
    using log_split by blast
  show ?thesis
  proof (intro exI [of _ rs] exI [of _ tail] conjI impI)
    assume t: "first_record tail = Some None"
    obtain nxt s' fs' where r: "recover_and_rebuild_index w fs s = Some (Status_OK, nxt, s', fs')"
        "fdata fs' (log_path s) = log_bytes rs"
      using recover_spec [OF assms(1,2) s(1) assms(3) s(2) t] by blast
    then show "\<exists>nxt s' fs' fs''. recover_and_rebuild_index w fs s = Some (Status_OK, nxt, s', fs') \<and>
         fdata fs' (log_path s) = log_bytes rs \<and>
         recover_and_rebuild_index w fs' s' = Some (Status_OK, nxt, s', fs'') \<and>
         fdata fs'' (log_path s) = log_bytes rs \<and> fdata fs'' (index_path s) = fdata fs' (index_path s)"
      using recover_again [OF assms(1,2) s(1) assms(3) s(2) t r(1)] by auto
  qed (use s in \<open>auto simp: at_tail_def\<close>)
qed

theorem recover_total_idempotent_witness:
  "\<exists>rs tail. [1, 2, 3] = log_bytes rs @ tail \<and> (\<forall>r. first_record tail \<noteq> Some (Some r)) \<and>
    (first_record tail = Some None \<longrightarrow>
      (\<exists>nxt s' fs' fs''. recover_and_rebuild_index ideal_os (sample_fs [1, 2, 3]) sample_seg = Some (Status_OK, nxt, s', fs') \<and>
         fdata fs' (log_path sample_seg) = log_bytes rs \<and>
         recover_and_rebuild_index ideal_os fs' s' = Some (Status_OK, nxt, s', fs'') \<and>
         fdata fs'' (log_path sample_seg) = log_bytes rs \<and>
         fdata fs'' (index_path sample_seg) = fdata fs' (index_path sample_seg)))"
  using recover_total_idempotent [of ideal_os "sample_fs [1, 2, 3]" sample_seg] by simp

lemma verify_full_recover:
  assumes "reliable w" "seg_opened fs s" "length (fdata fs (log_path s)) < 2 ^ 32"
  shows "verify_and_rebuild_full w fs s b n c =
    map_option (\<lambda>(st, nxt, s', fs').
      (st, (b + ucast (m_log_size_bytes s'), n + m_record_count s',
            c + (if unat (m_log_size_bytes s') = length (fdata fs (log_path s)) then 0 else 1)), s', fs'))
      (recover_and_rebuild_index w fs s)"
proof -
  define N :: u32 where "N = of_nat (length (fdata fs (log_path s)))"
  obtain rs tail where d: "fdata fs (log_path s) = log_bytes rs @ tail" and ok: "records_ok rs" and t: "at_tail tail"
    using log_split by blast
  let ?sc = "scan_all (m_base_offset s) (m_index_interval_bytes s) rs"
  obtain s' fs' where fin: "finish_scan w fs s N ?sc = (s', fs')"
    by (cases "finish_scan w fs s N ?sc") auto
  note f = finish_scan_spec [OF assms(1,2) d assms(3) N_def fin]
  note loops = scan_loops [OF assms(1,2) d assms(3) ok t N_def]
  have l: "length (log_bytes rs) < 4294967296" using d assms(3) by simp
  then have sz: "unat (m_log_size_bytes s') = length (log_bytes rs)"
    using f(4) by (simp add: unat_of_nat_u32)
  have "(ucast (m_log_size_bytes s') :: u64) = of_nat (length (log_bytes rs))"
    using l sz by (intro word_unat_eq_iff [THEN iffD2]) (simp add: unsigned_ucast_eq unat_of_nat_u64 take_bit_nat_eq_self)
  moreover have "m_record_count s' = of_nat (length rs)" using f(5) by (simp add: seg_meta_def)
  ultimately show ?thesis
    unfolding verify_and_rebuild_full_def recover_and_rebuild_index_def opened_log_size [OF assms] Let_def
      N_def [symmetric] loops
    using fin sz d by (cases "first_record tail") simp_all
qed

text \<open>
  The full scan of a sealed segment is the recovery scan with counters: on every log file
  below 4 GiB it returns exactly when recovery does, with the same segment and files, and adds
  to the caller's counters the bytes and records kept and one corruption when the file was cut.
\<close>

lemma full_scan_is_recovery:
  assumes "reliable w" "seg_opened fs s" "length (fdata fs (log_path s)) < 2 ^ 32"
  shows "verify_and_rebuild_full w fs s b n c =
    map_option (\<lambda>(st, nxt, s', fs').
      (st, (b + ucast (m_log_size_bytes s'), n + m_record_count s',
            c + (if unat (m_log_size_bytes s') = length (fdata fs (log_path s)) then 0 else 1)), s', fs'))
      (recover_and_rebuild_index w fs s)"
  by (rule verify_full_recover [OF assms])

section \<open>Short writes\<close>







end
