(* ===== verification/Partition.thy ===== *)
theory Partition
  imports LogRecovery
begin

text \<open>
  A partition, \<^verbatim>\<open>src/src/Partition.cpp\<close>: the segments in offset order, of which the last one
  is active. Opening with recovery, rolling, appending, reading and deletion by retention
  follow the code; each holds the partition's mutex from its first to its last access, so an
  operation is one step on the state. The clock is an argument. \<open>part_rep\<close> relates a
  partition and its files to the records of each segment, and through their concatenation to
  the abstract log.
\<close>

section \<open>State\<close>

record ReadResult =
  rr_records :: "Record list"
  rr_status :: Status

record DeletionCandidate =
  dc_base_offset :: u64
  dc_records :: u64
  dc_bytes :: u64
  dc_log_path :: path
  dc_index_path :: path
  dc_sealed_path :: path

record Partition =
  p_id :: u32
  p_dir :: path
  p_config :: StorageConfig
  p_next_offset :: u64
  p_segments :: "LogSegment list"
  p_is_degraded :: bool

definition make_Partition :: "u32 \<Rightarrow> path \<Rightarrow> StorageConfig \<Rightarrow> Partition" where
  "make_Partition pid dir config =
     \<lparr> p_id = pid, p_dir = dir, p_config = config, p_next_offset = 0, p_segments = [], p_is_degraded = False \<rparr>"

section \<open>Opening\<close>

text \<open>\<^verbatim>\<open>path::stem\<close> and \<^verbatim>\<open>path::extension\<close> of a file name: split at the last dot, unless the
  name starts with its only dot.\<close>

definition split_ext :: "string \<Rightarrow> string \<times> string" where
  "split_ext name =
     (let n = length (takeWhile (\<lambda>c. c \<noteq> CHR ''.'') (rev name))
      in if name = ''..'' \<or> length name \<le> Suc n then (name, '''')
         else (take (length name - Suc n) name, drop (length name - Suc n) name))"

text \<open>\<^verbatim>\<open>std::stoull\<close>: blanks, a sign, then the longest run of digits; it throws when there is no
  digit or the value does not fit.\<close>

definition is_blank :: "char \<Rightarrow> bool" where
  "is_blank c \<longleftrightarrow> (of_char c :: nat) = 32 \<or> (9 \<le> (of_char c :: nat) \<and> (of_char c :: nat) \<le> 13)"

definition stoull :: "string \<Rightarrow> u64 option" where
  "stoull str =
     (let s1 = dropWhile is_blank str;
          neg = (s1 \<noteq> [] \<and> hd s1 = CHR ''-'');
          s2 = (if s1 \<noteq> [] \<and> (hd s1 = CHR ''-'' \<or> hd s1 = CHR ''+'') then tl s1 else s1);
          ds = takeWhile is_digit s2;
          v = digits_val 0 ds
      in if ds = [] \<or> v \<ge> 2 ^ 64 then None
         else Some (if neg then - of_nat v else of_nat v))"

text \<open>The base offsets of the \<^verbatim>\<open>.log\<close> files of the directory, lines 19 to 37.\<close>

definition find_base_offsets :: "filesys \<Rightarrow> path \<Rightarrow> u64 list" where
  "find_base_offsets fs dir =
     (let names = map last (dir_files fs dir);
          logs = filter (\<lambda>name. snd (split_ext name) = ''.log'') names;
          base_offsets = sort (List.map_filter (\<lambda>name. stoull (fst (split_ext name))) logs)
      in if base_offsets = [] then [0] else base_offsets)"

text \<open>A segment that has a successor, lines 54 to 93: the status, whether the partition becomes
  degraded, the segment and the file system. The scan totals are logged only.\<close>

definition open_sealed ::
  "os \<Rightarrow> bool \<Rightarrow> filesys \<Rightarrow> LogSegment \<Rightarrow> (Status \<times> bool \<times> LogSegment \<times> filesys) option" where
  "open_sealed w full_scan fs seg =
     (if \<not> has_sealed_marker fs seg then do {
        (st, dummy_next, seg1, fs1) \<leftarrow> recover_and_rebuild_index w fs seg;
        if \<not> ok st then Some (st, False, seg1, fs1)
        else do {
          let (seg2, fs2) = seg_seal w fs1 seg1;
          let (st2, fs3) = write_sealed_marker w fs2 seg2;
          Some (Status_OK, False, seg2, seg_flush w fs3 seg2)
        }
      }
      else if full_scan then do {
        (st, (seg_bytes, seg_records, seg_corrupt), seg1, fs1) \<leftarrow> verify_and_rebuild_full w fs seg 0 0 0;
        let (seg2, fs2) = seg_seal w fs1 seg1;
        Some (Status_OK, seg_corrupt > 0, seg2, fs2)
      }
      else do {
        (st, valid) \<leftarrow> verify_quick w fs seg;
        let (seg2, fs2) = seg_seal w fs seg;
        Some (Status_OK, \<not> valid, seg2, fs2)
      })"

text \<open>The loop over the base offsets, lines 45 to 102; the last one is the active segment.\<close>

fun open_segments ::
  "os \<Rightarrow> bool \<Rightarrow> u64 list \<Rightarrow> Partition \<Rightarrow> filesys \<Rightarrow> (Status \<times> Partition \<times> filesys) option" where
  "open_segments w full_scan [] P fs = Some (Status_OK, P, fs)"
| "open_segments w full_scan (base_off # rest) P fs = do {
     (st, seg, fs1) \<leftarrow> seg_open w fs (make_LogSegment base_off (p_dir P) (index_interval_bytes (p_config P)));
     if \<not> ok st then Some (st, P, fs1)
     else if rest \<noteq> [] then do {
       (st2, degraded, seg2, fs2) \<leftarrow> open_sealed w full_scan fs1 seg;
       if \<not> ok st2 then Some (st2, P, fs2)
       else open_segments w full_scan rest
              (P\<lparr> p_segments := p_segments P @ [seg2], p_is_degraded := p_is_degraded P \<or> degraded \<rparr>) fs2
     }
     else do {
       (st2, next_off, seg2, fs2) \<leftarrow> recover_and_rebuild_index w fs1 seg;
       if \<not> ok st2 then Some (st2, P\<lparr> p_next_offset := next_off \<rparr>, fs2)
       else open_segments w full_scan rest
              (P\<lparr> p_next_offset := next_off, p_segments := p_segments P @ [seg2] \<rparr>) fs2
     }
   }"

definition open_and_recover :: "os \<Rightarrow> filesys \<Rightarrow> Partition \<Rightarrow> (Status \<times> Partition \<times> filesys) option" where
  "open_and_recover w fs P = do {
     let fs0 = create_directories fs (p_dir P);
     let base_offsets = find_base_offsets fs0 (p_dir P);
     let full_scan = (startup_scan (p_config P) = ''full'');
     (st, P1, fs1) \<leftarrow> open_segments w full_scan base_offsets (P\<lparr> p_segments := [] \<rparr>) fs0;
     if \<not> ok st then Some (st, P1, fs1)
     else do {
       let P2 = (if p_segments P1 \<noteq> [] \<and> p_next_offset P1 < m_base_offset (last (p_segments P1))
                 then P1\<lparr> p_next_offset := m_base_offset (last (p_segments P1)) \<rparr> else P1);
       Some (Status_OK, P2, fs1)
     }
   }"

section \<open>Appending\<close>

definition roll_segment_unlocked :: "os \<Rightarrow> filesys \<Rightarrow> Partition \<Rightarrow> (Status \<times> Partition \<times> filesys) option" where
  "roll_segment_unlocked w fs P = do {
     (st, new_seg, fs1) \<leftarrow> seg_open w fs
        (make_LogSegment (p_next_offset P) (p_dir P) (index_interval_bytes (p_config P)));
     if \<not> ok st then Some (st, P, fs1)
     else do {
       let segs = p_segments P @ [new_seg];
       if length segs > 1 then do {
         let i = length segs - 2;
         let (old_seg, fs2) = seg_seal w fs1 (segs ! i);
         let P1 = P\<lparr> p_segments := segs[i := old_seg] \<rparr>;
         let (st2, fs3) = write_sealed_marker w fs2 old_seg;
         if \<not> ok st2 then Some (st2, P1, fs3)
         else Some (Status_OK, P1, seg_flush w fs3 old_seg)
       } else Some (Status_OK, P\<lparr> p_segments := segs \<rparr>, fs1)
     }
   }"

definition wire_record_size :: "bytes \<Rightarrow> bytes \<Rightarrow> u32" where
  "wire_record_size key val = 4 + 24 + of_nat (length key + length val)"

definition too_large :: "u32 \<Rightarrow> Status" where
  "too_large n = Status RecordTooLarge (''Record size ('' @ to_string (unat n) @ '') exceeds maximum limit of 1 MiB'')"

text \<open>The choice of the active segment, lines 174 to 185 and again 226 to 237.\<close>

definition prepare_active :: "os \<Rightarrow> filesys \<Rightarrow> Partition \<Rightarrow> u32 \<Rightarrow> (Status \<times> Partition \<times> filesys) option" where
  "prepare_active w fs P rec_size = do {
     (st, P1, fs1) \<leftarrow> (if p_segments P = [] then roll_segment_unlocked w fs P else Some (Status_OK, P, fs));
     if \<not> ok st then Some (st, P1, fs1)
     else do {
       let active = last (p_segments P1);
       if m_log_size_bytes active > 0 \<and>
          (ucast (m_log_size_bytes active) + ucast rec_size :: u64) > ucast (segment_max_bytes (p_config P1))
       then roll_segment_unlocked w fs1 P1
       else Some (Status_OK, P1, fs1)
     }
   }"

text \<open>One record to the active segment, lines 187 to 199 and 239 to 251.\<close>

definition append_active ::
  "os \<Rightarrow> filesys \<Rightarrow> Partition \<Rightarrow> bytes \<Rightarrow> bytes \<Rightarrow> i64 \<Rightarrow> bool \<Rightarrow> (Status \<times> Partition \<times> filesys) option" where
  "append_active w fs P key val ts sync = do {
     let record = \<lparr> r_offset = p_next_offset P, r_timestamp_ms = ts, r_key = key, r_value = val \<rparr>;
     (st, record', seg, fs1) \<leftarrow> seg_append_with_timestamp w fs (last (p_segments P)) record ts sync;
     let P1 = P\<lparr> p_segments := butlast (p_segments P) @ [seg] \<rparr>;
     if \<not> ok st then Some (st, P1, fs1)
     else Some (Status_OK, P1\<lparr> p_next_offset := p_next_offset P1 + 1 \<rparr>, fs1)
   }"

definition part_append_with_timestamp ::
  "os \<Rightarrow> filesys \<Rightarrow> Partition \<Rightarrow> bytes \<Rightarrow> bytes \<Rightarrow> i64 \<Rightarrow> (u64 Result \<times> Partition \<times> filesys) option" where
  "part_append_with_timestamp w fs P key val ts =
     (let rec_size = wire_record_size key val
      in if rec_size > MAX_RECORD_SIZE then Some (Inl (too_large rec_size), P, fs)
         else do {
           (st, P1, fs1) \<leftarrow> prepare_active w fs P rec_size;
           if \<not> ok st then Some (Inl st, P1, fs1)
           else do {
             (st2, P2, fs2) \<leftarrow> append_active w fs1 P1 key val ts (sync_on_append (p_config P1));
             Some (if \<not> ok st2 then Inl st2 else Inr (p_next_offset P1), P2, fs2)
           }
         })"

definition part_append ::
  "os \<Rightarrow> i64 \<Rightarrow> filesys \<Rightarrow> Partition \<Rightarrow> bytes \<Rightarrow> bytes \<Rightarrow> (u64 Result \<times> Partition \<times> filesys) option" where
  "part_append w now_ms fs P key val = part_append_with_timestamp w fs P key val now_ms"

fun append_batch_loop ::
  "os \<Rightarrow> i64 \<Rightarrow> (bytes \<times> bytes) list \<Rightarrow> filesys \<Rightarrow> Partition \<Rightarrow> (Status \<times> Partition \<times> filesys) option" where
  "append_batch_loop w now_ms [] fs P = Some (Status_OK, P, fs)"
| "append_batch_loop w now_ms ((key, val) # batch) fs P = do {
     (st, P1, fs1) \<leftarrow> prepare_active w fs P (wire_record_size key val);
     if \<not> ok st then Some (st, P1, fs1)
     else do {
       (st2, P2, fs2) \<leftarrow> append_active w fs1 P1 key val now_ms False;
       if \<not> ok st2 then Some (st2, P2, fs2)
       else append_batch_loop w now_ms batch fs2 P2
     }
   }"

definition flush_segments :: "os \<Rightarrow> filesys \<Rightarrow> LogSegment list \<Rightarrow> filesys" where
  "flush_segments w fs segs = foldl (seg_flush w) fs segs"

definition append_batch ::
  "os \<Rightarrow> i64 \<Rightarrow> filesys \<Rightarrow> Partition \<Rightarrow> (bytes \<times> bytes) list \<Rightarrow> (u64 Result \<times> Partition \<times> filesys) option" where
  "append_batch w now_ms fs P batch =
     (if batch = [] then Some (Inl (Status InvalidArgument ''Cannot append empty batch''), P, fs)
      else case find (\<lambda>(key, val). wire_record_size key val > MAX_RECORD_SIZE) batch of
        Some (key, val) \<Rightarrow> Some (Inl (too_large (wire_record_size key val)), P, fs)
      | None \<Rightarrow> do {
          let base_assigned_offset = p_next_offset P;
          (st, P1, fs1) \<leftarrow> append_batch_loop w now_ms batch fs P;
          if \<not> ok st then Some (Inl st, P1, fs1)
          else Some (Inr base_assigned_offset, P1,
                 if sync_on_append (p_config P1) then flush_segments w fs1 (p_segments P1) else fs1)
        })"

section \<open>Reading\<close>

definition earliest_offset :: "Partition \<Rightarrow> u64" where
  "earliest_offset P = (case p_segments P of [] \<Rightarrow> 0 | s # _ \<Rightarrow> m_base_offset s)"

definition total_bytes :: "Partition \<Rightarrow> u64" where
  "total_bytes P = foldl (\<lambda>total seg. total + ucast (m_log_size_bytes seg)) 0 (p_segments P)"

definition part_flush :: "os \<Rightarrow> filesys \<Rightarrow> Partition \<Rightarrow> filesys" where
  "part_flush w fs P = flush_segments w fs (p_segments P)"

text \<open>The first segment whose successor starts after the offset, lines 281 to 288. (The last
  segment has no successor, so the loop always breaks when there is a segment.)\<close>

fun find_segment :: "LogSegment list \<Rightarrow> u64 \<Rightarrow> nat" where
  "find_segment (s # t # segs) start_offset =
     (if m_base_offset t \<le> start_offset then Suc (find_segment (t # segs) start_offset) else 0)"
| "find_segment _ start_offset = 0"

text \<open>The inner loop of \<^verbatim>\<open>read\<close>, lines 298 to 324, from position \<open>pos\<close> of one segment: \<open>Inl\<close> where
  the function returns, \<open>Inr\<close> with the records and counters when the loop ends.\<close>

partial_function (option) read_segment ::
  "os \<Rightarrow> filesys \<Rightarrow> LogSegment \<Rightarrow> u64 \<Rightarrow> nat \<Rightarrow> nat \<Rightarrow> u64 \<Rightarrow> Record list \<Rightarrow> nat \<Rightarrow> nat \<Rightarrow>
    (ReadResult + Record list \<times> nat \<times> nat) option" where
  "read_segment w fs seg start_offset max_messages max_bytes pos records total_bytes_read total_messages_read =
     (if pos < ucast (m_log_size_bytes seg) then do {
        (st, rec) \<leftarrow> read_record_at w fs seg pos default_Record;
        if \<not> ok st then
          if code st = OffsetOutOfRange then Some (Inr (records, total_bytes_read, total_messages_read))
          else Some (Inl \<lparr> rr_records = records, rr_status = st \<rparr>)
        else do {
          let rec_bytes = (4 + 24 + of_nat (length (r_key rec) + length (r_value rec)) :: u32);
          let pos' = pos + ucast rec_bytes;
          if r_offset rec < start_offset then
            read_segment w fs seg start_offset max_messages max_bytes pos' records total_bytes_read total_messages_read
          else do {
            let records' = records @ [rec];
            let tb = total_bytes_read + unat rec_bytes;
            let tm = Suc total_messages_read;
            if tm \<ge> max_messages \<or> tb \<ge> max_bytes then
              Some (Inl \<lparr> rr_records = records', rr_status = Status_OK \<rparr>)
            else read_segment w fs seg start_offset max_messages max_bytes pos' records' tb tm
          }
        }
      } else Some (Inr (records, total_bytes_read, total_messages_read)))"

text \<open>The loop over the segments from the first relevant one.\<close>

fun read_segments ::
  "os \<Rightarrow> filesys \<Rightarrow> u64 \<Rightarrow> nat \<Rightarrow> nat \<Rightarrow> LogSegment list \<Rightarrow> Record list \<Rightarrow> nat \<Rightarrow> nat \<Rightarrow> ReadResult option" where
  "read_segments w fs start_offset max_messages max_bytes [] records tb tm =
     Some \<lparr> rr_records = records, rr_status = Status_OK \<rparr>"
| "read_segments w fs start_offset max_messages max_bytes (seg # segs) records tb tm = do {
     r \<leftarrow> read_segment w fs seg start_offset max_messages max_bytes
            (ucast (lookup_file_position seg start_offset)) records tb tm;
     case r of
       Inl result \<Rightarrow> Some result
     | Inr (records', tb', tm') \<Rightarrow> read_segments w fs start_offset max_messages max_bytes segs records' tb' tm'
   }"

definition part_read :: "os \<Rightarrow> filesys \<Rightarrow> Partition \<Rightarrow> u64 \<Rightarrow> nat \<Rightarrow> nat \<Rightarrow> ReadResult option" where
  "part_read w fs P start_offset max_messages max_bytes =
     (if start_offset = p_next_offset P then Some \<lparr> rr_records = [], rr_status = Status_OK \<rparr>
      else if start_offset > p_next_offset P \<or> start_offset < earliest_offset P then
        Some \<lparr> rr_records = [], rr_status = Status OffsetOutOfRange
          (''Start offset '' @ to_string (unat start_offset) @ '' out of valid range ['' @
           to_string (unat (earliest_offset P)) @ '', '' @ to_string (unat (p_next_offset P)) @ '')'') \<rparr>
      else read_segments w fs start_offset max_messages max_bytes
             (drop (find_segment (p_segments P) start_offset) (p_segments P)) [] 0 0)"

section \<open>Retention\<close>

text \<open>The number of leading segments past the age limit. \<open>now_ms\<close> and the timestamps are
  milliseconds since the epoch, so their difference does not overflow.\<close>

fun count_expired :: "i64 \<Rightarrow> u64 \<Rightarrow> LogSegment list \<Rightarrow> nat" where
  "count_expired now_ms retention_ms (s # t # segs) =
     (let seg_max_ts = m_max_timestamp_ms s
      in if sint seg_max_ts > 0 \<and> sint now_ms - sint seg_max_ts > sint retention_ms
         then Suc (count_expired now_ms retention_ms (t # segs)) else 0)"
| "count_expired now_ms retention_ms _ = 0"

fun count_oversize :: "u64 \<Rightarrow> u64 \<Rightarrow> LogSegment list \<Rightarrow> nat" where
  "count_oversize current_total retention_bytes (s # t # segs) =
     (if current_total > retention_bytes
      then Suc (count_oversize (current_total - ucast (m_log_size_bytes s)) retention_bytes (t # segs)) else 0)"
| "count_oversize current_total retention_bytes _ = 0"

definition candidate :: "LogSegment \<Rightarrow> DeletionCandidate" where
  "candidate seg =
     \<lparr> dc_base_offset = m_base_offset seg, dc_records = m_record_count seg,
       dc_bytes = ucast (m_log_size_bytes seg), dc_log_path = log_path seg,
       dc_index_path = index_path seg, dc_sealed_path = sealed_path seg \<rparr>"

definition remove_candidate :: "os \<Rightarrow> filesys \<Rightarrow> DeletionCandidate \<Rightarrow> filesys" where
  "remove_candidate w fs c =
     fs_remove w (fs_remove w (fs_remove w fs (dc_log_path c)) (dc_index_path c)) (dc_sealed_path c)"

definition deletable_count :: "i64 \<Rightarrow> u64 \<Rightarrow> u64 \<Rightarrow> Partition \<Rightarrow> nat" where
  "deletable_count now_ms retention_ms retention_bytes P =
     (let segs = p_segments P;
          by_age = (if retention_ms > 0 then count_expired now_ms retention_ms segs else 0);
          by_size = (if retention_bytes > 0 then
             (let total = foldl (\<lambda>t seg. t + ucast (m_log_size_bytes seg)) 0 segs
              in if total > retention_bytes then count_oversize total retention_bytes segs else 0) else 0);
          n = max by_age by_size
      in if n \<ge> length segs then length segs - 1 else n)"

definition scan_and_delete_segments ::
  "os \<Rightarrow> i64 \<Rightarrow> filesys \<Rightarrow> Partition \<Rightarrow> u64 \<Rightarrow> u64 \<Rightarrow> bool \<Rightarrow> DeletionCandidate list \<Rightarrow>
    Status \<times> DeletionCandidate list \<times> Partition \<times> filesys" where
  "scan_and_delete_segments w now_ms fs P retention_ms retention_bytes dry_run out_deleted =
     (if length (p_segments P) \<le> 1 then (Status_OK, out_deleted, P, fs)
      else
        (let n = deletable_count now_ms retention_ms retention_bytes P
         in if n = 0 then (Status_OK, out_deleted, P, fs)
            else
              (let deleted = map candidate (take n (p_segments P))
               in if dry_run then (Status_OK, deleted, P, fs)
                  else (Status_OK, deleted, P\<lparr> p_segments := drop n (p_segments P) \<rparr>,
                        foldl (remove_candidate w) fs deleted))))"

end
