(* ===== verification/PartitionLog.thy ===== *)
theory PartitionLog
  imports Partition
begin

text \<open>
  The partition as a log: opening segments, the representation \<open>part_rep\<close> of a list of record
  lists by a partition and its files, and the proofs that appending, batches, rolling, reading
  and retention act on the concatenated list as the abstract log does.
\<close>

section \<open>Directories and opening\<close>

text \<open>The partition directory exists and has no sub-directory.\<close>

definition dir_ready :: "filesys \<Rightarrow> path \<Rightarrow> bool" where
  "dir_ready fs dir \<longleftrightarrow> (\<forall>n \<in> {1..length dir}. take n dir \<in> set (fs_dirs fs)) \<and> (\<forall>x. dir @ [x] \<notin> set (fs_dirs fs))"

lemma create_directories_ready: "dir_ready fs dir \<Longrightarrow> create_directories fs dir = fs"
  by (auto simp: create_directories_def dir_ready_def filter_empty_conv simp del: upt_Suc)

lemma dir_ready_create:
  "\<forall>x. dir @ [x] \<notin> set (fs_dirs fs) \<Longrightarrow> dir_ready (create_directories fs dir) dir"
proof -
  assume a: "\<forall>x. dir @ [x] \<notin> set (fs_dirs fs)"
  have "dir @ [x] \<noteq> take n dir" for x n
  proof
    assume "dir @ [x] = take n dir"
    then have "length (dir @ [x]) = length (take n dir)" by (rule arg_cong)
    then show False by simp
  qed
  then show ?thesis using a unfolding create_directories_def dir_ready_def
    by (auto simp: image_iff simp del: upt_Suc)
qed

lemma dir_ready_cong: "fs_dirs fs' = fs_dirs fs \<Longrightarrow> dir_ready fs' dir = dir_ready fs dir"
  by (simp add: dir_ready_def)

text \<open>Any bytes are a sequence of index entries and fewer than eight bytes more.\<close>

lemma entries_split: "\<exists>es t. d = concat (map entry_bytes es) @ t \<and> length t < 8"
proof (induction "length d" arbitrary: d rule: less_induct)
  case less
  show ?case
  proof (cases "length d < 8")
    case True
    then show ?thesis by (intro exI [of _ "[]"] exI [of _ d]) simp
  next
    case False
    let ?e = "\<lparr> relative_offset = read_u32 (take 4 d), file_position = read_u32 (take 4 (drop 4 d)) \<rparr>"
    have "entry_bytes ?e = take 4 d @ take 4 (drop 4 d)"
      using False by (simp add: entry_bytes_def be32_read_u32)
    also have "\<dots> = take 8 d" using take_add [of 4 4 d] by simp
    finally have e: "d = entry_bytes ?e @ drop 8 d" by simp
    obtain es t where "drop 8 d = concat (map entry_bytes es) @ t" "length t < 8"
    proof -
      have "length (drop 8 d) < length d" using False by (cases d) auto
      then show thesis using less that by blast
    qed
    then show ?thesis using e by (intro exI [of _ "?e # es"] exI [of _ t]) simp
  qed
qed

lemma load_from_file_total:
  assumes "reliable w" "length (fdata fs p) < 2 ^ 32"
  shows "\<exists>es t. load_from_file w fs (Handle p) = Some (True, es) \<and>
    fdata fs p = concat (map entry_bytes es) @ t \<and> length t < 8"
proof -
  obtain es t where s: "fdata fs p = concat (map entry_bytes es) @ t" "length t < 8"
    using entries_split by blast
  moreover have "8 * length es + length t < 2 ^ 32" using assms(2) s by simp
  ultimately show ?thesis using load_from_file_entries [OF assms(1) s] by blast
qed

lemma concat_entries_inj:
  assumes "concat (map entry_bytes es) = concat (map entry_bytes es') @ t" "length t < 8"
  shows "es = es' \<and> t = []"
proof -
  have l: "8 * length es = 8 * length es' + length t"
    using arg_cong [OF assms(1), of length] by (simp only: length_append length_concat_entry_bytes)
  then have "length t = 0" using assms(2) by presburger
  then have t: "t = []" by simp
  have le: "length es = length es'" using l t by simp
  have eq: "concat (map entry_bytes es) = concat (map entry_bytes es')" using assms(1) t by simp
  have "es ! i = es' ! i" if "i < length es" for i
  proof -
    have "Some (es ! i) = parse_entry (concat (map entry_bytes es) @ []) i"
      by (rule parse_entry_nth [OF that, symmetric])
    also have "\<dots> = Some (es' ! i)" unfolding eq by (rule parse_entry_nth) (use that le in simp)
    finally show ?thesis by simp
  qed
  then have "es = es'" using le by (intro nth_equalityI) blast+
  then show ?thesis using t by simp
qed

text \<open>Opening a segment creates the files that are missing, and changes no contents.\<close>

definition marker_ok :: "filesys \<Rightarrow> LogSegment \<Rightarrow> SealedMarker \<Rightarrow> bool" where
  "marker_ok fs s mk \<longleftrightarrow> fexists fs (sealed_path s) \<and> sm_magic mk = 0x5346534C \<and>
     take 32 (fdata fs (sealed_path s)) = marker_mem mk"

lemma length_marker_mem [simp]: "length (marker_mem mk) = 32"
  by (simp add: marker_mem_def u32_mem_def u64_mem_def)

lemma mem_marker_mem: "mem_marker (marker_mem mk) = mk"
proof -
  have "mem_u64 (u64_mem x) = x" for x using mem_u64_mem [of x "[]"] by simp
  then show ?thesis by (simp add: mem_marker_def marker_mem_def mem_u32_mem mem_u64_mem)
qed

definition touch :: "filesys \<Rightarrow> path \<Rightarrow> filesys" where
  "touch fs p = (if fexists fs p then fs else put_file fs p empty_file)"

lemma touch_sel [simp]:
  "get_file (touch fs p) q = get_file fs q" "fexists (touch fs p) q \<longleftrightarrow> q = p \<or> fexists fs q"
  "fs_dirs (touch fs p) = fs_dirs fs"
  by (auto simp: touch_def get_file_missing)

lemma same_outside_touch: "p \<in> P \<Longrightarrow> same_outside P fs (touch fs p)"
  by (auto simp: same_outside_def)

lemma read_sealed_marker_ok:
  assumes w: "reliable w" and mk: "marker_ok fs s mk"
  shows "read_sealed_marker w fs s out = (Status_OK, mk)"
proof -
  have l: "32 \<le> length (fdata fs (sealed_path s))"
  proof -
    have "length (take 32 (fdata fs (sealed_path s))) = length (marker_mem mk)"
      using mk by (simp only: marker_ok_def)
    then show ?thesis by simp
  qed
  then have "fh_read_at w fs (Handle (sealed_path s)) 0 32 = Some (marker_mem mk)"
    using mk w by (simp add: reliable_read marker_ok_def)
  then show ?thesis
    using mk by (simp add: read_sealed_marker_def reliable_open_ro [OF w] marker_ok_def fh_is_valid_def mem_marker_mem)
qed

lemma read_sealed_marker_cong:
  "get_file fs' (sealed_path s) = get_file fs (sealed_path s) \<Longrightarrow> fexists fs' (sealed_path s) = fexists fs (sealed_path s) \<Longrightarrow>
   marker_ok fs' s mk = marker_ok fs s mk"
  by (simp add: marker_ok_def)

lemma seg_open_ok:
  assumes w: "reliable w" and ready: "dir_ready fs (m_partition_dir s0)"
    and s0: "s0 = make_LogSegment b dir i"
    and bounds: "length (fdata fs (log_path s0)) < 2 ^ 32" "length (fdata fs (index_path s0)) < 2 ^ 32"
  defines "fs' \<equiv> touch (touch fs (log_path s0)) (index_path s0)"
  shows "\<exists>s t. seg_open w fs s0 = Some (Status_OK, s, fs') \<and> seg_opened fs' s \<and> same_seg s0 s \<and>
    m_log_size_bytes s = of_nat (length (fdata fs (log_path s0))) \<and>
    fdata fs (index_path s0) = concat (map entry_bytes (m_index s)) @ t \<and> length t < 8 \<and>
    m_running_crc_raw s = INITIAL_CRC \<and>
    (\<not> fexists fs (sealed_path s0) \<longrightarrow> \<not> m_is_sealed s \<and> m_record_count s = 0 \<and> m_max_timestamp_ms s = 0) \<and>
    (\<forall>mk. marker_ok fs s0 mk \<longrightarrow> m_is_sealed s \<and> m_record_count s = sm_record_count mk \<and>
       m_last_offset s = sm_last_offset mk \<and> m_max_timestamp_ms s = sm_max_timestamp_ms mk)"
proof -
  let ?n = "length (fdata fs (log_path s0))"
  obtain es t where ld: "load_from_file w fs' (Handle (index_path s0)) = Some (True, es)"
      and es: "fdata fs (index_path s0) = concat (map entry_bytes es) @ t" "length t < 8"
    using load_from_file_total [OF w, of fs' "index_path s0"] bounds by (auto simp: fs'_def)
  have o1: "open_read_write w fs (log_path s0) True = (Handle (log_path s0), touch fs (log_path s0))"
    and o2: "open_read_write w (touch fs (log_path s0)) (index_path s0) True = (Handle (index_path s0), fs')"
    by (simp_all add: reliable_open_rw [OF w] touch_def fs'_def)
  have un: "unat (of_nat ?n :: u64) = ?n" using bounds by (simp add: unat_of_nat_u64)
  have sz: "(ucast (fh_get_size w fs' (Handle (log_path s0))) :: u32) = of_nat ?n"
    using bounds un by (intro word_unat_eq_iff [THEN iffD2])
      (simp add: reliable_size [OF w] fs'_def unsigned_ucast_eq unat_of_nat_u32 take_bit_nat_eq_self)
  define g where "g = (if es \<noteq> [] then
      (let last_pos = file_position (last es) in if (of_nat ?n :: u32) \<ge> last_pos then of_nat ?n - last_pos else 0)
      else (of_nat ?n :: u32))"
  define s5 where "s5 = s0\<lparr> m_log_file := Handle (log_path s0), m_index_file := Handle (index_path s0),
      m_log_size_bytes := of_nat ?n, m_index := es, m_bytes_since_last_index := g \<rparr>"
  define s6 where "s6 = (if has_sealed_marker fs' s5 then
      (let (st, marker) = read_sealed_marker w fs' s5 default_SealedMarker
       in if ok st then s5\<lparr> m_record_count := sm_record_count marker, m_last_offset := sm_last_offset marker,
            m_max_timestamp_ms := sm_max_timestamp_ms marker, m_is_sealed := True \<rparr> else s5) else s5)"
  have eq: "seg_open w fs s0 = Some (Status_OK, s6, fs')"
    unfolding seg_open_def create_directories_ready [OF ready] Let_def o1 prod.case s6_def s5_def g_def
    using o2 sz ld by (auto simp: fh_is_valid_def Let_def split: prod.splits)
  have p5: "log_path s5 = log_path s0" "index_path s5 = index_path s0" "sealed_path s5 = sealed_path s0"
    by (simp_all add: s5_def seg_paths)
  have s6: "m_log_file s6 = m_log_file s5" "m_index_file s6 = m_index_file s5" "m_index s6 = es"
      "m_log_size_bytes s6 = of_nat ?n" "same_seg s5 s6" "m_running_crc_raw s6 = m_running_crc_raw s5"
    by (auto simp: s6_def s5_def same_seg_def Let_def split: prod.splits)
  have p6: "log_path s6 = log_path s0" "index_path s6 = index_path s0"
    using same_seg_paths [OF s6(5)] p5 by simp_all
  have "sealed_path s0 \<notin> set (fs_dirs fs)"
    using ready by (simp add: dir_ready_def sealed_path_def)
  then have mk: "has_sealed_marker fs' s5 = fexists fs (sealed_path s0)"
    by (auto simp: has_sealed_marker_def fs_exists_def p5 fs'_def)
  have "\<not> fexists fs (sealed_path s0) \<Longrightarrow> s6 = s5" using mk by (simp add: s6_def)
  moreover have "m_is_sealed s6 \<and> m_record_count s6 = sm_record_count m \<and>
       m_last_offset s6 = sm_last_offset m \<and> m_max_timestamp_ms s6 = sm_max_timestamp_ms m" if "marker_ok fs s0 m" for m
  proof -
    have "marker_ok fs' s5 m" using that by (simp add: marker_ok_def p5 fs'_def)
    then have "read_sealed_marker w fs' s5 default_SealedMarker = (Status_OK, m)" by (rule read_sealed_marker_ok [OF w])
    then show ?thesis using that mk by (simp add: s6_def marker_ok_def)
  qed
  moreover have "seg_opened fs' s6" using s6 p6 by (simp add: seg_opened_def s5_def fs'_def)
  moreover have "same_seg s0 s6" using s6(5) by (simp add: same_seg_def s5_def)
  moreover have "m_running_crc_raw s5 = INITIAL_CRC" "\<not> m_is_sealed s5" "m_record_count s5 = 0" "m_max_timestamp_ms s5 = 0"
    by (simp_all add: s5_def s0 make_LogSegment_def)
  ultimately show ?thesis using eq es s6 by (intro exI [of _ s6] exI [of _ t]) auto
qed

section \<open>The representation\<close>

text \<open>Consecutive segments from absolute offset \<open>b\<close>; only the last one may be empty.\<close>

fun segs_rep :: "filesys \<Rightarrow> path \<Rightarrow> nat \<Rightarrow> LogSegment list \<Rightarrow> Record list list \<Rightarrow> bool" where
  "segs_rep fs dir b [] [] = True"
| "segs_rep fs dir b (s # ss) (rs # rss) \<longleftrightarrow>
     seg_rep fs s rs \<and> m_partition_dir s = dir \<and> unat (m_base_offset s) = b \<and> (ss \<noteq> [] \<longrightarrow> rs \<noteq> []) \<and>
     segs_rep fs dir (b + length rs) ss rss"
| "segs_rep fs dir b _ _ = False"

text \<open>The files of the directory belong to the segments; markers exist for sealed ones only.\<close>

definition only_files :: "filesys \<Rightarrow> path \<Rightarrow> u64 set \<Rightarrow> u64 set \<Rightarrow> bool" where
  "only_files fs dir bases sealed \<longleftrightarrow>
     (\<forall>x. fexists fs (dir @ [x]) \<and> snd (split_ext x) = ''.log'' \<longrightarrow> (\<exists>b \<in> bases. x = format_base_offset b @ ''.log'')) \<and>
     (\<forall>b. fexists fs (dir @ [format_base_offset b @ ''.index'']) \<longrightarrow> b \<in> bases) \<and>
     (\<forall>b. fexists fs (dir @ [format_base_offset b @ ''.sealed'']) \<longrightarrow> b \<in> sealed)"

lemma split_ext_log [simp]: "split_ext (format_base_offset b @ ''.log'') = (format_base_offset b, ''.log'')"
  by (simp add: split_ext_def)

lemma split_ext_other [simp]:
  "snd (split_ext (format_base_offset b @ ''.index'')) = ''.index''" "snd (split_ext (format_base_offset b @ ''.sealed'')) = ''.sealed''"
  by (simp_all add: split_ext_def)

lemma only_filesD:
  "only_files fs dir B S \<Longrightarrow> fexists fs (dir @ [format_base_offset b @ x]) \<Longrightarrow> x = ''.log'' \<or> x = ''.index'' \<Longrightarrow> b \<in> B"
  "only_files fs dir B S \<Longrightarrow> fexists fs (dir @ [format_base_offset b @ ''.sealed'']) \<Longrightarrow> b \<in> S"
  "only_files fs dir B S \<Longrightarrow> fexists fs (dir @ [y]) \<Longrightarrow> snd (split_ext y) = ''.log'' \<Longrightarrow> \<exists>b \<in> B. y = format_base_offset b @ ''.log''"
  by (auto simp: only_files_def)

lemma only_filesI:
  assumes "\<And>b x. fexists fs (dir @ [format_base_offset b @ x]) \<Longrightarrow> x = ''.log'' \<or> x = ''.index'' \<Longrightarrow> b \<in> B"
    and "\<And>b. fexists fs (dir @ [format_base_offset b @ ''.sealed'']) \<Longrightarrow> b \<in> S"
    and "\<And>x. fexists fs (dir @ [x]) \<Longrightarrow> snd (split_ext x) = ''.log'' \<Longrightarrow> \<exists>b. x = format_base_offset b @ ''.log''"
  shows "only_files fs dir B S"
  using assms(1,2) assms(3) unfolding only_files_def by metis

definition part_rep :: "filesys \<Rightarrow> Partition \<Rightarrow> Record list list \<Rightarrow> bool" where
  "part_rep fs P rss \<longleftrightarrow>
     p_segments P \<noteq> [] \<and> segs_rep fs (p_dir P) (unat (earliest_offset P)) (p_segments P) rss \<and>
     unat (p_next_offset P) = unat (earliest_offset P) + length (concat rss) \<and>
     \<not> m_is_sealed (last (p_segments P)) \<and> dir_ready fs (p_dir P) \<and>
     only_files fs (p_dir P) (m_base_offset ` set (p_segments P)) (m_base_offset ` set (butlast (p_segments P)))"

text \<open>The abstract log of a partition: the earliest offset and the records from there on.\<close>

definition part_log :: "Record list list \<Rightarrow> Record list" where
  "part_log rss = concat rss"

lemma segs_rep_length: "segs_rep fs dir b ss rss \<Longrightarrow> length ss = length rss"
  by (induction fs dir b ss rss rule: segs_rep.induct) auto

lemma segs_rep_append:
  "length ss = length rss \<Longrightarrow>
   segs_rep fs dir b (ss @ ts) (rss @ tss) \<longleftrightarrow>
     segs_rep fs dir b ss rss \<and> (ts \<noteq> [] \<longrightarrow> (\<forall>rs \<in> set rss. rs \<noteq> [])) \<and>
     segs_rep fs dir (b + length (concat rss)) ts tss"
proof (induction ss rss arbitrary: b rule: list_induct2)
  case (Cons s ss rs rss)
  show ?case using Cons.IH [of "b + length rs"] by (auto simp: add.assoc)
qed simp

lemma segs_rep_snoc:
  "segs_rep fs dir b (ss @ [s]) rss \<longleftrightarrow> (\<exists>rss' rs. rss = rss' @ [rs] \<and> segs_rep fs dir b ss rss' \<and>
     (\<forall>rs \<in> set rss'. rs \<noteq> []) \<and> seg_rep fs s rs \<and> m_partition_dir s = dir \<and>
     unat (m_base_offset s) = b + length (concat rss'))"
proof
  assume r: "segs_rep fs dir b (ss @ [s]) rss"
  then have l: "length rss = Suc (length ss)" by (auto dest: segs_rep_length)
  then obtain rss' rs where rss: "rss = rss' @ [rs]" by (metis append_butlast_last_id length_0_conv nat.simps(3))
  then show "\<exists>rss' rs. rss = rss' @ [rs] \<and> segs_rep fs dir b ss rss' \<and>
     (\<forall>rs \<in> set rss'. rs \<noteq> []) \<and> seg_rep fs s rs \<and> m_partition_dir s = dir \<and>
     unat (m_base_offset s) = b + length (concat rss')"
    using r l by (simp add: segs_rep_append)
next
  assume "\<exists>rss' rs. rss = rss' @ [rs] \<and> segs_rep fs dir b ss rss' \<and>
     (\<forall>rs \<in> set rss'. rs \<noteq> []) \<and> seg_rep fs s rs \<and> m_partition_dir s = dir \<and>
     unat (m_base_offset s) = b + length (concat rss')"
  then obtain rss' rs where "rss = rss' @ [rs]" "segs_rep fs dir b ss rss'" "\<forall>rs \<in> set rss'. rs \<noteq> []"
      "seg_rep fs s rs" "m_partition_dir s = dir" "unat (m_base_offset s) = b + length (concat rss')"
    by blast
  then show "segs_rep fs dir b (ss @ [s]) rss"
    using segs_rep_length [of fs dir b ss rss'] by (simp add: segs_rep_append)
qed

lemma segs_rep_bases:
  assumes "segs_rep fs dir b ss rss" "\<forall>rs \<in> set rss. rs \<noteq> []" "s \<in> set ss"
  shows "b \<le> unat (m_base_offset s) \<and> unat (m_base_offset s) < b + length (concat rss) \<and> m_partition_dir s = dir"
  using assms
proof (induction fs dir b ss rss rule: segs_rep.induct)
  case (2 fs dir b t ss rs rss)
  then show ?case by (cases "s = t") (auto simp: neq_Nil_conv)
qed auto

lemma segs_rep_frame:
  assumes "segs_rep fs dir b ss rss" "same_outside {log_path t, index_path t, sealed_path t} fs fs'"
    and "m_partition_dir t = dir" "m_base_offset t \<notin> m_base_offset ` set ss"
  shows "segs_rep fs' dir b ss rss"
  using assms
proof (induction fs dir b ss rss rule: segs_rep.induct)
  case (2 fs dir b s ss rs rss)
  have "log_path s \<notin> {log_path t, index_path t, sealed_path t}" "index_path s \<notin> {log_path t, index_path t, sealed_path t}"
    using 2 by auto
  then show ?case using 2 seg_rep_outside [of fs s rs] by auto
qed auto

lemma only_files_frame:
  assumes "only_files fs (m_partition_dir t) B S" "same_outside {log_path t, index_path t, sealed_path t} fs fs'"
    and "m_base_offset t \<in> B'" "B \<subseteq> B'" "S \<subseteq> S'" "m_base_offset t \<notin> S' \<longrightarrow> fexists fs' (sealed_path t) = fexists fs (sealed_path t)"
  shows "only_files fs' (m_partition_dir t) B' S'"
proof -
  have out: "fexists fs' q = fexists fs q" if "q \<notin> {log_path t, index_path t, sealed_path t}" for q
    using assms(2) that by (auto dest: same_outsideD)
  have sp: "sealed_path t = m_partition_dir t @ [format_base_offset (m_base_offset t) @ ''.sealed'']"
    by (simp add: sealed_path_def)
  have "b \<in> S'" if "fexists fs' (m_partition_dir t @ [format_base_offset b @ ''.sealed''])" for b
  proof (cases "b = m_base_offset t")
    case True
    then show ?thesis using that assms(1,5,6) sp by (auto simp: only_files_def)
  next
    case False
    then show ?thesis using that assms(1,5) out [of "m_partition_dir t @ [format_base_offset b @ ''.sealed'']"]
      by (auto simp: only_files_def seg_paths)
  qed
  moreover have "b \<in> B'" if "fexists fs' (m_partition_dir t @ [format_base_offset b @ ''.index''])" for b
    using that assms(1,3,4) out [of "m_partition_dir t @ [format_base_offset b @ ''.index'']"]
    by (cases "b = m_base_offset t") (auto simp: only_files_def seg_paths)
  moreover have "\<exists>b \<in> B'. x = format_base_offset b @ ''.log''"
    if "fexists fs' (m_partition_dir t @ [x])" "snd (split_ext x) = ''.log''" for x
  proof (cases "m_partition_dir t @ [x] \<in> {log_path t, index_path t, sealed_path t}")
    case False
    then have "\<exists>b \<in> B. x = format_base_offset b @ ''.log''" using that assms(1) out by (simp add: only_files_def)
    then show ?thesis using assms(4) by blast
  qed (use that assms(3) in \<open>auto simp: seg_paths\<close>)
  ultimately show ?thesis by (auto simp: only_files_def)
qed

section \<open>Rolling\<close>

definition seg_files :: "LogSegment \<Rightarrow> path set" where
  "seg_files s = {log_path s, index_path s, sealed_path s}"

lemma seg_files_update [simp]: "seg_files (m_is_sealed_update f s) = seg_files s"
  by (simp add: seg_files_def)

lemma seg_files_same: "same_seg s s' \<Longrightarrow> seg_files s' = seg_files s"
  by (simp add: seg_files_def same_seg_paths)

lemma seg_files_disjoint:
  "m_partition_dir s = m_partition_dir t \<Longrightarrow> m_base_offset s \<noteq> m_base_offset t \<Longrightarrow> seg_files s \<inter> seg_files t = {}"
  by (auto simp: seg_files_def)

lemma seg_flush_sel [simp]:
  "fdata (seg_flush w fs s) q = fdata fs q" "fexists (seg_flush w fs s) q = fexists fs q"
  by (simp_all add: seg_flush_def)

lemma fs_dirs_fh_flush [simp]: "fs_dirs (fh_flush w fs h) = fs_dirs fs"
  by (simp add: fh_flush_def Let_def split: FileHandle.splits)

lemma fs_dirs_seg_flush [simp]: "fs_dirs (seg_flush w fs s) = fs_dirs fs"
  by (simp add: seg_flush_def)

lemma seg_synced_cong:
  "seg_synced fs s \<Longrightarrow> get_file fs' (log_path s) = get_file fs (log_path s) \<Longrightarrow>
   get_file fs' (index_path s) = get_file fs (index_path s) \<Longrightarrow> seg_synced fs' s"
  by (simp add: seg_synced_def)

lemma seg_synced_outside:
  "seg_synced fs s \<Longrightarrow> same_outside P fs fs' \<Longrightarrow> log_path s \<notin> P \<Longrightarrow> index_path s \<notin> P \<Longrightarrow> seg_synced fs' s"
  by (erule seg_synced_cong) (auto dest: same_outsideD)

lemma write_sealed_marker_ok:
  assumes w: "reliable w" and new: "\<not> fexists fs (sealed_path s)"
  shows "\<exists>fs'. write_sealed_marker w fs s = (Status_OK, fs') \<and> same_outside {sealed_path s} fs fs' \<and>
    fexists fs' (sealed_path s) \<and>
    fdata fs' (sealed_path s) = marker_mem \<lparr> sm_magic = 0x5346534C, sm_record_count = m_record_count s,
       sm_last_offset = m_last_offset s, sm_crc32_of_whole_log = running_crc s, sm_max_timestamp_ms = m_max_timestamp_ms s \<rparr> \<and>
    f_synced (get_file fs' (sealed_path s)) = 32"
proof -
  define mk where "mk = \<lparr> sm_magic = 0x5346534C, sm_record_count = m_record_count s,
       sm_last_offset = m_last_offset s, sm_crc32_of_whole_log = running_crc s, sm_max_timestamp_ms = m_max_timestamp_ms s \<rparr>"
  define fs1 where "fs1 = put_file fs (sealed_path s) empty_file"
  define fs2 where "fs2 = put_file fs1 (sealed_path s) (empty_file\<lparr> f_data := marker_mem mk \<rparr>)"
  have "write_sealed_marker w fs s = (Status_OK, fh_flush w fs2 (Handle (sealed_path s)))"
    unfolding write_sealed_marker_def Let_def reliable_open_rw [OF w] mk_def [symmetric]
    using new by (simp add: fh_is_valid_def reliable_write [OF w] fs1_def [symmetric] fs2_def) (simp add: fs1_def)
  moreover have "same_outside {sealed_path s} fs (fh_flush w fs2 (Handle (sealed_path s)))"
    unfolding fs2_def fs1_def by (intro same_outside_trans [OF _ same_outside_flush] same_outside_trans
        [OF same_outside_put_file same_outside_put_file]) simp_all
  moreover have "f_synced (get_file (fh_flush w fs2 (Handle (sealed_path s))) (sealed_path s)) = 32"
    using fh_flush_synced [OF w, of fs2 "sealed_path s"] by (simp add: fs2_def)
  moreover have "fexists fs2 (sealed_path s)" "fdata fs2 (sealed_path s) = marker_mem mk" by (simp_all add: fs2_def)
  ultimately show ?thesis unfolding mk_def by simp
qed

text \<open>Opening a segment at an offset whose files do not exist yet gives an empty segment.\<close>

lemma seg_open_fresh:
  assumes w: "reliable w" and ready: "dir_ready fs dir" and files: "only_files fs dir B S" "b \<notin> B" "b \<notin> S"
  shows "\<exists>s fs'. seg_open w fs (make_LogSegment b dir i) = Some (Status_OK, s, fs') \<and>
    seg_rep fs' s [] \<and> seg_meta s [] \<and> m_base_offset s = b \<and> m_partition_dir s = dir \<and> \<not> m_is_sealed s \<and>
    seg_synced fs' s \<and> same_outside {log_path s, index_path s} fs fs' \<and> \<not> fexists fs (sealed_path s)"
proof -
  define s0 where "s0 = make_LogSegment b dir i"
  define fs' where "fs' = touch (touch fs (log_path s0)) (index_path s0)"
  have nf: "\<not> fexists fs (log_path s0)" "\<not> fexists fs (index_path s0)" "\<not> fexists fs (sealed_path s0)"
    using files by (auto simp: only_files_def s0_def seg_paths make_LogSegment_def)
  then have e: "get_file fs (log_path s0) = empty_file" "get_file fs (index_path s0) = empty_file"
    by (simp_all add: get_file_missing)
  have "dir_ready fs (m_partition_dir s0)" using ready by (simp add: s0_def make_LogSegment_def)
  then obtain s t where s: "seg_open w fs s0 = Some (Status_OK, s, fs')" "seg_opened fs' s" "same_seg s0 s"
      "m_log_size_bytes s = 0" "[] = concat (map entry_bytes (m_index s)) @ t"
      "m_running_crc_raw s = INITIAL_CRC" "\<not> m_is_sealed s" "m_record_count s = 0" "m_max_timestamp_ms s = 0"
    using seg_open_ok [OF w _ s0_def, of fs] nf e unfolding fs'_def by auto
  have "concat (map entry_bytes (m_index s)) = concat (map entry_bytes []) @ []" using s(5) by simp
  then have ix: "m_index s = []" using concat_entries_inj [of "m_index s" "[]" "[]"] by simp
  have p: "log_path s = log_path s0" "index_path s = index_path s0" "sealed_path s = sealed_path s0"
    using same_seg_paths [OF s(3)] by simp_all
  have "seg_rep fs' s []"
    using s(2,4) p e ix by (simp add: seg_rep_def seg_opened_def fs'_def index_ok_def offsets_from_def)
  moreover have "seg_meta s []" using s by (simp add: seg_meta_def)
  moreover have "m_base_offset s = b" "m_partition_dir s = dir" using s(3) by (simp_all add: same_seg_def s0_def make_LogSegment_def)
  moreover have "seg_synced fs' s" using p e by (simp add: seg_synced_def fs'_def)
  moreover have "same_outside {log_path s, index_path s} fs fs'"
    unfolding fs'_def p by (rule same_outside_trans [OF same_outside_touch same_outside_touch]) simp_all
  ultimately show ?thesis using s(1,7) nf p unfolding s0_def by auto
qed

text \<open>The metadata and the durability of all segments.\<close>

definition part_meta :: "Partition \<Rightarrow> Record list list \<Rightarrow> bool" where
  "part_meta P rss \<longleftrightarrow> list_all2 seg_meta (p_segments P) rss"

definition part_synced :: "filesys \<Rightarrow> Partition \<Rightarrow> bool" where
  "part_synced fs P \<longleftrightarrow> (\<forall>s \<in> set (p_segments P). seg_synced fs s)"

text \<open>Rolling flushes the segment it seals, so every segment but the active one is durable.\<close>

definition sealed_synced :: "filesys \<Rightarrow> Partition \<Rightarrow> bool" where
  "sealed_synced fs P \<longleftrightarrow> (\<forall>s \<in> set (butlast (p_segments P)). seg_synced fs s)"

text \<open>The parts of \<open>part_rep\<close>, with the active segment split off.\<close>

lemma part_rep_split:
  assumes "part_rep fs P rss"
  obtains ss s rss' rs where "p_segments P = ss @ [s]" "rss = rss' @ [rs]"
    "segs_rep fs (p_dir P) (unat (earliest_offset P)) ss rss'" "\<forall>rs \<in> set rss'. rs \<noteq> []"
    "seg_rep fs s rs" "m_partition_dir s = p_dir P" "unat (m_base_offset s) + length rs = unat (p_next_offset P)"
    "m_base_offset s \<notin> m_base_offset ` set ss" "\<not> m_is_sealed s"
    "unat (m_base_offset s) = unat (earliest_offset P) + length (concat rss')"
    "\<forall>t \<in> set ss. m_partition_dir t = p_dir P \<and> m_base_offset t \<noteq> p_next_offset P"
proof -
  obtain ss s where segs: "p_segments P = ss @ [s]"
    using assms by (metis append_butlast_last_id part_rep_def)
  then obtain rss' rs where r: "rss = rss' @ [rs]" "segs_rep fs (p_dir P) (unat (earliest_offset P)) ss rss'"
      "\<forall>rs \<in> set rss'. rs \<noteq> []" "seg_rep fs s rs" "m_partition_dir s = p_dir P"
      "unat (m_base_offset s) = unat (earliest_offset P) + length (concat rss')"
    using assms by (auto simp: part_rep_def segs_rep_snoc)
  have n: "unat (m_base_offset s) + length rs = unat (p_next_offset P)"
    using assms r by (simp add: part_rep_def)
  have "m_base_offset s \<notin> m_base_offset ` set ss"
    using segs_rep_bases [OF r(2,3)] r(6) by (metis imageE less_irrefl)
  moreover have "\<forall>t \<in> set ss. m_partition_dir t = p_dir P \<and> m_base_offset t \<noteq> p_next_offset P"
    using segs_rep_bases [OF r(2,3)] r(6) n by (metis add.commute le_add2 not_less)
  ultimately show thesis using that segs r n assms by (simp add: part_rep_def)
qed

lemma roll_files:
  assumes w: "reliable w" and old: "seg_rep fs old rs" "m_partition_dir old = dir" "\<not> fexists fs (sealed_path old)"
    and new: "seg_open w fs (make_LogSegment b dir i) = Some (Status_OK, new, fs1)"
      "seg_rep fs1 new []" "seg_synced fs1 new" "m_base_offset new = b" "m_partition_dir new = dir"
      "same_outside {log_path new, index_path new} fs fs1" and neq: "b \<noteq> m_base_offset old"
    and steps: "seg_seal w fs1 old = (old', fs2)"
  shows "\<exists>fs3. write_sealed_marker w fs2 old' = (Status_OK, fs3) \<and>
    (let fs4 = seg_flush w fs3 old' in
      seg_rep fs4 old' rs \<and> seg_rep fs4 new [] \<and> seg_synced fs4 old' \<and> seg_synced fs4 new \<and>
      old' = old\<lparr> m_is_sealed := True \<rparr> \<and> same_outside (seg_files old \<union> {log_path new, index_path new}) fs fs4)"
proof -
  have o': "old' = old\<lparr> m_is_sealed := True \<rparr>" and f2: "fs2 = seg_flush w fs1 old'"
    using steps by (auto simp: seg_seal_def Let_def)
  have dj: "seg_files old \<inter> seg_files new = {}"
    by (rule seg_files_disjoint) (use old new neq in auto)
  have rep1: "seg_rep fs1 old' rs"
    using seg_rep_outside [OF old(1) new(6)] dj by (auto simp: o' seg_files_def)
  have out2: "same_outside {log_path old, index_path old} fs1 fs2"
    using same_outside_seg_flush [OF rep1, of w] by (simp add: f2 o')
  have "\<not> fexists fs2 (sealed_path old')"
    using old(3) same_outsideD(2) [OF new(6), of "sealed_path old"] by (simp add: f2 o')
  then obtain fs3 where m0: "write_sealed_marker w fs2 old' = (Status_OK, fs3)" "same_outside {sealed_path old'} fs2 fs3"
    using write_sealed_marker_ok [OF w, of fs2 old'] by blast
  have paths: "log_path old' = log_path old" "index_path old' = index_path old" "sealed_path old' = sealed_path old"
    by (simp_all add: o')
  note m = m0 [unfolded paths]
  define fs4 where "fs4 = seg_flush w fs3 old'"
  have rep3: "seg_rep fs3 old' rs"
    using rep1 seg_rep_outside [of fs2 old' rs, OF _ m(2)] paths by (simp add: f2)
  have out4: "same_outside {log_path old, index_path old} fs3 fs4"
    using same_outside_seg_flush [OF rep3, of w] unfolding paths fs4_def .
  have "same_outside (seg_files old) fs1 fs2" "same_outside (seg_files old) fs2 fs3" "same_outside (seg_files old) fs3 fs4"
    by (rule same_outside_mono [OF out2] same_outside_mono [OF m(2)] same_outside_mono [OF out4], simp add: seg_files_def)+
  then have out14: "same_outside (seg_files old) fs1 fs4"
    by (blast intro: same_outside_trans)
  have "log_path new \<notin> seg_files old" "index_path new \<notin> seg_files old" using dj by (auto simp: seg_files_def)
  then have "seg_rep fs4 new []" "seg_synced fs4 new"
    using seg_rep_outside [OF new(2) out14] seg_synced_outside [OF new(3) out14] by simp_all
  moreover have "seg_rep fs4 old' rs" "seg_synced fs4 old'"
    using rep3 seg_synced_flush [OF w rep3] by (simp_all add: fs4_def)
  moreover have "same_outside (seg_files old \<union> {log_path new, index_path new}) fs fs4"
    using same_outside_mono [OF new(6)] same_outside_mono [OF out14] by (blast intro: same_outside_trans)
  ultimately show ?thesis using m(1) o' unfolding fs4_def Let_def by blast
qed

lemma earliest_offset_append:
  "p_segments P = ss @ [s] \<Longrightarrow> m_base_offset s' = m_base_offset s \<Longrightarrow>
   earliest_offset (P\<lparr> p_segments := ss @ s' # ts \<rparr>) = earliest_offset P"
  by (cases ss) (simp_all add: earliest_offset_def)

lemma earliest_offset_next [simp]: "earliest_offset (P\<lparr> p_next_offset := n \<rparr>) = earliest_offset P"
  by (simp add: earliest_offset_def)

lemma segs_rep_frames:
  assumes "segs_rep fs dir b ss rss" "same_outside Q fs fs'" "\<forall>s \<in> set ss. log_path s \<notin> Q \<and> index_path s \<notin> Q"
  shows "segs_rep fs' dir b ss rss"
  using assms by (induction fs dir b ss rss rule: segs_rep.induct) (auto intro: seg_rep_outside)

lemma only_files_grow:
  assumes "only_files fs dir B S" "same_outside (seg_files old \<union> {log_path new, index_path new}) fs fs'"
    and "m_partition_dir old = dir" "m_partition_dir new = dir" "m_base_offset old \<in> B"
  shows "only_files fs' dir (insert (m_base_offset new) B) (insert (m_base_offset old) S)"
proof -
  let ?Q = "seg_files old \<union> {log_path new, index_path new}"
  have out: "fexists fs' q = fexists fs q" if "q \<notin> ?Q" for q
    using assms(2) that by (auto dest: same_outsideD)
  have "b \<in> insert (m_base_offset old) S" if "fexists fs' (dir @ [format_base_offset b @ ''.sealed''])" for b
    using that assms(1,3,4) out [of "dir @ [format_base_offset b @ ''.sealed'']"]
    by (cases "b = m_base_offset old") (auto simp: only_files_def seg_files_def seg_paths)
  moreover have "b \<in> insert (m_base_offset new) B" if "fexists fs' (dir @ [format_base_offset b @ ''.index''])" for b
    using that assms(1,3,4,5) out [of "dir @ [format_base_offset b @ ''.index'']"]
    by (cases "b = m_base_offset new \<or> b = m_base_offset old") (auto simp: only_files_def seg_files_def seg_paths)
  moreover have "\<exists>b \<in> insert (m_base_offset new) B. x = format_base_offset b @ ''.log''"
    if "fexists fs' (dir @ [x])" "snd (split_ext x) = ''.log''" for x
  proof (cases "dir @ [x] \<in> ?Q")
    case False
    then have "\<exists>b \<in> B. x = format_base_offset b @ ''.log''" using that assms(1) out by (simp add: only_files_def)
    then show ?thesis by blast
  qed (use that assms(3-5) in \<open>auto simp: seg_files_def seg_paths\<close>)
  ultimately show ?thesis by (auto simp: only_files_def)
qed

lemma roll_ok:
  assumes w: "reliable w" and rep: "part_rep fs P rss" and ne: "last rss \<noteq> []"
  shows "\<exists>P' fs'. roll_segment_unlocked w fs P = Some (Status_OK, P', fs') \<and> part_rep fs' P' (rss @ [[]]) \<and>
    (part_meta P rss \<longrightarrow> part_meta P' (rss @ [[]])) \<and> (part_synced fs P \<longrightarrow> part_synced fs' P') \<and> (sealed_synced fs P \<longrightarrow> sealed_synced fs' P') \<and>
    p_next_offset P' = p_next_offset P \<and> p_config P' = p_config P \<and> p_dir P' = p_dir P \<and> p_id P' = p_id P \<and>
    p_is_degraded P' = p_is_degraded P \<and> earliest_offset P' = earliest_offset P"
proof -
  obtain ss old rss' rs where P: "p_segments P = ss @ [old]" "rss = rss' @ [rs]"
      "segs_rep fs (p_dir P) (unat (earliest_offset P)) ss rss'" "\<forall>rs \<in> set rss'. rs \<noteq> []"
      "seg_rep fs old rs" "m_partition_dir old = p_dir P" "unat (m_base_offset old) + length rs = unat (p_next_offset P)"
      "m_base_offset old \<notin> m_base_offset ` set ss" "unat (m_base_offset old) = unat (earliest_offset P) + length (concat rss')"
      "\<forall>t \<in> set ss. m_partition_dir t = p_dir P \<and> m_base_offset t \<noteq> p_next_offset P"
    using part_rep_split [OF rep] by metis
  have files: "only_files fs (p_dir P) (insert (m_base_offset old) (m_base_offset ` set ss)) (m_base_offset ` set ss)"
    and ready: "dir_ready fs (p_dir P)"
    using rep P(1) by (simp_all add: part_rep_def)
  have nb: "p_next_offset P \<noteq> m_base_offset old" using P(2,7) ne by auto
  have nB: "p_next_offset P \<notin> insert (m_base_offset old) (m_base_offset ` set ss)" "p_next_offset P \<notin> m_base_offset ` set ss"
    using nb P(10) by auto
  obtain new fs1 where new: "seg_open w fs (make_LogSegment (p_next_offset P) (p_dir P) (index_interval_bytes (p_config P)))
        = Some (Status_OK, new, fs1)" "seg_rep fs1 new []" "seg_meta new []" "m_base_offset new = p_next_offset P"
      "m_partition_dir new = p_dir P" "\<not> m_is_sealed new" "seg_synced fs1 new" "same_outside {log_path new, index_path new} fs fs1"
    using seg_open_fresh [OF w ready files nB] by blast
  have nsealed: "\<not> fexists fs (sealed_path old)"
    using files P(6,8) by (auto simp: only_files_def sealed_path_def)
  obtain old' fs2 where seal: "seg_seal w fs1 old = (old', fs2)" by (cases "seg_seal w fs1 old") auto
  obtain fs3 fs4 where m: "write_sealed_marker w fs2 old' = (Status_OK, fs3)" "fs4 = seg_flush w fs3 old'"
      "seg_rep fs4 old' rs" "seg_rep fs4 new []" "seg_synced fs4 old'" "seg_synced fs4 new"
      "old' = old\<lparr> m_is_sealed := True \<rparr>" "same_outside (seg_files old \<union> {log_path new, index_path new}) fs fs4"
    using roll_files [OF w P(5,6) nsealed new(1,2,7,4,5,8) nb seal] by (auto simp: Let_def)
  define P' where "P' = P\<lparr> p_segments := ss @ [old', new] \<rparr>"
  have roll: "roll_segment_unlocked w fs P = Some (Status_OK, P', fs4)"
    using new(1) P(1) seal m(1,2)
    by (simp add: roll_segment_unlocked_def nth_append list_update_append P'_def)
  have other: "log_path t \<notin> seg_files old \<union> {log_path new, index_path new} \<and>
      index_path t \<notin> seg_files old \<union> {log_path new, index_path new}" if "t \<in> set ss" for t
  proof -
    have "m_base_offset t \<noteq> m_base_offset old" "m_base_offset t \<noteq> m_base_offset new" "m_partition_dir t = p_dir P"
      using that P(8,10) new(4) by (auto simp: image_iff)
    then show ?thesis using P(6) new(5) by (auto simp: seg_files_def)
  qed
  have e: "earliest_offset P' = earliest_offset P"
    unfolding P'_def by (rule earliest_offset_append [OF P(1)]) (simp add: m(7))
  have segs: "segs_rep fs4 (p_dir P) (unat (earliest_offset P)) (ss @ [old', new]) (rss' @ [rs, []])"
    using segs_rep_frames [OF P(3) m(8)] other P new m ne segs_rep_length [OF P(3)]
    by (simp add: segs_rep_append)
  have "part_rep fs4 P' (rss @ [[]])"
    using segs P(1,2,7,9) new(6) e rep m(7)
      only_files_grow [OF files m(8) P(6) new(5)] dir_ready_cong [OF same_outsideD(3) [OF m(8)]]
    by (simp add: part_rep_def P'_def butlast_append insert_commute)
  moreover have "part_meta P rss \<longrightarrow> part_meta P' (rss @ [[]])"
    using P(1,2) new(3) m(7) segs_rep_length [OF P(3)]
    by (auto simp: part_meta_def P'_def list_all2_append)
  moreover have "part_synced fs P \<longrightarrow> part_synced fs4 P'"
    using P(1) m(5,6) other by (auto simp: part_synced_def P'_def intro: seg_synced_outside [OF _ m(8)])
  moreover have "sealed_synced fs P \<longrightarrow> sealed_synced fs4 P'"
    using P(1) m(5) other by (auto simp: sealed_synced_def P'_def butlast_append intro: seg_synced_outside [OF _ m(8)])
  ultimately show ?thesis using roll e by (auto simp: P'_def)
qed

section \<open>Appending\<close>

text \<open>What every operation keeps of a partition object.\<close>

definition same_part :: "Partition \<Rightarrow> Partition \<Rightarrow> bool" where
  "same_part P P' \<longleftrightarrow> p_config P' = p_config P \<and> p_dir P' = p_dir P \<and> p_id P' = p_id P \<and>
     p_is_degraded P' = p_is_degraded P \<and> earliest_offset P' = earliest_offset P"

lemma same_part_refl [simp]: "same_part P P"
  by (simp add: same_part_def)

lemma same_part_trans: "same_part P Q \<Longrightarrow> same_part Q R \<Longrightarrow> same_part P R"
  by (simp add: same_part_def)

lemma part_rep_nonempty: "part_rep fs P rss \<Longrightarrow> p_segments P \<noteq> [] \<and> rss \<noteq> []"
  using segs_rep_length [of fs "p_dir P" _ "p_segments P" rss] by (auto simp: part_rep_def)

lemma active_size:
  assumes "part_rep fs P rss"
  shows "unat (m_log_size_bytes (last (p_segments P))) = length (log_bytes (last rss))"
  using assms by (rule part_rep_split) (auto simp: seg_rep_def unat_of_nat_u32)

lemma prepare_active_ok:
  assumes w: "reliable w" and rep: "part_rep fs P rss" and n: "unat n \<le> 1048576"
  shows "\<exists>P' fs' rss'. prepare_active w fs P n = Some (Status_OK, P', fs') \<and> part_rep fs' P' rss' \<and>
    concat rss' = concat rss \<and> (part_meta P rss \<longrightarrow> part_meta P' rss') \<and> (part_synced fs P \<longrightarrow> part_synced fs' P') \<and> (sealed_synced fs P \<longrightarrow> sealed_synced fs' P') \<and>
    p_next_offset P' = p_next_offset P \<and> same_part P P' \<and> length (log_bytes (last rss')) + unat n < 2 ^ 32"
proof -
  let ?a = "last (p_segments P)"
  have sz: "unat (m_log_size_bytes ?a) = length (log_bytes (last rss))" by (rule active_size [OF rep])
  have total: "unat (ucast (m_log_size_bytes ?a) + ucast n :: u64) = length (log_bytes (last rss)) + unat n"
    using sz n unat_u32_lt [of "m_log_size_bytes ?a"] by (subst unat_add_small_u64) simp_all
  show ?thesis
  proof (cases "m_log_size_bytes ?a > 0 \<and> (ucast (m_log_size_bytes ?a) + ucast n :: u64) > ucast (segment_max_bytes (p_config P))")
    case True
    then have "last rss \<noteq> []" using sz by (auto simp: word_less_nat_alt)
    then obtain P' fs' where "roll_segment_unlocked w fs P = Some (Status_OK, P', fs')" "part_rep fs' P' (rss @ [[]])"
        "part_meta P rss \<longrightarrow> part_meta P' (rss @ [[]])" "part_synced fs P \<longrightarrow> part_synced fs' P'" "sealed_synced fs P \<longrightarrow> sealed_synced fs' P'"
        "p_next_offset P' = p_next_offset P" "same_part P P'"
      using roll_ok [OF w rep] unfolding same_part_def by blast
    then show ?thesis
      using True part_rep_nonempty [OF rep] n
      by (intro exI [of _ P'] exI [of _ fs'] exI [of _ "rss @ [[]]"]) (simp add: prepare_active_def)
  next
    case False
    have "length (log_bytes (last rss)) + unat n < 2 ^ 32"
    proof (cases "m_log_size_bytes ?a > 0")
      case True
      then have "length (log_bytes (last rss)) + unat n \<le> unat (segment_max_bytes (p_config P))"
        using False total by (simp add: word_less_nat_alt not_less)
      also have "\<dots> < 2 ^ 32" using unat_u32_lt by simp
      finally show ?thesis .
    next
      case zero: False
      then have "length (log_bytes (last rss)) = 0" using sz by (simp add: word_less_nat_alt)
      then show ?thesis using n by simp
    qed
    then show ?thesis
      using False rep part_rep_nonempty [OF rep]
      by (intro exI [of _ P] exI [of _ fs] exI [of _ rss]) (auto simp: prepare_active_def)
  qed
qed

lemma append_active_ok:
  assumes w: "reliable w" and rep: "part_rep fs P rss"
    and r: "r = \<lparr> r_offset = p_next_offset P, r_timestamp_ms = ts, r_key = key, r_value = val \<rparr>"
    and size: "record_size r \<le> 1048576" and room: "length (log_bytes (last rss)) + record_size r < 2 ^ 32"
    and nxt: "unat (p_next_offset P) + 1 < 2 ^ 64"
  shows "\<exists>P' fs'. append_active w fs P key val ts sync = Some (Status_OK, P', fs') \<and>
    part_rep fs' P' (butlast rss @ [last rss @ [r]]) \<and>
    (part_meta P rss \<longrightarrow> part_meta P' (butlast rss @ [last rss @ [r]])) \<and>
    (sync \<and> part_synced fs P \<longrightarrow> part_synced fs' P') \<and> (sealed_synced fs P \<longrightarrow> sealed_synced fs' P') \<and>
    p_next_offset P' = p_next_offset P + 1 \<and> same_part P P'"
proof -
  obtain ss s rss' rs where P: "p_segments P = ss @ [s]" "rss = rss' @ [rs]"
      "segs_rep fs (p_dir P) (unat (earliest_offset P)) ss rss'" "\<forall>rs \<in> set rss'. rs \<noteq> []"
      "seg_rep fs s rs" "m_partition_dir s = p_dir P" "unat (m_base_offset s) + length rs = unat (p_next_offset P)"
      "m_base_offset s \<notin> m_base_offset ` set ss" "\<not> m_is_sealed s"
      "unat (m_base_offset s) = unat (earliest_offset P) + length (concat rss')"
      "\<forall>t \<in> set ss. m_partition_dir t = p_dir P \<and> m_base_offset t \<noteq> p_next_offset P"
    using part_rep_split [OF rep] by metis
  have off: "r_offset r = m_base_offset s + of_nat (length rs)"
    using P(7) by (simp add: r) (metis of_nat_add of_nat_unat ucast_id)
  have r0: "r = r\<lparr> r_timestamp_ms := ts \<rparr>" by (simp add: r)
  have room': "length (log_bytes rs) + record_size r < 2 ^ 32" and nxt': "unat (m_base_offset s) + length rs + 1 < 2 ^ 64"
    using room P(2,7) nxt by simp_all
  obtain s' fs' where a: "seg_append_with_timestamp w fs s r ts sync = Some (Status_OK, r, s', fs')"
      "seg_rep fs' s' (rs @ [r])" "seg_meta s rs \<longrightarrow> seg_meta s' (rs @ [r])" "same_seg s s'" "\<not> m_is_sealed s'"
      "same_outside {log_path s, index_path s} fs fs'" "sync \<longrightarrow> seg_synced fs' s'"
    using seg_append_ok [OF w P(5,9) off nxt' size room' r0] by blast
  define P' where "P' = P\<lparr> p_segments := ss @ [s'], p_next_offset := p_next_offset P + 1 \<rparr>"
  have app: "append_active w fs P key val ts sync = Some (Status_OK, P', fs')"
    using a(1) P(1) by (simp add: append_active_def r P'_def)
  have sb: "m_base_offset s' = m_base_offset s" "m_partition_dir s' = p_dir P" using a(4) P(6) by (simp_all add: same_seg_def)
  have e: "earliest_offset P' = earliest_offset P"
    unfolding P'_def earliest_offset_next by (rule earliest_offset_append [OF P(1) sb(1)])
  have out: "same_outside {log_path s, index_path s, sealed_path s} fs fs'"
    using a(6) by (rule same_outside_mono) auto
  have segs: "segs_rep fs' (p_dir P) (unat (earliest_offset P)) (ss @ [s']) (rss' @ [rs @ [r]])"
    using segs_rep_frame [OF P(3) out P(6,8)] a(2) sb P(4,10) segs_rep_length [OF P(3)] by (simp add: segs_rep_append)
  have un: "unat (p_next_offset P + 1) = unat (p_next_offset P) + 1" using nxt by (simp add: unat_add_small_u64)
  have sealed: "fexists fs' (sealed_path s) = fexists fs (sealed_path s)"
    using same_outsideD(2) [OF a(6), of "sealed_path s"] by simp
  have "only_files fs' (m_partition_dir s) (m_base_offset ` set (ss @ [s'])) (m_base_offset ` set ss)"
    by (rule only_files_frame [OF _ out]) (use rep P(1,6) sb sealed in \<open>auto simp: part_rep_def\<close>)
  then have "part_rep fs' P' (butlast rss @ [last rss @ [r]])"
    using segs P(2,6,7,10) a(5) e un rep dir_ready_cong [OF same_outsideD(3) [OF out]]
    by (simp add: part_rep_def P'_def)
  moreover have "part_meta P rss \<longrightarrow> part_meta P' (butlast rss @ [last rss @ [r]])"
    using P(1,2) a(3) segs_rep_length [OF P(3)] by (auto simp: part_meta_def P'_def list_all2_append)
  moreover have "(sync \<and> part_synced fs P \<longrightarrow> part_synced fs' P') \<and> (sealed_synced fs P \<longrightarrow> sealed_synced fs' P')"
  proof -
    have "seg_synced fs' t" if "t \<in> set ss" "seg_synced fs t" for t
      using that P(6,8,11) by (intro seg_synced_outside [OF that(2) a(6)]) (auto simp: image_iff)
    then show ?thesis using P(1) a(7) by (auto simp: part_synced_def sealed_synced_def P'_def)
  qed
  ultimately show ?thesis using app e by (auto simp: P'_def same_part_def)
qed

lemma wire_record_size:
  assumes "28 + length key + length val \<le> 1048576"
  shows "unat (wire_record_size key val) = 28 + length key + length val" "\<not> wire_record_size key val > MAX_RECORD_SIZE"
proof -
  have "wire_record_size key val = of_nat (28 + length key + length val)"
    by (simp add: wire_record_size_def)
  then show u: "unat (wire_record_size key val) = 28 + length key + length val"
    using assms by (simp only:) (subst unat_of_nat_u32, simp_all)
  show "\<not> wire_record_size key val > MAX_RECORD_SIZE"
    using assms u by (simp add: word_less_nat_alt)
qed

lemma concat_butlast_last: "xs \<noteq> [] \<Longrightarrow> concat (butlast xs) @ last xs = concat xs"
  by (induction xs) auto

text \<open>One record through \<open>prepare_active\<close> and \<open>append_active\<close>.\<close>

lemma prepare_append_ok:
  assumes w: "reliable w" and rep: "part_rep fs P rss" and size: "28 + length key + length val \<le> 1048576"
    and nxt: "unat (p_next_offset P) + 1 < 2 ^ 64"
    and r: "r = \<lparr> r_offset = p_next_offset P, r_timestamp_ms = ts, r_key = key, r_value = val \<rparr>"
  shows "\<exists>P1 fs1 P' fs' rss'. prepare_active w fs P (wire_record_size key val) = Some (Status_OK, P1, fs1) \<and>
    append_active w fs1 P1 key val ts sync = Some (Status_OK, P', fs') \<and>
    p_next_offset P1 = p_next_offset P \<and> p_config P1 = p_config P \<and>
    part_rep fs' P' rss' \<and> concat rss' = concat rss @ [r] \<and> (part_meta P rss \<longrightarrow> part_meta P' rss') \<and>
    (sync \<and> part_synced fs P \<longrightarrow> part_synced fs' P') \<and> (sealed_synced fs P \<longrightarrow> sealed_synced fs' P') \<and> p_next_offset P' = p_next_offset P + 1 \<and> same_part P P'"
proof -
  have n: "unat (wire_record_size key val) = record_size r" "record_size r \<le> 1048576"
    using wire_record_size(1) [OF size] size by (simp_all add: r record_size_def)
  obtain P1 fs1 rss1 where p: "prepare_active w fs P (wire_record_size key val) = Some (Status_OK, P1, fs1)"
      "part_rep fs1 P1 rss1" "concat rss1 = concat rss" "part_meta P rss \<longrightarrow> part_meta P1 rss1"
      "(part_synced fs P \<longrightarrow> part_synced fs1 P1) \<and> (sealed_synced fs P \<longrightarrow> sealed_synced fs1 P1)" "p_next_offset P1 = p_next_offset P" "same_part P P1"
      "length (log_bytes (last rss1)) + record_size r < 2 ^ 32"
    using prepare_active_ok [OF w rep, of "wire_record_size key val"] n by auto
  have r1: "r = \<lparr> r_offset = p_next_offset P1, r_timestamp_ms = ts, r_key = key, r_value = val \<rparr>" using r p(6) by simp
  have nxt1: "unat (p_next_offset P1) + 1 < 2 ^ 64" using nxt p(6) by simp
  let ?rss = "butlast rss1 @ [last rss1 @ [r]]"
  obtain P' fs' where a: "append_active w fs1 P1 key val ts sync = Some (Status_OK, P', fs')" "part_rep fs' P' ?rss"
      "part_meta P1 rss1 \<longrightarrow> part_meta P' ?rss" "(sync \<and> part_synced fs1 P1 \<longrightarrow> part_synced fs' P') \<and> (sealed_synced fs1 P1 \<longrightarrow> sealed_synced fs' P')"
      "p_next_offset P' = p_next_offset P1 + 1" "same_part P1 P'"
    using append_active_ok [OF w p(2) r1 n(2) p(8) nxt1] by blast
  have "rss1 \<noteq> []" using part_rep_nonempty [OF p(2)] by simp
  then have "concat ?rss = concat rss @ [r]" using concat_butlast_last [of rss1] p(3) by simp
  then show ?thesis
    using p a by (intro exI [of _ P1] exI [of _ fs1] exI [of _ P'] exI [of _ fs'] exI [of _ ?rss])
      (simp add: same_part_def)
qed

lemma part_append_ok:
  assumes w: "reliable w" and rep: "part_rep fs P rss" and size: "28 + length key + length val \<le> 1048576"
    and nxt: "unat (p_next_offset P) + 1 < 2 ^ 64"
    and r: "r = \<lparr> r_offset = p_next_offset P, r_timestamp_ms = ts, r_key = key, r_value = val \<rparr>"
  shows "\<exists>P' fs' rss'. part_append_with_timestamp w fs P key val ts = Some (Inr (p_next_offset P), P', fs') \<and>
    part_rep fs' P' rss' \<and> concat rss' = concat rss @ [r] \<and> (part_meta P rss \<longrightarrow> part_meta P' rss') \<and>
    (sync_on_append (p_config P) \<and> part_synced fs P \<longrightarrow> part_synced fs' P') \<and> (sealed_synced fs P \<longrightarrow> sealed_synced fs' P') \<and>
    p_next_offset P' = p_next_offset P + 1 \<and> same_part P P'"
proof -
  obtain P1 fs1 P' fs' rss' where a: "prepare_active w fs P (wire_record_size key val) = Some (Status_OK, P1, fs1)"
    "append_active w fs1 P1 key val ts (sync_on_append (p_config P)) = Some (Status_OK, P', fs')"
    "p_next_offset P1 = p_next_offset P" "p_config P1 = p_config P"
    "part_rep fs' P' rss'" "concat rss' = concat rss @ [r]" "part_meta P rss \<longrightarrow> part_meta P' rss'"
    "sync_on_append (p_config P) \<and> part_synced fs P \<longrightarrow> part_synced fs' P'" "sealed_synced fs P \<longrightarrow> sealed_synced fs' P'" "p_next_offset P' = p_next_offset P + 1" "same_part P P'"
    using prepare_append_ok [OF w rep size nxt r, where sync = "sync_on_append (p_config P)"]
    by (elim exE conjE) (rule that)
  then have "part_append_with_timestamp w fs P key val ts = Some (Inr (p_next_offset P), P', fs')"
    using wire_record_size(2) [OF size] by (simp add: part_append_with_timestamp_def Let_def)
  then show ?thesis using a by blast
qed

section \<open>Batches\<close>

fun batch_records :: "i64 \<Rightarrow> u64 \<Rightarrow> (bytes \<times> bytes) list \<Rightarrow> Record list" where
  "batch_records ts off [] = []"
| "batch_records ts off ((key, val) # batch) =
     \<lparr> r_offset = off, r_timestamp_ms = ts, r_key = key, r_value = val \<rparr> # batch_records ts (off + 1) batch"

lemma length_batch_records [simp]: "length (batch_records ts off batch) = length batch"
  by (induction ts off batch rule: batch_records.induct) auto

definition batch_fits :: "(bytes \<times> bytes) list \<Rightarrow> bool" where
  "batch_fits batch \<longleftrightarrow> (\<forall>(key, val) \<in> set batch. 28 + length key + length val \<le> 1048576)"

lemma append_batch_loop_ok:
  assumes w: "reliable w" and rep: "part_rep fs P rss" and fits: "batch_fits batch"
    and nxt: "unat (p_next_offset P) + length batch < 2 ^ 64"
  shows "\<exists>P' fs' rss'. append_batch_loop w ts batch fs P = Some (Status_OK, P', fs') \<and> part_rep fs' P' rss' \<and>
    concat rss' = concat rss @ batch_records ts (p_next_offset P) batch \<and> (part_meta P rss \<longrightarrow> part_meta P' rss') \<and>
    p_next_offset P' = p_next_offset P + of_nat (length batch) \<and> same_part P P'"
  using rep fits nxt
proof (induction batch arbitrary: fs P rss)
  case Nil
  then show ?case by (intro exI [of _ P] exI [of _ fs] exI [of _ rss]) simp
next
  case (Cons kv batch)
  obtain key val where kv: "kv = (key, val)" by (cases kv)
  define r where "r = \<lparr> r_offset = p_next_offset P, r_timestamp_ms = ts, r_key = key, r_value = val \<rparr>"
  have size: "28 + length key + length val \<le> 1048576" and fits: "batch_fits batch"
    using Cons.prems(2) by (simp_all add: batch_fits_def kv)
  have nxt: "unat (p_next_offset P) + 1 < 2 ^ 64" using Cons.prems(3) by simp
  obtain P1 fs1 P2 fs2 rss2 where a: "prepare_active w fs P (wire_record_size key val) = Some (Status_OK, P1, fs1)"
      "append_active w fs1 P1 key val ts False = Some (Status_OK, P2, fs2)"
      "part_rep fs2 P2 rss2" "concat rss2 = concat rss @ [r]" "part_meta P rss \<longrightarrow> part_meta P2 rss2"
      "p_next_offset P2 = p_next_offset P + 1" "same_part P P2"
    using prepare_append_ok [OF w Cons.prems(1) size nxt r_def, where sync = False] by (elim exE conjE) (rule that)
  have "unat (p_next_offset P2) + length batch < 2 ^ 64"
    using a(6) nxt Cons.prems(3) by (simp add: unat_add_small_u64)
  then obtain P' fs' rss' where l: "append_batch_loop w ts batch fs2 P2 = Some (Status_OK, P', fs')"
      "part_rep fs' P' rss'" "concat rss' = concat rss2 @ batch_records ts (p_next_offset P2) batch"
      "part_meta P2 rss2 \<longrightarrow> part_meta P' rss'" "p_next_offset P' = p_next_offset P2 + of_nat (length batch)" "same_part P2 P'"
    using Cons.IH [OF a(3) fits] by blast
  show ?case
    using a l same_part_trans [OF a(7) l(6)]
    by (intro exI [of _ P'] exI [of _ fs'] exI [of _ rss']) (simp add: kv r_def)
qed

lemma seg_synced_flush_any: "seg_synced fs s \<Longrightarrow> seg_synced (seg_flush w fs t) s"
  by (auto simp: seg_synced_def seg_flush_def fh_flush_def Let_def split: FileHandle.splits)

lemma flush_segments_sel [simp]:
  "fdata (flush_segments w fs ss) q = fdata fs q" "fexists (flush_segments w fs ss) q = fexists fs q"
  "fs_dirs (flush_segments w fs ss) = fs_dirs fs"
  unfolding flush_segments_def by (induction ss arbitrary: fs) simp_all

lemma flush_segments_synced_any: "seg_synced fs s \<Longrightarrow> seg_synced (flush_segments w fs ss) s"
  unfolding flush_segments_def by (induction ss arbitrary: fs) (auto intro: seg_synced_flush_any)

lemma segs_rep_cong:
  assumes "\<And>q. fdata fs' q = fdata fs q" "\<And>q. fexists fs' q = fexists fs q"
  shows "segs_rep fs' dir b ss rss = segs_rep fs dir b ss rss"
  using assms by (induction fs dir b ss rss rule: segs_rep.induct) (simp_all add: seg_rep_def)

lemma part_rep_flush:
  "part_rep fs P rss \<Longrightarrow> part_rep (flush_segments w fs ss) P rss"
  using segs_rep_cong [of "flush_segments w fs ss" fs]
  by (auto simp: part_rep_def only_files_def dir_ready_def)

lemma flush_segments_synced:
  assumes "reliable w" "segs_rep fs dir b ss rss"
  shows "\<forall>s \<in> set ss. seg_synced (flush_segments w fs ss) s"
  using assms(2)
proof (induction ss arbitrary: fs b rss)
  case (Cons s ss)
  then obtain rs rss' where rss: "rss = rs # rss'" by (cases rss) auto
  have "seg_rep fs s rs" using Cons.prems rss by simp
  then have "seg_synced (seg_flush w fs s) s" by (rule seg_synced_flush [OF assms(1)])
  then have "seg_synced (flush_segments w (seg_flush w fs s) ss) s" by (rule flush_segments_synced_any)
  moreover have "segs_rep (seg_flush w fs s) dir (b + length rs) ss rss'"
    using Cons.prems rss segs_rep_cong [of "seg_flush w fs s" fs] by simp
  then have "\<forall>t \<in> set ss. seg_synced (flush_segments w (seg_flush w fs s) ss) t" by (rule Cons.IH)
  ultimately show ?case by (simp add: flush_segments_def)
qed simp

lemma part_synced_flush:
  "reliable w \<Longrightarrow> part_rep fs P rss \<Longrightarrow> part_synced (flush_segments w fs (p_segments P)) P"
  using flush_segments_synced by (auto simp: part_rep_def part_synced_def)

lemma append_batch_ok:
  assumes w: "reliable w" and rep: "part_rep fs P rss" and fits: "batch_fits batch" and ne: "batch \<noteq> []"
    and nxt: "unat (p_next_offset P) + length batch < 2 ^ 64"
  shows "\<exists>P' fs' rss'. append_batch w ts fs P batch = Some (Inr (p_next_offset P), P', fs') \<and> part_rep fs' P' rss' \<and>
    concat rss' = concat rss @ batch_records ts (p_next_offset P) batch \<and> (part_meta P rss \<longrightarrow> part_meta P' rss') \<and>
    (sync_on_append (p_config P) \<longrightarrow> part_synced fs' P') \<and>
    p_next_offset P' = p_next_offset P + of_nat (length batch) \<and> same_part P P'"
proof -
  have "find (\<lambda>(key, val). MAX_RECORD_SIZE < wire_record_size key val) batch = None"
    using fits wire_record_size(2) by (auto simp: find_None_iff batch_fits_def)
  moreover obtain P' fs' rss' where l: "append_batch_loop w ts batch fs P = Some (Status_OK, P', fs')"
      "part_rep fs' P' rss'" "concat rss' = concat rss @ batch_records ts (p_next_offset P) batch"
      "part_meta P rss \<longrightarrow> part_meta P' rss'" "p_next_offset P' = p_next_offset P + of_nat (length batch)" "same_part P P'"
    using append_batch_loop_ok [OF w rep fits nxt] by blast
  ultimately have "append_batch w ts fs P batch = Some (Inr (p_next_offset P), P',
      if sync_on_append (p_config P) then flush_segments w fs' (p_segments P') else fs')"
    using ne by (simp add: append_batch_def same_part_def)
  then show ?thesis
    using l part_rep_flush [OF l(2)] part_synced_flush [OF w l(2)]
    by (intro exI [of _ P'] exI [of _ "if sync_on_append (p_config P) then flush_segments w fs' (p_segments P') else fs'"]
        exI [of _ rss']) simp
qed

end
