(* ===== verification/PartitionRead.thy ===== *)
theory PartitionRead
  imports PartitionLog
begin

text \<open>
  Reading a partition. \<open>read_list\<close> is the loop of \<^verbatim>\<open>Partition::read\<close> on a plain list of records;
  the index lookup, the positions and the file reads of the code are proved to compute it on
  the concatenation of the segments, and on a log with consecutive offsets it is a slice cut
  off by the message and byte limits.
\<close>

section \<open>The loop on lists\<close>

fun read_list ::
  "u64 \<Rightarrow> nat \<Rightarrow> nat \<Rightarrow> Record list \<Rightarrow> Record list \<Rightarrow> nat \<Rightarrow> nat \<Rightarrow> ReadResult + Record list \<times> nat \<times> nat" where
  "read_list start mm mb [] recs tb tm = Inr (recs, tb, tm)"
| "read_list start mm mb (r # rs) recs tb tm =
     (if r_offset r < start then read_list start mm mb rs recs tb tm
      else if Suc tm \<ge> mm \<or> tb + record_size r \<ge> mb
      then Inl \<lparr> rr_records = recs @ [r], rr_status = Status_OK \<rparr>
      else read_list start mm mb rs (recs @ [r]) (tb + record_size r) (Suc tm))"

fun take_limit :: "nat \<Rightarrow> nat \<Rightarrow> nat \<Rightarrow> nat \<Rightarrow> Record list \<Rightarrow> Record list" where
  "take_limit mm mb tb tm [] = []"
| "take_limit mm mb tb tm (r # rs) =
     r # (if Suc tm \<ge> mm \<or> tb + record_size r \<ge> mb then []
          else take_limit mm mb (tb + record_size r) (Suc tm) rs)"

definition result_of :: "ReadResult + Record list \<times> nat \<times> nat \<Rightarrow> ReadResult" where
  "result_of r = (case r of Inl res \<Rightarrow> res | Inr (recs, tb, tm) \<Rightarrow> \<lparr> rr_records = recs, rr_status = Status_OK \<rparr>)"

lemma read_list_append:
  "read_list start mm mb (xs @ ys) recs tb tm =
     (case read_list start mm mb xs recs tb tm of
        Inl res \<Rightarrow> Inl res | Inr (recs', tb', tm') \<Rightarrow> read_list start mm mb ys recs' tb' tm')"
  by (induction start mm mb xs recs tb tm rule: read_list.induct) auto

lemma read_list_skip:
  "\<forall>r \<in> set xs. r_offset r < start \<Longrightarrow> read_list start mm mb (xs @ ys) recs tb tm = read_list start mm mb ys recs tb tm"
  by (induction xs) auto

lemma read_list_limit:
  "\<forall>r \<in> set xs. start \<le> r_offset r \<Longrightarrow>
   result_of (read_list start mm mb xs recs tb tm) = \<lparr> rr_records = recs @ take_limit mm mb tb tm xs, rr_status = Status_OK \<rparr>"
proof (induction mm mb tb tm xs arbitrary: recs rule: take_limit.induct)
  case (2 mm mb tb tm r rs)
  then show ?case by (auto simp: result_of_def not_less)
qed (simp add: result_of_def)

text \<open>What the limits guarantee.\<close>

lemma take_limit_prefix: "\<exists>n. take_limit mm mb tb tm xs = take n xs \<and> (xs \<noteq> [] \<longrightarrow> 0 < n)"
proof (induction mm mb tb tm xs rule: take_limit.induct)
  case (2 mm mb tb tm r rs)
  show ?case
  proof (cases "Suc tm \<ge> mm \<or> tb + record_size r \<ge> mb")
    case True
    then show ?thesis by (intro exI [of _ 1]) auto
  next
    case False
    then obtain n where "take_limit mm mb (tb + record_size r) (Suc tm) rs = take n rs" using 2 by blast
    then show ?thesis using False by (intro exI [of _ "Suc n"]) simp
  qed
qed simp

lemma take_limit_count: "tm < mm \<Longrightarrow> length (take_limit mm mb tb tm xs) + tm \<le> mm"
  by (induction mm mb tb tm xs rule: take_limit.induct) auto

lemma take_limit_bytes:
  "xs \<noteq> [] \<Longrightarrow> tb < mb \<Longrightarrow> tb + length (log_bytes (butlast (take_limit mm mb tb tm xs))) < mb"
proof (induction mm mb tb tm xs rule: take_limit.induct)
  case (2 mm mb tb tm r rs)
  then show ?case by (cases rs) (auto simp: not_le)
qed simp

section \<open>One segment\<close>

lemma read_segment_list:
  assumes w: "reliable w" and rep: "seg_rep fs s rs"
  shows "i \<le> length rs \<Longrightarrow> unat pos = pos_of rs i \<Longrightarrow>
    read_segment w fs s start mm mb pos recs tb tm = Some (read_list start mm mb (drop i rs) recs tb tm)"
proof (induction "length rs - i" arbitrary: i pos recs tb tm)
  case 0
  then have "i = length rs" by simp
  then have "\<not> pos < ucast (m_log_size_bytes s)"
    using 0 rep by (simp add: word_less_nat_alt seg_rep_def unat_of_nat_u32)
  then show ?case using \<open>i = length rs\<close> by (simp add: read_segment.simps)
next
  case (Suc n)
  then have i: "i < length rs" by simp
  let ?r = "rs ! i"
  have d: "drop i rs = ?r # drop (Suc i) rs" using i by (simp add: Cons_nth_drop_Suc)
  have bound: "length (log_bytes rs) < 4294967296" and msz: "unat (m_log_size_bytes s) = length (log_bytes rs)"
    and size: "record_size ?r \<le> 1048580"
    using rep i by (simp_all add: seg_rep_def unat_of_nat_u32)
  have fit: "pos_of rs i + record_size ?r \<le> length (log_bytes rs)" by (rule pos_of_less [OF i])
  have lt: "pos < ucast (m_log_size_bytes s)"
  proof -
    have "pos_of rs i + 28 \<le> length (log_bytes rs)" using fit by (rule order_trans [rotated]) simp
    then show ?thesis using Suc.prems(2) msz by (simp add: word_less_nat_alt)
  qed
  define nb where "nb = (4 + 24 + of_nat (length (r_key ?r) + length (r_value ?r)) :: u32)"
  have nbeq: "28 + (of_nat (length (r_key ?r)) + of_nat (length (r_value ?r))) = nb" by (simp add: nb_def)
  have nb: "unat nb = record_size ?r"
  proof -
    have "nb = of_nat (record_size ?r)" by (simp add: nb_def record_size_def)
    then show ?thesis using size by (simp only:) (subst unat_of_nat_u32, simp_all)
  qed
  have pos': "unat (pos + ucast nb) = pos_of rs (Suc i)"
    using nb fit bound Suc.prems(2) i by (simp add: unat_add_small_u64 pos_of_Suc)
  have IH: "read_segment w fs s start mm mb (pos + ucast nb) recs' tb' tm' =
      Some (read_list start mm mb (drop (Suc i) rs) recs' tb' tm')" for recs' tb' tm'
    using Suc.hyps(1) [of "Suc i" "pos + ucast nb"] Suc.hyps(2) i pos' by simp
  show ?case
    unfolding read_segment.simps [of w fs s start mm mb pos] d
    using lt read_record_at_rep [OF w rep i Suc.prems(2)] IH nb
    by (simp add: nbeq Let_def)
qed

text \<open>Starting from the position the index gives, the whole segment is read.\<close>

lemma read_segment_from_index:
  assumes w: "reliable w" and rep: "seg_rep fs s rs"
    and t: "rs \<noteq> [] \<longrightarrow> unat start < unat (m_base_offset s) + length rs"
  shows "read_segment w fs s start mm mb (ucast (lookup_file_position s start)) recs tb tm =
    Some (read_list start mm mb rs recs tb tm)"
proof (cases "rs = []")
  case True
  have "m_index s = []" using rep True by (simp add: seg_rep_def index_ok_def)
  then have "lookup_file_position s start = 0" by (simp add: lookup_file_position_def lookup_def)
  then show ?thesis using read_segment_list [OF w rep, of 0] by simp
next
  case False
  then obtain i where i: "i < length rs" "lookup_file_position s start = of_nat (pos_of rs i)"
      "i = 0 \<or> unat (m_base_offset s) + i \<le> unat start"
    using lookup_file_position_rep [OF rep False] t by blast
  have "pos_of rs i < 4294967296"
    using pos_of_le [of i rs] i(1) rep by (simp add: seg_rep_def)
  then have "unat (ucast (lookup_file_position s start) :: u64) = pos_of rs i"
    by (simp add: i(2) unat_of_nat_u32)
  then have "read_segment w fs s start mm mb (ucast (lookup_file_position s start)) recs tb tm =
      Some (read_list start mm mb (drop i rs) recs tb tm)"
    using i(1) by (intro read_segment_list [OF w rep]) simp_all
  moreover have "\<forall>r \<in> set (take i rs). r_offset r < start"
  proof -
    have "r_offset (rs ! j) < start" if "j < i" for j
      using that i unat_offset [of "m_base_offset s" rs j] rep by (auto simp: seg_rep_def word_less_nat_alt)
    then show ?thesis using i(1) by (auto simp: in_set_conv_nth)
  qed
  then have "read_list start mm mb (drop i rs) recs tb tm = read_list start mm mb rs recs tb tm"
    using read_list_skip [of "take i rs" start mm mb "drop i rs" recs tb tm] by simp
  ultimately show ?thesis by simp
qed

section \<open>The whole partition\<close>

lemma read_segments_list:
  assumes "reliable w" "segs_rep fs dir b ss rss"
    and "\<forall>rs rss'. rss = rs # rss' \<and> rs \<noteq> [] \<longrightarrow> unat start < b + length rs"
  shows "read_segments w fs start mm mb ss recs tb tm = Some (result_of (read_list start mm mb (concat rss) recs tb tm))"
  using assms(2,3)
proof (induction ss arbitrary: b rss recs tb tm)
  case Nil
  then show ?case by (cases rss) (simp_all add: result_of_def)
next
  case (Cons s ss)
  obtain rs rss' where rss: "rss = rs # rss'" using Cons.prems(1) by (cases rss) auto
  have s: "seg_rep fs s rs" "unat (m_base_offset s) = b" "ss \<noteq> [] \<longrightarrow> rs \<noteq> []" "segs_rep fs dir (b + length rs) ss rss'"
    using Cons.prems(1) rss by simp_all
  have rd: "read_segment w fs s start mm mb (ucast (lookup_file_position s start)) recs tb tm =
      Some (read_list start mm mb rs recs tb tm)"
    by (rule read_segment_from_index [OF assms(1) s(1)]) (use Cons.prems(2) rss s(2) in auto)
  have "unat start < b + length rs + length rs'" if "rss' = rs' # rss''" for rs' rss''
    using that s(3,4) Cons.prems(2) rss by (cases ss) (auto simp: trans_less_add1)
  then have "read_segments w fs start mm mb ss recs' tb' tm' = Some (result_of (read_list start mm mb (concat rss') recs' tb' tm'))"
    for recs' tb' tm'
    using Cons.IH [OF s(4)] by blast
  then show ?case
    by (auto simp: rd rss read_list_append result_of_def split: sum.splits)
qed

lemma segs_rep_short:
  "segs_rep fs dir b [] rss \<Longrightarrow> rss = []" "segs_rep fs dir b [s] rss \<Longrightarrow> \<exists>rs. rss = [rs]"
  by (cases rss rule: remdups_adj.cases; simp)+

lemma find_segment_rep:
  assumes "segs_rep fs dir b ss rss" "b \<le> unat start" "unat start < b + length (concat rss)"
  defines "k \<equiv> find_segment ss start"
  shows "\<exists>b'. segs_rep fs dir b' (drop k ss) (drop k rss) \<and> b' = b + length (concat (take k rss)) \<and> b' \<le> unat start \<and>
    (\<forall>rs rss'. drop k rss = rs # rss' \<longrightarrow> unat start < b' + length rs)"
  using assms(1-3) unfolding k_def
proof (induction ss start arbitrary: b rss rule: find_segment.induct)
  case (1 s t ss start)
  obtain rs rs' rss' where rss: "rss = rs # rs' # rss'" using "1.prems"(1) by (cases rss rule: remdups_adj.cases) auto
  have t: "unat (m_base_offset t) = b + length rs" using "1.prems"(1) rss by simp
  show ?case
  proof (cases "m_base_offset t \<le> start")
    case True
    then have "b + length rs \<le> unat start" using t by (simp add: word_le_nat_alt)
    then show ?thesis using "1.IH" [OF True, of "b + length rs" "rs' # rss'"] "1.prems" True rss by (auto simp: add.assoc)
  next
    case False
    then have "unat start < b + length rs" using t by (simp add: word_le_nat_alt)
    then show ?thesis using False "1.prems" rss by auto
  qed
qed (auto dest!: segs_rep_short)

lemma segs_rep_offsets:
  assumes "segs_rep fs dir b ss rss" "j < length (concat rss)"
  shows "unat (r_offset (concat rss ! j)) = b + j"
  using assms
proof (induction fs dir b ss rss arbitrary: j rule: segs_rep.induct)
  case (2 fs dir b s ss rs rss)
  show ?case
  proof (cases "j < length rs")
    case True
    then show ?thesis using 2 unat_offset [of "m_base_offset s" rs j] by (simp add: nth_append seg_rep_def)
  next
    case False
    then show ?thesis using 2 by (simp add: nth_append)
  qed
qed auto

lemma read_list_from:
  assumes "\<And>j. j < length xs \<Longrightarrow> unat (r_offset (xs ! j)) = b + j" "b \<le> unat start"
  shows "result_of (read_list start mm mb xs [] 0 0) =
    \<lparr> rr_records = take_limit mm mb 0 0 (drop (unat start - b) xs), rr_status = Status_OK \<rparr>"
proof -
  let ?k = "unat start - b"
  have "\<forall>r \<in> set (take ?k xs). r_offset r < start"
    using assms by (auto simp: in_set_conv_nth word_less_nat_alt)
  then have "read_list start mm mb xs [] 0 0 = read_list start mm mb (drop ?k xs) [] 0 0"
    using read_list_skip [of "take ?k xs" start mm mb "drop ?k xs"] by simp
  moreover have "\<forall>r \<in> set (drop ?k xs). start \<le> r_offset r"
    using assms by (auto simp: in_set_conv_nth word_le_nat_alt)
  ultimately show ?thesis using read_list_limit by fastforce
qed

lemma part_read_range:
  assumes w: "reliable w" and rep: "part_rep fs P rss" and lo: "earliest_offset P \<le> start" and hi: "start \<le> p_next_offset P"
  shows "part_read w fs P start mm mb = Some \<lparr> rr_records =
      take_limit mm mb 0 0 (drop (unat start - unat (earliest_offset P)) (concat rss)), rr_status = Status_OK \<rparr>"
proof (cases "start = p_next_offset P")
  case True
  then show ?thesis using rep by (simp add: part_read_def part_rep_def)
next
  case False
  let ?e = "unat (earliest_offset P)" and ?k = "find_segment (p_segments P) start"
  have segs: "segs_rep fs (p_dir P) ?e (p_segments P) rss" using rep by (simp add: part_rep_def)
  have n: "?e \<le> unat start" "unat start < ?e + length (concat rss)"
    using False lo hi rep by (auto simp: part_rep_def word_le_nat_alt word_less_nat_alt word_unat_eq_iff)
  obtain b where b: "segs_rep fs (p_dir P) b (drop ?k (p_segments P)) (drop ?k rss)"
      "b = ?e + length (concat (take ?k rss))" "b \<le> unat start"
      "\<forall>rs rss'. drop ?k rss = rs # rss' \<longrightarrow> unat start < b + length rs"
    using find_segment_rep [OF segs n] by blast
  have "read_segments w fs start mm mb (drop ?k (p_segments P)) [] 0 0 =
      Some (result_of (read_list start mm mb (concat (drop ?k rss)) [] 0 0))"
    using read_segments_list [OF w b(1)] b(4) by blast
  also have "result_of (read_list start mm mb (concat (drop ?k rss)) [] 0 0) =
      \<lparr> rr_records = take_limit mm mb 0 0 (drop (unat start - b) (concat (drop ?k rss))), rr_status = Status_OK \<rparr>"
    by (rule read_list_from) (use segs_rep_offsets [OF b(1)] b(3) in auto)
  also have "drop (unat start - b) (concat (drop ?k rss)) = drop (unat start - ?e) (concat rss)"
  proof -
    have "concat rss = concat (take ?k rss) @ concat (drop ?k rss)" by (metis append_take_drop_id concat_append)
    then show ?thesis using b(2,3) by simp
  qed
  finally have "read_segments w fs start mm mb (drop ?k (p_segments P)) [] 0 0 =
      Some \<lparr> rr_records = take_limit mm mb 0 0 (drop (unat start - ?e) (concat rss)), rr_status = Status_OK \<rparr>" .
  moreover have "\<not> (p_next_offset P < start \<or> start < earliest_offset P)" using lo hi by auto
  ultimately show ?thesis unfolding part_read_def using False by (simp only: if_False)
qed

section \<open>An example partition\<close>

definition sample_part :: Partition where
  "sample_part = (make_Partition 0 [''topic-0''] default_StorageConfig)\<lparr> p_segments := [sample_seg] \<rparr>"

lemma sample_part_sel [simp]:
  "p_segments sample_part = [sample_seg]" "p_next_offset sample_part = 0" "p_dir sample_part = [''topic-0'']"
  "p_config sample_part = default_StorageConfig" "earliest_offset sample_part = 0"
  by (simp_all add: sample_part_def make_Partition_def earliest_offset_def)

lemma sample_part_rep: "part_rep (sample_fs []) sample_part [[]]"
proof -
  have "m_partition_dir sample_seg = [''topic-0'']" by (simp add: sample_seg_def make_LogSegment_def Let_def)
  moreover have "dir_ready (sample_fs []) [''topic-0'']" by (simp add: dir_ready_def sample_fs_def)
  moreover have "only_files (sample_fs []) [''topic-0''] {0} {}"
    by (auto simp: only_files_def sample_fs_def fexists_def seg_paths sample_seg_def make_LogSegment_def Let_def split: if_splits)
  ultimately show ?thesis using sample_rep by (simp add: part_rep_def)
qed

lemma sample_part_meta: "part_meta sample_part [[]]"
  by (simp add: part_meta_def seg_meta_def sample_seg_def make_LogSegment_def Let_def)

lemma sample_two_segments:
  "\<exists>fs P. part_rep fs P [[sample_record], []] \<and> part_meta P [[sample_record], []] \<and> p_next_offset P = 1 \<and> earliest_offset P = 0"
proof -
  have r: "sample_record = \<lparr> r_offset = p_next_offset sample_part, r_timestamp_ms = 5, r_key = [1], r_value = [2, 3] \<rparr>"
    by (simp add: sample_record_def)
  obtain P fs where p: "part_rep fs P [[sample_record]]" "part_meta P [[sample_record]]" "p_next_offset P = 1" "earliest_offset P = 0"
    using append_active_ok [OF reliable_ideal_os sample_part_rep r, where sync = False] sample_part_meta
    by (auto simp: same_part_def)
  then obtain P' fs' where "part_rep fs' P' ([[sample_record]] @ [[]])" "part_meta P' ([[sample_record]] @ [[]])"
      "p_next_offset P' = p_next_offset P" "earliest_offset P' = earliest_offset P"
    using roll_ok [OF reliable_ideal_os p(1)] by auto
  then show ?thesis using p by auto
qed

section \<open>Properties\<close>

text \<open>
  Appending refines the abstract log. In a partition that represents the log \<open>concat rss\<close>,
  \<^verbatim>\<open>Partition::append_with_timestamp\<close> of a record within the size limit returns the next offset;
  the partition then represents the log with exactly that record at the end (rolling to a new
  segment when the active one is full), the next offset is one more, the earliest offset is
  unchanged, reading at the returned offset yields the record, and with \<^verbatim>\<open>sync_on_append\<close> a
  durable partition stays durable, and in any case every sealed segment is durable.
\<close>

lemma partition_append_refines:
  assumes "reliable w" "part_rep fs P rss" "28 + length key + length val \<le> unat MAX_RECORD_SIZE"
    and "unat (p_next_offset P) + 1 < 2 ^ 64"
  shows "\<exists>P' fs' rss' r. part_append_with_timestamp w fs P key val ts = Some (Inr (p_next_offset P), P', fs') \<and>
    r = \<lparr> r_offset = p_next_offset P, r_timestamp_ms = ts, r_key = key, r_value = val \<rparr> \<and>
    part_rep fs' P' rss' \<and> concat rss' = concat rss @ [r] \<and> p_next_offset P' = p_next_offset P + 1 \<and>
    earliest_offset P' = earliest_offset P \<and>
    part_read w fs' P' (p_next_offset P) mm mb = Some \<lparr> rr_records = [r], rr_status = Status_OK \<rparr> \<and>
    (sync_on_append (p_config P) \<and> part_synced fs P \<longrightarrow> part_synced fs' P') \<and>
    (sealed_synced fs P \<longrightarrow> sealed_synced fs' P')"
proof -
  define r where "r = \<lparr> r_offset = p_next_offset P, r_timestamp_ms = ts, r_key = key, r_value = val \<rparr>"
  have size: "28 + length key + length val \<le> 1048576" using assms(3) by simp
  obtain P' fs' rss' where a: "part_append_with_timestamp w fs P key val ts = Some (Inr (p_next_offset P), P', fs')"
      "part_rep fs' P' rss'" "concat rss' = concat rss @ [r]" "p_next_offset P' = p_next_offset P + 1" "same_part P P'"
      "sync_on_append (p_config P) \<and> part_synced fs P \<longrightarrow> part_synced fs' P'" "sealed_synced fs P \<longrightarrow> sealed_synced fs' P'"
    using part_append_ok [OF assms(1,2) size assms(4) r_def] by blast
  have e: "earliest_offset P' = earliest_offset P" using a(5) by (simp add: same_part_def)
  have n: "unat (p_next_offset P) = unat (earliest_offset P) + length (concat rss)"
    using assms(2) by (simp add: part_rep_def)
  have le: "earliest_offset P' \<le> p_next_offset P" "p_next_offset P \<le> p_next_offset P'"
    using n e a(4) assms(4) by (simp_all add: word_le_nat_alt unat_add_small_u64)
  have "part_read w fs' P' (p_next_offset P) mm mb = Some \<lparr> rr_records = [r], rr_status = Status_OK \<rparr>"
    using part_read_range [OF assms(1) a(2) le] n e a(3) by simp
  then show ?thesis using a e r_def by blast
qed

text \<open>
  C7. A batch is appended whole: for a non-empty batch of records within the size limit,
  \<^verbatim>\<open>Partition::append_batch\<close> returns the old next offset, the log grows by the records of the
  batch in order with consecutive offsets and one timestamp, and with \<^verbatim>\<open>sync_on_append\<close> every
  segment is durable afterwards.
\<close>

theorem partition_batch_refines:
  assumes "reliable w" "part_rep fs P rss" "batch \<noteq> []" "unat (p_next_offset P) + length batch < 2 ^ 64"
    and "\<forall>(key, val) \<in> set batch. 28 + length key + length val \<le> unat MAX_RECORD_SIZE"
  shows "\<exists>P' fs' rss'. append_batch w now_ms fs P batch = Some (Inr (p_next_offset P), P', fs') \<and> part_rep fs' P' rss' \<and>
    concat rss' = concat rss @ batch_records now_ms (p_next_offset P) batch \<and>
    p_next_offset P' = p_next_offset P + of_nat (length batch) \<and> (sync_on_append (p_config P) \<longrightarrow> part_synced fs' P')"
proof -
  have "batch_fits batch" using assms(5) by (simp add: batch_fits_def)
  then show ?thesis using append_batch_ok [OF assms(1,2) _ assms(3,4)] by blast
qed

theorem partition_batch_refines_witness:
  "\<exists>P' fs' rss'. append_batch ideal_os 4 (sample_fs []) sample_part [([1], [2]), ([], [3])] = Some (Inr (p_next_offset sample_part), P', fs') \<and>
    part_rep fs' P' rss' \<and> concat rss' = concat [[]] @ batch_records 4 (p_next_offset sample_part) [([1], [2]), ([], [3])] \<and>
    p_next_offset P' = p_next_offset sample_part + of_nat (length [([1 :: u8], [2 :: u8]), ([], [3])]) \<and>
    (sync_on_append (p_config sample_part) \<longrightarrow> part_synced fs' P')"
  by (rule partition_batch_refines [OF reliable_ideal_os sample_part_rep]) simp_all

text \<open>
  C8. Reading refines a slice of the abstract log, for every start offset: the records from the
  start offset on, cut off after the record that reaches the message or the byte limit; an
  empty result at the end of the log; and \<^verbatim>\<open>OffsetOutOfRange\<close> with no records outside.
\<close>

theorem partition_read_refines:
  assumes "reliable w" "part_rep fs P rss"
  shows "\<exists>st. part_read w fs P start mm mb =
    (if earliest_offset P \<le> start \<and> start \<le> p_next_offset P
     then Some \<lparr> rr_records = take_limit mm mb 0 0 (drop (unat start - unat (earliest_offset P)) (concat rss)), rr_status = Status_OK \<rparr>
     else Some \<lparr> rr_records = [], rr_status = st \<rparr>) \<and> code st = OffsetOutOfRange"
proof (cases "earliest_offset P \<le> start \<and> start \<le> p_next_offset P")
  case True
  then show ?thesis using part_read_range [OF assms] by (intro exI [of _ "Status OffsetOutOfRange ''''"]) simp
next
  case False
  have "earliest_offset P \<le> p_next_offset P" using assms(2) by (simp add: part_rep_def word_le_nat_alt)
  then show ?thesis using False by (auto simp: part_read_def)
qed

theorem partition_read_refines_witness:
  "\<exists>st. part_read ideal_os (sample_fs []) sample_part 1 5 100 =
    (if earliest_offset sample_part \<le> 1 \<and> 1 \<le> p_next_offset sample_part
     then Some \<lparr> rr_records = take_limit 5 100 0 0 (drop (unat (1 :: u64) - unat (earliest_offset sample_part)) (concat [[]])), rr_status = Status_OK \<rparr>
     else Some \<lparr> rr_records = [], rr_status = st \<rparr>) \<and> code st = OffsetOutOfRange"
  by (rule partition_read_refines [OF reliable_ideal_os sample_part_rep])

text \<open>
  The limits of a read: what is returned is a prefix of the log from the start offset, not
  empty unless the start is the end of the log, with at most \<^verbatim>\<open>max_messages\<close> records (if that
  is positive), and all records but the last one together stay below \<^verbatim>\<open>max_bytes\<close>.
\<close>

lemma partition_read_limits:
  assumes "reliable w" "part_rep fs P rss" "earliest_offset P \<le> start" "start \<le> p_next_offset P" "0 < mm" "0 < mb"
  shows "\<exists>n. part_read w fs P start mm mb = Some \<lparr> rr_records =
      take n (drop (unat start - unat (earliest_offset P)) (concat rss)), rr_status = Status_OK \<rparr> \<and> n \<le> mm \<and>
    (start \<noteq> p_next_offset P \<longrightarrow> 0 < n) \<and>
    length (log_bytes (butlast (take n (drop (unat start - unat (earliest_offset P)) (concat rss))))) < mb"
proof -
  let ?xs = "drop (unat start - unat (earliest_offset P)) (concat rss)"
  obtain n where n: "take_limit mm mb 0 0 ?xs = take n ?xs" "?xs \<noteq> [] \<longrightarrow> 0 < n" using take_limit_prefix by blast
  define k where "k = min n (length ?xs)"
  have k: "take n ?xs = take k ?xs" by (cases "n \<le> length ?xs") (simp_all add: k_def min_def)
  have "length (take_limit mm mb 0 0 ?xs) \<le> mm" using take_limit_count [of 0 mm mb 0 ?xs] assms(5) by simp
  then have "k \<le> mm" by (simp add: n(1) k_def)
  moreover have "start \<noteq> p_next_offset P \<longrightarrow> ?xs \<noteq> []"
    using assms(2-4) by (auto simp: part_rep_def word_le_nat_alt word_unat_eq_iff)
  then have "start \<noteq> p_next_offset P \<longrightarrow> 0 < k" using n(2) by (auto simp: k_def)
  moreover have "length (log_bytes (butlast (take k ?xs))) < mb"
    using take_limit_bytes [of ?xs 0 mb mm 0] n(1) k assms(6) by (cases "?xs = []") auto
  ultimately show ?thesis
    using part_read_range [OF assms(1-4), of mm mb] n(1) k by (intro exI [of _ k]) simp
qed

end
