(* ===== verification/Retention.thy ===== *)
theory Retention
  imports PartitionRead
begin

text \<open>
  Retention on one partition, \<^verbatim>\<open>Partition::scan_and_delete_segments\<close>: what it deletes is a prefix
  of the segments without the active one, the rest of the log is unchanged and readable, age
  and size limits are met.
\<close>

section \<open>Deleting files\<close>

lemma remove_candidate_sel:
  assumes "reliable w"
  shows "fexists (remove_candidate w fs (candidate s)) q \<longleftrightarrow> q \<notin> seg_files s \<and> fexists fs q"
    and "q \<notin> seg_files s \<Longrightarrow> get_file (remove_candidate w fs (candidate s)) q = get_file fs q"
    and "fs_dirs (remove_candidate w fs (candidate s)) = fs_dirs fs"
proof -
  have d: "os_DeleteFile w fs p" for fs p using assms by (simp add: reliable_def)
  show "fexists (remove_candidate w fs (candidate s)) q \<longleftrightarrow> q \<notin> seg_files s \<and> fexists fs q"
    and "q \<notin> seg_files s \<Longrightarrow> get_file (remove_candidate w fs (candidate s)) q = get_file fs q"
    by (auto simp: remove_candidate_def candidate_def seg_files_def fexists_remove [OF d] get_file_remove [OF d])
  show "fs_dirs (remove_candidate w fs (candidate s)) = fs_dirs fs"
    by (simp add: remove_candidate_def fs_remove_def)
qed

lemma remove_candidates_sel:
  assumes "reliable w"
  shows "fexists (foldl (remove_candidate w) fs (map candidate ss)) q \<longleftrightarrow> (\<forall>s \<in> set ss. q \<notin> seg_files s) \<and> fexists fs q"
    and "\<forall>s \<in> set ss. q \<notin> seg_files s \<Longrightarrow> get_file (foldl (remove_candidate w) fs (map candidate ss)) q = get_file fs q"
    and "fs_dirs (foldl (remove_candidate w) fs (map candidate ss)) = fs_dirs fs"
  by (induction ss arbitrary: fs) (auto simp: remove_candidate_sel [OF assms])

section \<open>How much is deleted\<close>

lemma count_expired_less: "ss \<noteq> [] \<Longrightarrow> count_expired now ms ss < length ss"
  by (induction now ms ss rule: count_expired.induct) (auto simp: Let_def)

lemma count_oversize_less: "ss \<noteq> [] \<Longrightarrow> count_oversize t rb ss < length ss"
  by (induction t rb ss rule: count_oversize.induct) auto

lemma deletable_count_less: "p_segments P \<noteq> [] \<Longrightarrow> deletable_count now ms rb P < length (p_segments P)"
  using count_expired_less [of "p_segments P" now ms]
  by (auto simp: deletable_count_def Let_def)

lemma count_expired_nth:
  "i < count_expired now ms ss \<Longrightarrow> sint (m_max_timestamp_ms (ss ! i)) > 0 \<and>
     sint now - sint (m_max_timestamp_ms (ss ! i)) > sint ms"
proof (induction now ms ss arbitrary: i rule: count_expired.induct)
  case (1 now ms s t ss)
  then show ?case by (cases i) (auto simp: Let_def split: if_splits)
qed auto

lemma count_expired_all:
  "\<forall>s \<in> set (butlast ss). sint (m_max_timestamp_ms s) > 0 \<and> sint now - sint (m_max_timestamp_ms s) > sint ms \<Longrightarrow>
   count_expired now ms ss = length ss - 1"
  by (induction now ms ss rule: count_expired.induct) (auto simp: Let_def)

lemma max_ts_ge: "r \<in> set rs \<Longrightarrow> sint (r_timestamp_ms r) \<le> sint (max_ts m rs)"
proof -
  have m: "sint m \<le> sint (max_ts m rs)" for m rs
    by (induction m rs rule: max_ts.induct) (auto split: if_splits)
  show "r \<in> set rs \<Longrightarrow> sint (r_timestamp_ms r) \<le> sint (max_ts m rs)"
  proof (induction m rs rule: max_ts.induct)
    case (2 m r' rs)
    then show ?case using m [of "if sint (r_timestamp_ms r') > sint m then r_timestamp_ms r' else m" rs]
      by (auto split: if_splits)
  qed simp
qed

text \<open>The byte totals do not wrap: a segment is below 4 GiB.\<close>

definition seg_bytes :: "LogSegment list \<Rightarrow> nat" where
  "seg_bytes ss = sum_list (map (\<lambda>s. unat (m_log_size_bytes s)) ss)"

lemma foldl_total:
  "unat a + seg_bytes ss < 2 ^ 64 \<Longrightarrow>
   unat (foldl (\<lambda>t seg. t + ucast (m_log_size_bytes seg)) (a :: u64) ss) = unat a + seg_bytes ss"
proof (induction ss arbitrary: a)
  case (Cons s ss)
  have "unat (a + ucast (m_log_size_bytes s)) = unat a + unat (m_log_size_bytes s)"
    using Cons.prems by (simp add: seg_bytes_def unat_add_small_u64)
  then show ?case using Cons by (simp add: seg_bytes_def)
qed (simp add: seg_bytes_def)

lemma count_oversize_enough:
  assumes "unat t = seg_bytes ss" "ss \<noteq> []"
  shows "seg_bytes (drop (count_oversize t rb ss) ss) \<le> unat rb \<or> count_oversize t rb ss = length ss - 1"
  using assms
proof (induction t rb ss rule: count_oversize.induct)
  case (1 t rb s s' ss)
  show ?case
  proof (cases "t > rb")
    case True
    have "unat (t - ucast (m_log_size_bytes s)) = seg_bytes (s' # ss)"
      using "1.prems" by (subst unat_sub_small) (simp_all add: seg_bytes_def)
    then show ?thesis using "1.IH" [OF True] True by auto
  qed (use "1.prems" in \<open>auto simp: word_less_nat_alt\<close>)
qed auto

lemma count_oversize_needed:
  assumes "unat t = seg_bytes ss" "i < count_oversize t rb ss"
  shows "seg_bytes (drop i ss) > unat rb"
  using assms
proof (induction t rb ss arbitrary: i rule: count_oversize.induct)
  case (1 t rb s s' ss)
  have t: "t > rb" using "1.prems" by (auto split: if_splits)
  have "unat (t - ucast (m_log_size_bytes s)) = seg_bytes (s' # ss)"
    using "1.prems" by (subst unat_sub_small) (simp_all add: seg_bytes_def)
  then show ?case using "1.IH" [OF t] "1.prems" t by (cases i) (auto simp: word_less_nat_alt)
qed auto

lemma seg_bytes_drop_mono: "i \<le> j \<Longrightarrow> seg_bytes (drop j ss) \<le> seg_bytes (drop i ss)"
proof -
  assume "i \<le> j"
  then have "drop i ss = take (j - i) (drop i ss) @ drop j ss"
    by (metis append_take_drop_id drop_drop le_add_diff_inverse2)
  then show ?thesis by (metis le_add2 map_append seg_bytes_def sum_list_append)
qed

section \<open>The rest of the log\<close>

lemma segs_rep_drop:
  "segs_rep fs dir b ss rss \<Longrightarrow> segs_rep fs dir (b + length (concat (take n rss))) (drop n ss) (drop n rss)"
proof (induction fs dir b ss rss arbitrary: n rule: segs_rep.induct)
  case (2 fs dir b s ss rs rss)
  then show ?case by (cases n) (auto simp: add.assoc)
qed auto

text \<open>Base offsets increase strictly.\<close>

lemma segs_rep_distinct:
  assumes "segs_rep fs dir b ss rss"
  shows "distinct (map m_base_offset ss)" "\<forall>s \<in> set ss. m_partition_dir s = dir \<and> b \<le> unat (m_base_offset s)"
  using assms
proof (induction fs dir b ss rss rule: segs_rep.induct)
  case (2 fs dir b s ss rs rss)
  { case 1
    have "m_base_offset s \<noteq> m_base_offset t" if "t \<in> set ss" for t
    proof -
      have "rs \<noteq> []" using 1 that by auto
      moreover have "b + length rs \<le> unat (m_base_offset t)" using "2.IH"(2) 1 that by auto
      moreover have "unat (m_base_offset s) = b" using 1 by simp
      ultimately show ?thesis by auto
    qed
    then show ?case using 1 2 by auto
  next
    case 2
    then show ?case using "2.IH"(2) by fastforce }
qed auto

lemma segs_rep_get_file_cong:
  assumes "segs_rep fs dir b ss rss"
    and "\<And>s. s \<in> set ss \<Longrightarrow> get_file fs' (log_path s) = get_file fs (log_path s) \<and> fexists fs' (log_path s) = fexists fs (log_path s) \<and>
      get_file fs' (index_path s) = get_file fs (index_path s) \<and> fexists fs' (index_path s) = fexists fs (index_path s)"
  shows "segs_rep fs' dir b ss rss"
  using assms
proof (induction fs dir b ss rss rule: segs_rep.induct)
  case (2 fs dir b s ss rs rss)
  have "seg_rep fs' s rs" using seg_rep_cong [of fs s rs fs'] "2.prems" by simp
  then show ?case using 2 by simp
qed auto

lemma scan_and_delete_rep:
  assumes w: "reliable w" and rep: "part_rep fs P rss"
    and del: "scan_and_delete_segments w now fs P ms rb False out = (st, cands, P', fs')"
  defines "n \<equiv> (if length (p_segments P) \<le> 1 then 0 else deletable_count now ms rb P)"
  shows "st = Status_OK" "n < length (p_segments P)" "P' = P\<lparr> p_segments := drop n (p_segments P) \<rparr>"
    "part_rep fs' P' (drop n rss)" "n > 0 \<Longrightarrow> cands = map candidate (take n (p_segments P))"
    "part_meta P rss \<Longrightarrow> part_meta P' (drop n rss)"
proof -
  have ne: "p_segments P \<noteq> []" using part_rep_nonempty [OF rep] by simp
  show n: "n < length (p_segments P)" using ne deletable_count_less [OF ne, of now ms rb] by (simp add: n_def)
  have eq: "st = Status_OK \<and> P' = P\<lparr> p_segments := drop n (p_segments P) \<rparr> \<and>
      fs' = foldl (remove_candidate w) fs (map candidate (take n (p_segments P))) \<and>
      (n > 0 \<longrightarrow> cands = map candidate (take n (p_segments P)))"
    using del by (auto simp: scan_and_delete_segments_def n_def Let_def split: if_splits)
  then show "st = Status_OK" "P' = P\<lparr> p_segments := drop n (p_segments P) \<rparr>"
    "n > 0 \<Longrightarrow> cands = map candidate (take n (p_segments P))" by simp_all
  let ?ss = "p_segments P" and ?e = "unat (earliest_offset P)"
  have segs: "segs_rep fs (p_dir P) ?e ?ss rss" using rep by (simp add: part_rep_def)
  note dist = segs_rep_distinct [OF segs]
  have fs': "fs' = foldl (remove_candidate w) fs (map candidate (take n ?ss))" using eq by simp
  note rm = remove_candidates_sel [OF w, where fs = fs and ss = "take n ?ss", folded fs']
  have disj: "q \<notin> seg_files s" if s: "s \<in> set (take n ?ss)" and t: "t \<in> set (drop n ?ss)" and q: "q \<in> seg_files t" for q s t
  proof -
    have "set (map m_base_offset (take n ?ss)) \<inter> set (map m_base_offset (drop n ?ss)) = {}"
      using dist(1) by (metis append_take_drop_id distinct_append map_append)
    then have "m_base_offset s \<noteq> m_base_offset t" using s t by auto
    moreover have "m_partition_dir s = m_partition_dir t" using dist(2) in_set_takeD [OF s] in_set_dropD [OF t] by simp
    ultimately show ?thesis using seg_files_disjoint [of s t] q by blast
  qed
  have keep: "get_file fs' q = get_file fs q" "fexists fs' q = fexists fs q" if "q \<in> seg_files t" "t \<in> set (drop n ?ss)" for q t
    using rm(1,2) disj that by blast+
  have drp: "segs_rep fs' (p_dir P) (?e + length (concat (take n rss))) (drop n ?ss) (drop n rss)"
  proof (rule segs_rep_get_file_cong [OF segs_rep_drop [OF segs]])
    fix t
    assume t: "t \<in> set (drop n ?ss)"
    have "log_path t \<in> seg_files t" "index_path t \<in> seg_files t" by (simp_all add: seg_files_def)
    then show "get_file fs' (log_path t) = get_file fs (log_path t) \<and> fexists fs' (log_path t) = fexists fs (log_path t) \<and>
      get_file fs' (index_path t) = get_file fs (index_path t) \<and> fexists fs' (index_path t) = fexists fs (index_path t)"
      using keep [OF _ t] by simp
  qed
  obtain s0 ss0 where hd: "drop n ?ss = s0 # ss0" using n by (cases "drop n ?ss") auto
  then have e': "unat (earliest_offset P') = ?e + length (concat (take n rss))"
    using drp eq by (cases "drop n rss") (auto simp: earliest_offset_def)
  have len: "length (concat rss) = length (concat (take n rss)) + length (concat (drop n rss))"
    by (metis append_take_drop_id concat_append length_append)
  have files: "only_files fs' (p_dir P) (m_base_offset ` set (drop n ?ss)) (m_base_offset ` set (butlast (drop n ?ss)))"
  proof -
    have old: "only_files fs (p_dir P) (m_base_offset ` set ?ss) (m_base_offset ` set (butlast ?ss))"
      using rep by (simp add: part_rep_def)
    have gone: "b \<notin> m_base_offset ` set (take n ?ss)"
      if "fexists fs' (p_dir P @ [format_base_offset b @ x])" "x \<in> {''.log'', ''.index'', ''.sealed''}" for b x
    proof
      assume "b \<in> m_base_offset ` set (take n ?ss)"
      then obtain s where s: "s \<in> set (take n ?ss)" "b = m_base_offset s" by auto
      then have "m_partition_dir s = p_dir P" using dist(2) in_set_takeD by fast
      then have "p_dir P @ [format_base_offset b @ x] \<in> seg_files s" using s(2) that(2) by (auto simp: seg_files_def seg_paths)
      then show False using rm(1) that(1) s(1) by blast
    qed
    have "set ?ss = set (take n ?ss) \<union> set (drop n ?ss)" by (metis append_take_drop_id set_append)
    moreover have "butlast ?ss = take n ?ss @ butlast (drop n ?ss)"
      using butlast_append [of "take n ?ss" "drop n ?ss"] n by simp
    then have "set (butlast ?ss) = set (take n ?ss) \<union> set (butlast (drop n ?ss))" by (metis set_append)
    ultimately have sp: "m_base_offset ` set ?ss = m_base_offset ` set (take n ?ss) \<union> m_base_offset ` set (drop n ?ss)"
        "m_base_offset ` set (butlast ?ss) = m_base_offset ` set (take n ?ss) \<union> m_base_offset ` set (butlast (drop n ?ss))"
      by (simp_all only: image_Un)
    have ex: "fexists fs q" if "fexists fs' q" for q using rm(1) that by blast
    have "b \<in> m_base_offset ` set (drop n ?ss)" if "fexists fs' (p_dir P @ [format_base_offset b @ x])"
        "x = ''.log'' \<or> x = ''.index''" for b x
    proof -
      have "b \<in> m_base_offset ` set ?ss" using only_filesD(1) [OF old ex [OF that(1)]] that(2) by blast
      then show ?thesis using gone [OF that(1)] that(2) unfolding sp by blast
    qed
    moreover have "b \<in> m_base_offset ` set (butlast (drop n ?ss))"
      if "fexists fs' (p_dir P @ [format_base_offset b @ ''.sealed''])" for b
    proof -
      have "b \<in> m_base_offset ` set (butlast ?ss)" using only_filesD(2) [OF old ex [OF that]] by simp
      then show ?thesis using gone [OF that] unfolding sp by blast
    qed
    moreover have "\<exists>b. x = format_base_offset b @ ''.log''" if "fexists fs' (p_dir P @ [x])" "snd (split_ext x) = ''.log''" for x
      using only_filesD(3) [OF old ex [OF that(1)] that(2)] by blast
    ultimately show ?thesis by (intro only_filesI) blast+
  qed
  have last: "last (drop n ?ss) = last ?ss" using n by simp
  show "part_rep fs' P' (drop n rss)"
    using drp e' len files last hd rep eq rm(3) by (auto simp: part_rep_def dir_ready_def)
  show "part_meta P rss \<Longrightarrow> part_meta P' (drop n rss)"
    using eq by (auto simp: part_meta_def intro: list_all2_dropI)
qed

section \<open>Properties\<close>

text \<open>
  C20. Retention refines dropping a prefix of whole segments from the log: the call succeeds, the
  active segment stays, the partition afterwards represents the remaining records at their old
  offsets (so every read from the new earliest offset on is unchanged), and the next offset is
  the same.
\<close>

theorem retention_refines_prefix_drop:
  assumes "reliable w" "part_rep fs P rss"
  shows "case scan_and_delete_segments w now fs P ms rb False out of (st, cands, P', fs') \<Rightarrow>
    \<exists>n < length rss. ok st \<and> part_rep fs' P' (drop n rss) \<and> p_next_offset P' = p_next_offset P \<and>
      last (p_segments P') = last (p_segments P) \<and>
      unat (earliest_offset P') = unat (earliest_offset P) + length (concat (take n rss)) \<and>
      (\<forall>start mm mb. earliest_offset P' \<le> start \<and> start \<le> p_next_offset P \<longrightarrow>
         part_read w fs' P' start mm mb = part_read w fs P start mm mb)"
proof -
  obtain st cands P' fs' where del: "scan_and_delete_segments w now fs P ms rb False out = (st, cands, P', fs')"
    by (cases "scan_and_delete_segments w now fs P ms rb False out") auto
  define n where "n = (if length (p_segments P) \<le> 1 then 0 else deletable_count now ms rb P)"
  note r = scan_and_delete_rep [OF assms del, folded n_def]
  have segs: "segs_rep fs (p_dir P) (unat (earliest_offset P)) (p_segments P) rss" using assms(2) by (simp add: part_rep_def)
  have n: "n < length rss" using r(2) segs_rep_length [OF segs] by simp
  have len: "length (concat rss) = length (concat (take n rss)) + length (concat (drop n rss))"
    by (metis append_take_drop_id concat_append length_append)
  have e: "unat (earliest_offset P') = unat (earliest_offset P) + length (concat (take n rss))"
    using r(3,4) assms(2) len by (simp add: part_rep_def)
  have "part_read w fs' P' start mm mb = part_read w fs P start mm mb"
    if "earliest_offset P' \<le> start" "start \<le> p_next_offset P" for start mm mb
  proof -
    have "start \<le> p_next_offset P'" using that r(3) by simp
    note rd = part_read_range [OF assms(1) r(4) that(1) this]
    have "earliest_offset P \<le> start" using that(1) e by (simp add: word_le_nat_alt)
    note rd0 = part_read_range [OF assms this that(2)]
    have "concat rss = concat (take n rss) @ concat (drop n rss)" by (metis append_take_drop_id concat_append)
    then have "drop (unat start - unat (earliest_offset P)) (concat rss) =
        drop (unat start - unat (earliest_offset P')) (concat (drop n rss))"
      using e that(1) by (simp add: word_le_nat_alt)
    then show ?thesis using rd rd0 by simp
  qed
  then show ?thesis unfolding del using n r e by (auto intro!: exI [of _ n])
qed

theorem retention_refines_prefix_drop_witness:
  "case scan_and_delete_segments ideal_os 1000 (sample_fs []) sample_part 10 0 False [] of (st, cands, P', fs') \<Rightarrow>
    \<exists>n < length [[] :: Record list]. ok st \<and> part_rep fs' P' (drop n [[]]) \<and> p_next_offset P' = p_next_offset sample_part \<and>
      last (p_segments P') = last (p_segments sample_part) \<and>
      unat (earliest_offset P') = unat (earliest_offset sample_part) + length (concat (take n [[] :: Record list])) \<and>
      (\<forall>start mm mb. earliest_offset P' \<le> start \<and> start \<le> p_next_offset sample_part \<longrightarrow>
         part_read ideal_os fs' P' start mm mb = part_read ideal_os (sample_fs []) sample_part start mm mb)"
  by (rule retention_refines_prefix_drop [OF reliable_ideal_os sample_part_rep])

text \<open>
  Retention by age deletes only expired records: with the size limit off, every record of a
  deleted segment is older than the retention time.
\<close>

lemma retention_by_age_sound:
  assumes "reliable w" "part_rep fs P rss" "part_meta P rss"
    and "scan_and_delete_segments w now fs P ms 0 False out = (st, cands, P', fs')"
  shows "\<exists>n. part_rep fs' P' (drop n rss) \<and>
    (\<forall>rs \<in> set (take n rss). \<forall>r \<in> set rs. sint now - sint (r_timestamp_ms r) > sint ms)"
proof -
  define n where "n = (if length (p_segments P) \<le> 1 then 0 else deletable_count now ms 0 P)"
  note r = scan_and_delete_rep [OF assms(1,2,4), folded n_def]
  have l: "length (p_segments P) = length rss" using assms(3) by (auto simp: part_meta_def dest: list_all2_lengthD)
  have "sint now - sint (r_timestamp_ms r) > sint ms" if i: "i < n" "i < length rss" "r \<in> set (rss ! i)" for i r
  proof -
    have "i < count_expired now ms (p_segments P)"
      using i(1) by (auto simp: n_def deletable_count_def Let_def split: if_splits)
    then have "sint now - sint (m_max_timestamp_ms (p_segments P ! i)) > sint ms" using count_expired_nth by blast
    moreover have "m_max_timestamp_ms (p_segments P ! i) = max_ts 0 (rss ! i)"
      using assms(3) i(2) l by (auto simp: part_meta_def list_all2_conv_all_nth seg_meta_def)
    ultimately show ?thesis using max_ts_ge [OF i(3), of 0] by simp
  qed
  moreover have "\<exists>i < n. i < length rss \<and> rs = rss ! i" if "rs \<in> set (take n rss)" for rs
    using that by (auto simp: in_set_conv_nth)
  ultimately have "\<forall>rs \<in> set (take n rss). \<forall>r \<in> set rs. sint now - sint (r_timestamp_ms r) > sint ms" by blast
  then show ?thesis using r(4) by blast
qed

text \<open>
  C21. Retention by size is exact: with the age limit off and a positive size limit, afterwards
  either the remaining segments fit into the limit or only the active one is left; and each
  deleted segment was needed, since the segments from it on exceeded the limit.
\<close>

theorem retention_by_size_exact:
  assumes "seg_bytes (p_segments P) < 2 ^ 64" "0 < rb" "p_segments P \<noteq> []"
    and "scan_and_delete_segments w now fs P 0 rb False out = (st, cands, P', fs')"
  shows "\<exists>n. p_segments P' = drop n (p_segments P) \<and>
    (seg_bytes (p_segments P') \<le> unat rb \<or> length (p_segments P') = 1) \<and>
    (\<forall>i < n. seg_bytes (drop i (p_segments P)) > unat rb)"
proof -
  let ?ss = "p_segments P" and ?t = "foldl (\<lambda>t seg. t + ucast (m_log_size_bytes seg)) 0 (p_segments P) :: u64"
  have t: "unat ?t = seg_bytes ?ss" using foldl_total [of 0 ?ss] assms(1) by simp
  define n where "n = (if length ?ss \<le> 1 then 0 else deletable_count now 0 rb P)"
  have P': "p_segments P' = drop n ?ss"
    using assms(4) by (auto simp: scan_and_delete_segments_def n_def Let_def split: if_splits)
  have lt: "count_oversize ?t rb ?ss < length ?ss" by (rule count_oversize_less [OF assms(3)])
  have n: "n = (if length ?ss \<le> 1 then 0 else if ?t > rb then count_oversize ?t rb ?ss else 0)"
    using assms(2) lt by (auto simp: n_def deletable_count_def Let_def)
  show ?thesis
  proof (intro exI [of _ n] conjI P')
    show "seg_bytes (p_segments P') \<le> unat rb \<or> length (p_segments P') = 1"
      using count_oversize_enough [OF t assms(3), of rb] t assms(3) P' n
      by (cases ?ss) (auto simp: word_less_nat_alt)
    show "\<forall>i < n. seg_bytes (drop i ?ss) > unat rb"
      using count_oversize_needed [OF t] n by auto
  qed
qed

theorem retention_by_size_exact_witness:
  "\<exists>n. p_segments sample_part = drop n (p_segments sample_part) \<and>
    (seg_bytes (p_segments sample_part) \<le> unat (1 :: u64) \<or> length (p_segments sample_part) = 1) \<and>
    (\<forall>i < n. seg_bytes (drop i (p_segments sample_part)) > unat (1 :: u64))"
  by (rule retention_by_size_exact [of _ _ ideal_os 5 "sample_fs []" "[]" Status_OK "[]" _ "sample_fs []"])
    (simp_all add: scan_and_delete_segments_def seg_bytes_def sample_seg_def make_LogSegment_def Let_def)

text \<open>
  A retention time of \<open>2 ^ 63\<close> milliseconds or more, the natural way to say ``keep for ever'',
  is read as a negative \<^verbatim>\<open>int64_t\<close>: every sealed segment whose newest record has a positive
  timestamp that is not in the future is deleted at once.
\<close>

lemma huge_retention_deletes_everything:
  assumes "2 ^ 63 \<le> unat ms" "1 < length (p_segments P)"
    and "\<forall>s \<in> set (butlast (p_segments P)). 0 < sint (m_max_timestamp_ms s) \<and> sint (m_max_timestamp_ms s) \<le> sint now"
  shows "case scan_and_delete_segments w now fs P ms 0 False out of (st, cands, P', fs') \<Rightarrow>
    p_segments P' = [last (p_segments P)] \<and> cands = map candidate (butlast (p_segments P))"
proof -
  let ?ss = "p_segments P"
  have "sint ms < 0" and pos: "0 < ms"
    using assms(1) unsigned_less [of ms, where ?'a = int] by (auto simp: sint_u64 word_less_nat_alt)
  then have "\<forall>s \<in> set (butlast ?ss). 0 < sint (m_max_timestamp_ms s) \<and> sint now - sint (m_max_timestamp_ms s) > sint ms"
    using assms(3) by force
  then have "count_expired now ms ?ss = length ?ss - 1" by (rule count_expired_all)
  then have "deletable_count now ms 0 P = length ?ss - 1" using pos by (simp add: deletable_count_def Let_def)
  moreover have "drop (length ?ss - 1) ?ss = [last ?ss]" "take (length ?ss - 1) ?ss = butlast ?ss"
    using assms(2) by (cases ?ss rule: rev_cases; simp)+
  ultimately show ?thesis using assms(2) by (simp add: scan_and_delete_segments_def Let_def)
qed

end
