(* ===== verification/PartitionRecovery.thy ===== *)
theory PartitionRecovery
  imports Retention
begin

text \<open>
  Reopening a partition, \<^verbatim>\<open>Partition::open_and_recover\<close>, from whatever a crash left on disk. A
  crash keeps of every file a prefix at least as long as what was flushed. The sealed segments
  were flushed when they were sealed, the active one may have lost a suffix and end in the
  middle of a record: reopening restores the log up to that point, and all of it when the
  partition was durable.
\<close>

section \<open>What is on disk\<close>

text \<open>One segment: its records, then a tail that does not start with a record. A sealed segment has
  no tail and its index file holds a correct index.\<close>

definition seg_disk :: "filesys \<Rightarrow> LogSegment \<Rightarrow> Record list \<Rightarrow> bytes \<Rightarrow> bool" where
  "seg_disk fs s rs tail \<longleftrightarrow> fexists fs (log_path s) \<and> fdata fs (log_path s) = log_bytes rs @ tail \<and>
     length (log_bytes rs @ tail) < 2 ^ 32 \<and> length (fdata fs (index_path s)) < 2 ^ 32 \<and>
     records_ok rs \<and> offsets_from (m_base_offset s) rs \<and> first_record tail = Some None"

definition index_disk :: "filesys \<Rightarrow> LogSegment \<Rightarrow> Record list \<Rightarrow> bool" where
  "index_disk fs s rs \<longleftrightarrow> fexists fs (index_path s) \<and>
     (\<exists>es. fdata fs (index_path s) = concat (map entry_bytes es) \<and> index_ok (m_base_offset s) rs es)"

lemma seg_disk_frame:
  "seg_disk fs s rs tail \<Longrightarrow> same_outside Q fs fs' \<Longrightarrow> log_path s \<notin> Q \<Longrightarrow> index_path s \<notin> Q \<Longrightarrow> seg_disk fs' s rs tail"
  by (simp add: seg_disk_def same_outsideD)

lemma index_disk_frame:
  "index_disk fs s rs \<Longrightarrow> same_outside Q fs fs' \<Longrightarrow> index_path s \<notin> Q \<Longrightarrow> index_disk fs' s rs"
  by (simp add: index_disk_def same_outsideD)

section \<open>One segment\<close>

lemma recover_opened:
  assumes w: "reliable w" and op: "seg_opened fs s" and d: "seg_disk fs s rs tail"
  shows "\<exists>s' fs'. recover_and_rebuild_index w fs s = Some (Status_OK, m_base_offset s + of_nat (length rs), s', fs') \<and>
    seg_rep fs' s' rs \<and> seg_meta s' rs \<and> same_seg s s' \<and> m_is_sealed s' = m_is_sealed s \<and>
    same_outside {log_path s, index_path s} fs fs'"
  using d recover_rep [OF w op, of rs tail] by (simp add: seg_disk_def)

lemma verify_quick_total:
  assumes w: "reliable w" and rep: "seg_rep fs s rs"
  shows "\<exists>v. verify_quick w fs s = Some (Status_OK, v)"
proof (cases "rs = []")
  case True
  then show ?thesis using rep by (auto simp: verify_quick_def seg_rep_def)
next
  case False
  have r0: "read_record_at w fs s 0 default_Record = Some (Status_OK, rs ! 0)"
    using read_record_at_rep [OF w rep, of 0 0] False by simp
  have at: "\<exists>i < length rs. p = of_nat (pos_of rs i)"
    if "p = lookup_file_position s t \<or> m_index s \<noteq> [] \<and> p = file_position (last (m_index s)) \<or> p = 0" for p t
  proof -
    have ok: "index_ok (m_base_offset s) rs (m_index s)" "offsets_from (m_base_offset s) rs" "length rs < 2 ^ 32"
      using rep seg_rep_length [OF rep] by (simp_all add: seg_rep_def)
    obtain ns where ns: "m_index s = map (entry_at (m_base_offset s) rs) ns" "set ns \<subseteq> {..<length rs}"
      using ok(1) by (auto simp: index_ok_def)
    have "\<exists>i < length rs. lookup_file_position s t = of_nat (pos_of rs i)"
      using lookup_index_ok [OF ok False, of "ucast (t - m_base_offset s)"] False
      by (auto simp: lookup_file_position_def intro: exI [of _ 0])
    moreover have "\<exists>i < length rs. file_position (last (m_index s)) = of_nat (pos_of rs i)" if "m_index s \<noteq> []"
    proof -
      have ne: "ns \<noteq> []" using that ns by simp
      then have "last ns < length rs" using subsetD [OF ns(2) last_in_set] by simp
      then show ?thesis using ne ns(1) by (intro exI [of _ "last ns"]) (simp add: last_map entry_at_def)
    qed
    moreover have "\<exists>i < length rs. 0 = of_nat (pos_of rs i)" using False by (intro exI [of _ 0]) simp
    ultimately show ?thesis using that by metis
  qed
  have rd: "\<exists>r. read_record_at w fs s (ucast p) default_Record = Some (Status_OK, r)"
    if ex: "\<exists>i < length rs. p = of_nat (pos_of rs i)" for p :: u32
  proof -
    obtain i where i: "i < length rs" "p = of_nat (pos_of rs i)" using ex by blast
    have "pos_of rs i < 4294967296" using pos_of_le [of i rs] i(1) rep by (simp add: seg_rep_def)
    then have "unat (ucast p :: u64) = pos_of rs i" by (simp add: i(2) unat_of_nat_u32)
    then show ?thesis using read_record_at_rep [OF w rep i(1)] by blast
  qed
  define p where "p = (if m_last_offset s \<ge> m_base_offset s \<and> m_record_count s > 0
             then lookup_file_position s (m_last_offset s)
             else if m_index s \<noteq> [] then file_position (last (m_index s)) else 0)"
  have "p = lookup_file_position s (m_last_offset s) \<or> m_index s \<noteq> [] \<and> p = file_position (last (m_index s)) \<or> p = 0"
    by (simp add: p_def)
  then obtain r where "read_record_at w fs s (ucast p) default_Record = Some (Status_OK, r)"
    using rd [OF at] by blast
  then show ?thesis
    unfolding verify_quick_def Let_def p_def [symmetric] using r0 by auto
qed

lemma seg_flush_sealed [simp]: "seg_flush w fs (m_is_sealed_update f s) = seg_flush w fs s"
  by (simp add: seg_flush_def)

text \<open>A sealed segment that is intact on disk opens to the records it holds, on each of the three
  paths (no marker, full scan, quick check).\<close>

lemma open_sealed_ok:
  assumes w: "reliable w" and op: "seg_opened fs s" and d: "seg_disk fs s rs []" and ix: "index_disk fs s rs"
    and st: "m_log_size_bytes s = of_nat (length (log_bytes rs))" "fdata fs (index_path s) = concat (map entry_bytes (m_index s)) @ t" "length t < 8"
    and nodir: "sealed_path s \<notin> set (fs_dirs fs)"
  shows "\<exists>dg s' fs'. open_sealed w full fs s = Some (Status_OK, dg, s', fs') \<and> seg_rep fs' s' rs \<and> same_seg s s' \<and>
    same_outside (seg_files s) fs fs'"
proof -
  obtain es where es: "fdata fs (index_path s) = concat (map entry_bytes es)" "index_ok (m_base_offset s) rs es"
    using ix by (auto simp: index_disk_def)
  have "m_index s = es" "t = []" using concat_entries_inj [of es "m_index s" t] es(1) st by simp_all
  then have rep: "seg_rep fs s rs"
    using op d es st by (simp add: seg_rep_def seg_opened_def seg_disk_def records_ok_def)
  have mono: "same_outside {log_path s, index_path s} fs fs' \<Longrightarrow> same_outside (seg_files s) fs fs'" for fs'
    by (erule same_outside_mono) (auto simp: seg_files_def)
  obtain s1 fs1 where r: "recover_and_rebuild_index w fs s = Some (Status_OK, m_base_offset s + of_nat (length rs), s1, fs1)"
      "seg_rep fs1 s1 rs" "same_seg s s1" "same_outside {log_path s, index_path s} fs fs1"
    using recover_opened [OF w op d] by blast
  have seal: "\<exists>s' fs'. seg_seal w f u = (s', fs') \<and> seg_rep fs' s' rs \<and> same_seg u s' \<and>
      same_outside {log_path u, index_path u} f fs'" if "seg_rep f u rs" for f u
    using that same_outside_seg_flush [OF that, of w]
    by (auto simp: seg_seal_def Let_def same_seg_def)
  have p1: "seg_files s1 = seg_files s" "log_path s1 = log_path s" "index_path s1 = index_path s" "sealed_path s1 = sealed_path s"
    using seg_files_same [OF r(3)] same_seg_paths [OF r(3)] by simp_all
  obtain s2 fs2 where s2: "seg_seal w fs1 s1 = (s2, fs2)" "seg_rep fs2 s2 rs" "same_seg s1 s2"
      "same_outside {log_path s, index_path s} fs1 fs2"
    using seal [OF r(2)] p1 by auto
  have ss2: "same_seg s s2" using r(3) s2(3) by (simp add: same_seg_def)
  have p2: "log_path s2 = log_path s" "index_path s2 = index_path s" "sealed_path s2 = sealed_path s"
    using same_seg_paths [OF ss2] by simp_all
  have out2: "same_outside (seg_files s) fs fs2" by (rule mono) (rule same_outside_trans [OF r(4) s2(4)])
  show ?thesis
  proof (cases "has_sealed_marker fs s")
    case False
    then have "\<not> fexists fs (sealed_path s)" by (simp add: has_sealed_marker_def fs_exists_def)
    then have new: "\<not> fexists fs2 (sealed_path s2)"
      using same_outsideD(2) [OF same_outside_trans [OF r(4) s2(4)], of "sealed_path s"] p2 by simp
    obtain fs3 where m0: "write_sealed_marker w fs2 s2 = (Status_OK, fs3)" "same_outside {sealed_path s2} fs2 fs3"
      using write_sealed_marker_ok [OF w new] by (elim exE conjE) (rule that)
    note m = m0 [unfolded p2]
    have rep3: "seg_rep fs3 s2 rs" using seg_rep_outside [OF s2(2) m(2)] p2 by simp
    have "same_outside (seg_files s) fs2 fs3" using m(2) by (rule same_outside_mono) (simp add: seg_files_def)
    moreover have "same_outside (seg_files s) fs3 (seg_flush w fs3 s2)"
      using same_outside_seg_flush [OF rep3, of w] unfolding p2 by (rule same_outside_mono) (simp add: seg_files_def)
    ultimately have "same_outside (seg_files s) fs (seg_flush w fs3 s2)" using out2 same_outside_trans by blast
    moreover have "open_sealed w full fs s = Some (Status_OK, False, s2, seg_flush w fs3 s2)"
      using False r(1) s2(1) m(1) by (simp add: open_sealed_def)
    ultimately show ?thesis using rep3 ss2 by auto
  next
    case marker: True
    show ?thesis
    proof (cases full)
      case True
      have len: "length (fdata fs (log_path s)) < 2 ^ 32" using d by (simp add: seg_disk_def)
      have "open_sealed w full fs s = Some (Status_OK, \<not> (unat (m_log_size_bytes s1) = length (fdata fs (log_path s))), s2, fs2)"
        using marker True s2(1) r(1) verify_full_recover [OF w op len, of 0 0 0]
        by (simp add: open_sealed_def)
      then show ?thesis using s2(2) ss2 out2 by auto
    next
      case False
      obtain v where "verify_quick w fs s = Some (Status_OK, v)" using verify_quick_total [OF w rep] by blast
      moreover obtain s' fs' where "seg_seal w fs s = (s', fs')" "seg_rep fs' s' rs" "same_seg s s'"
          "same_outside {log_path s, index_path s} fs fs'"
        using seal [OF rep] by blast
      ultimately show ?thesis using marker False mono by (auto simp: open_sealed_def)
    qed
  qed
qed

section \<open>All segments\<close>

text \<open>The disk state of a partition: the base offsets, the records of each segment, and the tail of
  the last one.\<close>

fun segs_disk :: "filesys \<Rightarrow> path \<Rightarrow> u32 \<Rightarrow> nat \<Rightarrow> u64 list \<Rightarrow> Record list list \<Rightarrow> bytes \<Rightarrow> bool" where
  "segs_disk fs dir i b [a] [rs] tail \<longleftrightarrow> unat a = b \<and> seg_disk fs (make_LogSegment a dir i) rs tail"
| "segs_disk fs dir i b (a # a' # as) (rs # rss) tail \<longleftrightarrow> unat a = b \<and> rs \<noteq> [] \<and>
     seg_disk fs (make_LogSegment a dir i) rs [] \<and> index_disk fs (make_LogSegment a dir i) rs \<and>
     segs_disk fs dir i (b + length rs) (a' # as) rss tail"
| "segs_disk fs dir i b _ _ tail \<longleftrightarrow> False"

lemma make_LogSegment_sel [simp]:
  "m_base_offset (make_LogSegment a dir i) = a" "m_partition_dir (make_LogSegment a dir i) = dir"
  "\<not> m_is_sealed (make_LogSegment a dir i)"
  by (simp_all add: make_LogSegment_def)

lemma segs_disk_bases: "segs_disk fs dir i b as rss tail \<Longrightarrow> a \<in> set as \<Longrightarrow> b \<le> unat a"
  by (induction fs dir i b as rss tail rule: segs_disk.induct) fastforce+

lemma segs_disk_frame:
  assumes "segs_disk fs dir i b as rss tail" "same_outside (seg_files (make_LogSegment c dir i)) fs fs'" "c \<notin> set as"
  shows "segs_disk fs' dir i b as rss tail"
  using assms
proof (induction fs dir i b as rss tail rule: segs_disk.induct)
  case (1 fs dir i b a rs tail)
  then show ?case by (auto elim!: seg_disk_frame simp: seg_files_def)
next
  case (2 fs dir i b a a' as rs rss tail)
  then show ?case by (auto elim!: seg_disk_frame index_disk_frame simp: seg_files_def)
qed auto

lemma open_one:
  assumes w: "reliable w" and ready: "dir_ready fs dir" and d: "seg_disk fs (make_LogSegment a dir i) rs tail"
  shows "\<exists>s t fs1. seg_open w fs (make_LogSegment a dir i) = Some (Status_OK, s, fs1) \<and> seg_opened fs1 s \<and>
    same_seg (make_LogSegment a dir i) s \<and> seg_disk fs1 s rs tail \<and>
    (index_disk fs (make_LogSegment a dir i) rs \<longrightarrow> index_disk fs1 s rs) \<and>
    m_log_size_bytes s = of_nat (length (log_bytes rs @ tail)) \<and>
    fdata fs1 (index_path s) = concat (map entry_bytes (m_index s)) @ t \<and> length t < 8 \<and>
    (\<not> fexists fs (sealed_path s) \<longrightarrow> \<not> m_is_sealed s) \<and> same_outside {log_path s, index_path s} fs fs1"
proof -
  define s0 where "s0 = make_LogSegment a dir i"
  define fs1 where "fs1 = touch (touch fs (log_path s0)) (index_path s0)"
  have pre: "dir_ready fs (m_partition_dir s0)" "length (fdata fs (log_path s0)) < 2 ^ 32" "length (fdata fs (index_path s0)) < 2 ^ 32"
    using ready d by (simp_all add: s0_def seg_disk_def)
  obtain s t where s: "seg_open w fs s0 = Some (Status_OK, s, fs1)" "seg_opened fs1 s" "same_seg s0 s"
      "m_log_size_bytes s = of_nat (length (fdata fs (log_path s0)))"
      "fdata fs (index_path s0) = concat (map entry_bytes (m_index s)) @ t" "length t < 8"
      "\<not> fexists fs (sealed_path s0) \<longrightarrow> \<not> m_is_sealed s"
    using seg_open_ok [OF w pre(1) s0_def pre(2,3)] unfolding fs1_def by blast
  have p: "log_path s = log_path s0" "index_path s = index_path s0" "sealed_path s = sealed_path s0" "m_base_offset s = a"
    using same_seg_paths [OF s(3)] s(3) by (simp_all add: same_seg_def s0_def)
  have "seg_disk fs1 s rs tail" using d by (simp add: seg_disk_def p s0_def [symmetric] fs1_def) (simp add: s0_def)
  moreover have "index_disk fs s0 rs \<longrightarrow> index_disk fs1 s rs" by (auto simp: index_disk_def p fs1_def) (auto simp: s0_def)
  moreover have "m_log_size_bytes s = of_nat (length (log_bytes rs @ tail))" using s(4) d by (simp add: seg_disk_def s0_def)
  moreover have "fdata fs1 (index_path s) = concat (map entry_bytes (m_index s)) @ t" using s(5) by (simp add: p fs1_def)
  moreover have "same_outside {log_path s, index_path s} fs fs1"
    unfolding fs1_def p by (rule same_outside_trans [OF same_outside_touch same_outside_touch]) simp_all
  ultimately show ?thesis using s p unfolding s0_def by auto
qed

lemma seg_files_dir: "q \<in> seg_files s \<Longrightarrow> \<exists>x. q = m_partition_dir s @ [x]"
  by (auto simp: seg_files_def seg_paths)

text \<open>The loop of \<^verbatim>\<open>open_and_recover\<close>.\<close>

lemma open_segments_ok:
  assumes w: "reliable w"
  shows "segs_disk fs (p_dir P) (index_interval_bytes (p_config P)) b as rss tail \<Longrightarrow> dir_ready fs (p_dir P) \<Longrightarrow>
    only_files fs (p_dir P) B S \<Longrightarrow> set as \<subseteq> B \<Longrightarrow> set (butlast as) \<subseteq> S \<Longrightarrow> last as \<notin> S \<Longrightarrow>
    \<exists>dg ss fs'. open_segments w full as P fs = Some (Status_OK,
        P\<lparr> p_segments := p_segments P @ ss, p_next_offset := of_nat (b + length (concat rss)), p_is_degraded := dg \<rparr>, fs') \<and>
      segs_rep fs' (p_dir P) b ss rss \<and> map m_base_offset ss = as \<and> \<not> m_is_sealed (last ss) \<and>
      dir_ready fs' (p_dir P) \<and> only_files fs' (p_dir P) B S \<and>
      same_outside (\<Union>c \<in> set as. seg_files (make_LogSegment c (p_dir P) (index_interval_bytes (p_config P)))) fs fs'"
proof (induction as arbitrary: b rss fs P)
  case Nil
  then show ?case by simp
next
  case (Cons a as)
  let ?dir = "p_dir P" and ?i = "index_interval_bytes (p_config P)"
  let ?s0 = "make_LogSegment a ?dir ?i"
  obtain rs rss' where rss: "rss = rs # rss'" using Cons.prems(1) by (cases rss; cases as) auto
  have a: "unat a = b" using Cons.prems(1) rss by (cases as) (cases rss', auto)
  have ab: "a = of_nat b" using a by (metis of_nat_unat ucast_id)
  define tl0 where "tl0 = (if as = [] then tail else [])"
  have d: "seg_disk fs ?s0 rs tl0" using Cons.prems(1) rss unfolding tl0_def by (cases as) (cases rss', auto)
  obtain s t fs1 where s: "seg_open w fs ?s0 = Some (Status_OK, s, fs1)" "seg_opened fs1 s" "same_seg ?s0 s" "seg_disk fs1 s rs tl0"
      "index_disk fs ?s0 rs \<longrightarrow> index_disk fs1 s rs" "m_log_size_bytes s = of_nat (length (log_bytes rs @ tl0))"
      "fdata fs1 (index_path s) = concat (map entry_bytes (m_index s)) @ t" "length t < 8"
      "\<not> fexists fs (sealed_path s) \<longrightarrow> \<not> m_is_sealed s" "same_outside {log_path s, index_path s} fs fs1"
    using open_one [OF w Cons.prems(2) d] by (elim exE conjE) (rule that)
  have sb: "m_base_offset s = a" "m_partition_dir s = ?dir" "seg_files s = seg_files ?s0"
    using s(3) seg_files_same [OF s(3)] by (simp_all add: same_seg_def)
  have f1: "seg_files s = {log_path s, index_path s, sealed_path s}" by (simp add: seg_files_def)
  have outs1: "same_outside (seg_files s) fs fs1" by (rule same_outside_mono [OF s(10)]) (simp add: f1)
  have ready1: "dir_ready fs1 ?dir" using Cons.prems(2) dir_ready_cong [OF same_outsideD(3) [OF s(10)]] by simp
  show ?case
  proof (cases "as = []")
    case True
    have tl: "tl0 = tail" and r1: "rss' = []" using True Cons.prems(1) rss by (simp_all add: tl0_def) (cases rss', simp_all)
    obtain s' fs' where r: "recover_and_rebuild_index w fs1 s = Some (Status_OK, m_base_offset s + of_nat (length rs), s', fs')"
        "seg_rep fs' s' rs" "same_seg s s'" "m_is_sealed s' = m_is_sealed s" "same_outside {log_path s, index_path s} fs1 fs'"
      using recover_opened [OF w s(2,4)] by blast
    have out: "same_outside {log_path s, index_path s} fs fs'" using s(10) r(5) by (rule same_outside_trans)
    have nosealed: "\<not> fexists fs (sealed_path s)"
      using Cons.prems(3,6) True sb by (auto simp: only_files_def sealed_path_def)
    have "open_segments w full (a # as) P fs = Some (Status_OK,
        P\<lparr> p_segments := p_segments P @ [s'], p_next_offset := of_nat (b + length (concat rss)), p_is_degraded := p_is_degraded P \<rparr>, fs')"
      using True s(1) r(1) sb(1) ab rss r1 by simp
    moreover have "segs_rep fs' ?dir b [s'] rss" using r(2,3) sb a rss r1 by (simp add: same_seg_def)
    moreover have "only_files fs' (m_partition_dir s) B S"
    proof (rule only_files_frame)
      show "same_outside {log_path s, index_path s, sealed_path s} fs fs'" using out by (rule same_outside_mono) auto
      show "m_base_offset s \<notin> S \<longrightarrow> fexists fs' (sealed_path s) = fexists fs (sealed_path s)"
        using same_outsideD(2) [OF out, of "sealed_path s"] by simp
    qed (use Cons.prems(3,4) sb in auto)
    moreover have "dir_ready fs' ?dir" using Cons.prems(2) dir_ready_cong [OF same_outsideD(3) [OF out]] by simp
    moreover have "\<not> m_is_sealed s'" using r(4) s(9) nosealed by simp
    moreover have "m_base_offset s' = a" using r(3) sb by (simp add: same_seg_def)
    moreover have "same_outside (\<Union>c \<in> set (a # as). seg_files (make_LogSegment c ?dir ?i)) fs fs'"
      by (rule same_outside_mono [OF out]) (use sb(3) f1 in auto)
    ultimately show ?thesis using True sb(2)
      by (intro exI [of _ "p_is_degraded P"] exI [of _ "[s']"] exI [of _ fs']) simp
  next
    case False
    then obtain a' as' where as: "as = a' # as'" by (cases as) auto
    have t0: "tl0 = []" using False by (simp add: tl0_def)
    have pre: "rs \<noteq> []" "index_disk fs ?s0 rs" "segs_disk fs ?dir ?i (b + length rs) as rss' tail"
      using Cons.prems(1) rss as by simp_all
    have nodir: "sealed_path s \<notin> set (fs_dirs fs1)" using ready1 sb by (simp add: dir_ready_def sealed_path_def)
    obtain dg s' fs' where o: "open_sealed w full fs1 s = Some (Status_OK, dg, s', fs')" "seg_rep fs' s' rs" "same_seg s s'"
        "same_outside (seg_files s) fs1 fs'"
      using open_sealed_ok [OF w s(2) _ _ _ s(7,8) nodir, of rs full] s(4,5,6) pre(2) t0 by (simp) blast
    have out: "same_outside (seg_files s) fs fs'" using outs1 o(4) by (rule same_outside_trans)
    have na: "a \<notin> set as" using segs_disk_bases [OF pre(3)] a pre(1) by fastforce
    have disk': "segs_disk fs' ?dir ?i (b + length rs) as rss' tail"
      using segs_disk_frame [OF pre(3) _ na] out sb(3) by simp
    have ready': "dir_ready fs' ?dir" using Cons.prems(2) dir_ready_cong [OF same_outsideD(3) [OF out]] by simp
    have files': "only_files fs' (m_partition_dir s) B S"
      by (rule only_files_frame [where fs = fs and B = B and S = S]) (use out f1 Cons.prems(3-5) sb as in auto)
    define P1 where "P1 = P\<lparr> p_segments := p_segments P @ [s'], p_is_degraded := p_is_degraded P \<or> dg \<rparr>"
    have P1: "p_dir P1 = ?dir" "p_config P1 = p_config P" by (simp_all add: P1_def)
    obtain dg' ss fs'' where ih: "open_segments w full as P1 fs' = Some (Status_OK,
          P1\<lparr> p_segments := p_segments P1 @ ss, p_next_offset := of_nat (b + length rs + length (concat rss')), p_is_degraded := dg' \<rparr>, fs'')"
        "segs_rep fs'' ?dir (b + length rs) ss rss'" "map m_base_offset ss = as" "\<not> m_is_sealed (last ss)"
        "dir_ready fs'' ?dir" "only_files fs'' ?dir B S"
        "same_outside (\<Union>c \<in> set as. seg_files (make_LogSegment c ?dir ?i)) fs' fs''"
      using Cons.IH [of fs' P1 "b + length rs" rss'] disk' ready' files' Cons.prems(4-6) as sb(2) P1 by auto
    let ?Q = "\<Union>c \<in> set as. seg_files (make_LogSegment c ?dir ?i)"
    have "log_path s' \<notin> ?Q" "index_path s' \<notin> ?Q"
      using same_seg_paths [OF o(3)] sb na by (auto simp: seg_files_def seg_paths)
    then have rep'': "seg_rep fs'' s' rs" using seg_rep_outside [OF o(2) ih(7)] by simp
    have s'b: "m_base_offset s' = a" "m_partition_dir s' = ?dir" using o(3) sb by (simp_all add: same_seg_def)
    have "open_segments w full (a # as) P fs = open_segments w full as P1 fs'"
      using s(1) o(1) as by (simp add: P1_def)
    also have "\<dots> = Some (Status_OK, P\<lparr> p_segments := p_segments P @ (s' # ss),
        p_next_offset := of_nat (b + length (concat rss)), p_is_degraded := dg' \<rparr>, fs'')"
      using ih(1) rss by (simp add: P1_def add.assoc)
    finally have run: "open_segments w full (a # as) P fs = \<dots>" .
    have "ss \<noteq> []" using ih(3) as by auto
    moreover have "segs_rep fs'' ?dir b (s' # ss) rss" using rss rep'' s'b a ih(2) pre(1) \<open>ss \<noteq> []\<close> by simp
    moreover have "same_outside (\<Union>c \<in> set (a # as). seg_files (make_LogSegment c ?dir ?i)) fs fs''"
      by (rule same_outside_trans [OF same_outside_mono [OF out] same_outside_mono [OF ih(7)]]) (use sb(3) in auto)
    ultimately show ?thesis using run ih s'b
      by (intro exI [of _ dg'] exI [of _ "s' # ss"] exI [of _ fs'']) simp
  qed
qed

end
