(* ===== verification/CrashRecovery.thy ===== *)
theory CrashRecovery
  imports PartitionRecovery
begin

text \<open>
  A crash and the reopening after it. The crash keeps of every file a prefix that is at least
  as long as what \<^verbatim>\<open>FlushFileBuffers\<close> made durable; the directory entries stay. The sealed
  segments of a partition were flushed when they were sealed, so only the active segment can lose
  records, and it loses a suffix.
\<close>

section \<open>The base offsets of a directory\<close>

lemma digit_not_dot: "is_digit c \<Longrightarrow> c \<noteq> CHR ''.''"
  by (auto simp: is_digit_def)

lemma digit_not_blank: "is_digit c \<Longrightarrow> \<not> is_blank c \<and> c \<noteq> CHR ''-'' \<and> c \<noteq> CHR ''+''"
  by (auto simp: is_digit_def is_blank_def)

lemma stoull_format [simp]: "stoull (format_base_offset b) = Some b"
proof -
  obtain c cs where c: "format_base_offset b = c # cs" using length_format_base_offset [of b] by (cases "format_base_offset b") auto
  have d: "\<forall>x \<in> set (c # cs). is_digit x" using format_base_offset_digits [of _ b] c by simp
  have v: "digits_val 0 (c # cs) = unat b" using digits_val_format_base_offset [of b] c by simp
  have tw: "takeWhile is_digit (c # cs) = c # cs" using d by (simp only: takeWhile_eq_all_conv)
  have lt: "\<not> 18446744073709551616 \<le> unat b" using unat_u64_lt [of b] by linarith
  have dw: "dropWhile is_blank (c # cs) = c # cs" using d digit_not_blank by simp
  show ?thesis
    using d digit_not_blank [of c] lt
    by (simp add: stoull_def c Let_def tw dw v del: takeWhile.simps dropWhile.simps digits_val.simps)
qed

lemma find_base_offsets_eq:
  assumes old: "only_files fs dir (set as) S" and as: "sorted as" "distinct as" "as \<noteq> []"
    and ex: "\<And>b. b \<in> set as \<Longrightarrow> fexists fs (dir @ [format_base_offset b @ ''.log''])"
  shows "find_base_offsets fs dir = as"
proof -
  define names where "names = map last (dir_files fs dir)"
  define logs where "logs = filter (\<lambda>name. snd (split_ext name) = ''.log'') names"
  define bs where "bs = List.map_filter (\<lambda>name. stoull (fst (split_ext name))) logs"
  have nm: "x \<in> set names \<longleftrightarrow> fexists fs (dir @ [x])" for x
    unfolding names_def set_map image_iff Bex_def set_dir_files
    by (metis append_butlast_last_id butlast_snoc last_snoc snoc_eq_iff_butlast)
  have lg: "x \<in> set logs \<longleftrightarrow> (\<exists>b \<in> set as. x = format_base_offset b @ ''.log'')" for x
  proof
    assume "x \<in> set logs"
    then have x: "fexists fs (dir @ [x])" "snd (split_ext x) = ''.log''" by (simp_all add: logs_def nm)
    then show "\<exists>b \<in> set as. x = format_base_offset b @ ''.log''" using old by (simp add: only_files_def)
  qed (auto simp: logs_def nm ex)
  have "distinct (dir_files fs dir)" by (simp add: dir_files_def)
  moreover have "inj_on last (set (dir_files fs dir))"
    by (auto simp: inj_on_def set_dir_files) (metis append_butlast_last_id)
  ultimately have "distinct logs" by (simp add: logs_def names_def distinct_map)
  have bs: "bs = map (\<lambda>name. the (stoull (fst (split_ext name)))) logs"
    unfolding bs_def List.map_filter_def
    by (subst filter_True) (auto simp: lg)
  have "inj_on (\<lambda>name. the (stoull (fst (split_ext name)))) (set logs)" by (auto simp: inj_on_def lg)
  then have "distinct bs" using \<open>distinct logs\<close> bs by (simp add: distinct_map)
  moreover have "set bs = set as" unfolding bs by (force simp: lg image_iff)
  ultimately have "sort bs = as" using as by (intro sorted_distinct_set_unique) simp_all
  then show ?thesis using as(3) by (simp add: find_base_offsets_def Let_def names_def logs_def bs_def)
qed

section \<open>The crash\<close>

definition crashed :: "filesys \<Rightarrow> filesys \<Rightarrow> bool" where
  "crashed fs fs' \<longleftrightarrow> fs_dirs fs' = fs_dirs fs \<and>
     (\<forall>p. fexists fs' p = fexists fs p) \<and> (\<forall>p. \<exists>n \<ge> f_synced (get_file fs p). fdata fs' p = take n (fdata fs p))"

lemma crashed_fexists: "crashed fs fs' \<Longrightarrow> fexists fs' p = fexists fs p"
  by (simp add: crashed_def)

lemma crashed_ready: "crashed fs fs' \<Longrightarrow> dir_ready fs dir \<Longrightarrow> dir_ready fs' dir"
  by (simp add: crashed_def dir_ready_def)

lemma crashed_only_files: "crashed fs fs' \<Longrightarrow> only_files fs dir B S \<Longrightarrow> only_files fs' dir B S"
  by (simp add: only_files_def crashed_fexists)

lemma crashed_synced: "crashed fs fs' \<Longrightarrow> f_synced (get_file fs p) = length (fdata fs p) \<Longrightarrow> fdata fs' p = fdata fs p"
  by (auto simp: crashed_def) (metis take_all)

lemma crashed_prefix: "crashed fs fs' \<Longrightarrow> \<exists>n. fdata fs' p = take n (fdata fs p)"
  by (auto simp: crashed_def)

text \<open>A prefix of a log is a prefix of its records and a torn record.\<close>

lemma log_prefix:
  "records_ok rs \<Longrightarrow> \<exists>k tail. k \<le> length rs \<and> take n (log_bytes rs) = log_bytes (take k rs) @ tail \<and> first_record tail = Some None \<and>
     (length (log_bytes rs) \<le> n \<longrightarrow> k = length rs)"
proof (induction rs arbitrary: n)
  case Nil
  then show ?case by simp
next
  case (Cons r rs)
  then have r: "record_size r \<le> 1048580" and ok: "records_ok rs" by (simp_all add: records_ok_def)
  show ?case
  proof (cases "n < record_size r")
    case True
    then have "take n (log_bytes (r # rs)) = log_bytes (take 0 (r # rs)) @ take n (record_bytes r)" by simp
    then show ?thesis using first_record_torn [OF r True] True
      by (intro exI [of _ 0] exI [of _ "take n (record_bytes r)"]) simp
  next
    case False
    obtain k tail where k: "k \<le> length rs" "take (n - record_size r) (log_bytes rs) = log_bytes (take k rs) @ tail"
        "first_record tail = Some None" "length (log_bytes rs) \<le> n - record_size r \<longrightarrow> k = length rs"
      using Cons.IH [OF ok, of "n - record_size r"] by blast
    then show ?thesis using False by (intro exI [of _ "Suc k"] exI [of _ tail]) auto
  qed
qed

lemma offsets_from_take: "offsets_from b rs \<Longrightarrow> offsets_from b (take k rs)"
  by (auto simp: offsets_from_def)

section \<open>Segments after a crash\<close>

lemma make_LogSegment_paths [simp]:
  "m_partition_dir s = dir \<Longrightarrow> log_path (make_LogSegment (m_base_offset s) dir i) = log_path s"
  "m_partition_dir s = dir \<Longrightarrow> index_path (make_LogSegment (m_base_offset s) dir i) = index_path s"
  by (simp_all add: seg_paths)

lemma log_bytes_ge: "28 * length rs \<le> length (log_bytes rs)"
proof (induction rs)
  case (Cons r rs)
  have "28 \<le> record_size r" by (simp add: record_size_def)
  then have "28 + 28 * length rs \<le> record_size r + length (log_bytes rs)" by (rule add_mono) (rule Cons)
  then show ?case by simp
qed simp

lemma seg_rep_index_length:
  assumes "seg_rep fs s rs"
  shows "length (fdata fs (index_path s)) < 2 ^ 32"
proof -
  obtain ns where ns: "m_index s = map (entry_at (m_base_offset s) rs) ns" "sorted_wrt (<) ns" "set ns \<subseteq> {..<length rs}"
    using assms by (auto simp: seg_rep_def index_ok_def)
  have "length ns \<le> length rs"
    using card_mono [OF _ ns(3)] ns(2) by (simp add: distinct_card strict_sorted_iff)
  moreover have "length (fdata fs (index_path s)) = 8 * length ns"
    using assms length_concat_entry_bytes [of "m_index s"] unfolding seg_rep_def by (simp only: ns(1) length_map)
  ultimately show ?thesis using log_bytes_ge [of rs] assms by (simp add: seg_rep_def)
qed

lemma crashed_sealed:
  assumes c: "crashed fs fs'" and rep: "seg_rep fs s rs" and syn: "seg_synced fs s" and dir: "m_partition_dir s = dir"
  shows "seg_disk fs' (make_LogSegment (m_base_offset s) dir i) rs []"
    and "index_disk fs' (make_LogSegment (m_base_offset s) dir i) rs"
proof -
  have d: "fdata fs' (log_path s) = fdata fs (log_path s)" "fdata fs' (index_path s) = fdata fs (index_path s)"
    using crashed_synced [OF c] syn by (simp_all add: seg_synced_def)
  show "seg_disk fs' (make_LogSegment (m_base_offset s) dir i) rs []"
    using rep seg_rep_index_length [OF rep] d dir
    by (simp add: seg_disk_def seg_rep_def crashed_fexists [OF c] records_ok_def)
  show "index_disk fs' (make_LogSegment (m_base_offset s) dir i) rs"
    using rep d dir by (auto simp: index_disk_def seg_rep_def crashed_fexists [OF c])
qed

lemma crashed_active:
  assumes c: "crashed fs fs'" and rep: "seg_rep fs s rs" and dir: "m_partition_dir s = dir"
  shows "\<exists>k tail. k \<le> length rs \<and> seg_disk fs' (make_LogSegment (m_base_offset s) dir i) (take k rs) tail \<and>
    (seg_synced fs s \<longrightarrow> k = length rs)"
proof -
  obtain n where n: "f_synced (get_file fs (log_path s)) \<le> n" "fdata fs' (log_path s) = take n (fdata fs (log_path s))"
    using c by (auto simp: crashed_def)
  obtain m where m: "fdata fs' (index_path s) = take m (fdata fs (index_path s))" using crashed_prefix [OF c] by blast
  have ok: "records_ok rs" "fdata fs (log_path s) = log_bytes rs" using rep by (simp_all add: seg_rep_def records_ok_def)
  obtain k tail where k: "k \<le> length rs" "take n (log_bytes rs) = log_bytes (take k rs) @ tail" "first_record tail = Some None"
      "length (log_bytes rs) \<le> n \<longrightarrow> k = length rs"
    using log_prefix [OF ok(1), of n] by blast
  have "length (log_bytes (take k rs) @ tail) \<le> length (log_bytes rs)" unfolding k(2) [symmetric] by simp
  moreover have "length (log_bytes rs) < 2 ^ 32" using rep by (simp add: seg_rep_def)
  ultimately have len: "length (log_bytes (take k rs) @ tail) < 2 ^ 32" by linarith
  have "seg_disk fs' (make_LogSegment (m_base_offset s) dir i) (take k rs) tail"
    unfolding seg_disk_def
  proof (intro conjI)
    show "records_ok (take k rs)" using ok(1) by (auto simp: records_ok_def dest: in_set_takeD)
  qed (use rep dir len k n m ok seg_rep_index_length [OF rep] in
       \<open>simp_all add: seg_rep_def crashed_fexists [OF c] offsets_from_take\<close>)
  moreover have "seg_synced fs s \<longrightarrow> k = length rs" using k(4) n(1) ok(2) by (simp add: seg_synced_def)
  ultimately show ?thesis using k(1) by blast
qed

lemma crashed_segs:
  assumes c: "crashed fs fs'"
  shows "segs_rep fs dir b ss rss \<Longrightarrow> ss \<noteq> [] \<Longrightarrow> \<forall>s \<in> set (butlast ss). seg_synced fs s \<Longrightarrow>
    \<exists>k tail. k \<le> length (last rss) \<and> segs_disk fs' dir i b (map m_base_offset ss) (butlast rss @ [take k (last rss)]) tail \<and>
      (seg_synced fs (last ss) \<longrightarrow> k = length (last rss))"
proof (induction ss arbitrary: b rss)
  case (Cons s ss)
  then obtain rs rss' where rss: "rss = rs # rss'" by (cases rss) simp_all
  have s: "seg_rep fs s rs" "m_partition_dir s = dir" "unat (m_base_offset s) = b" "ss \<noteq> [] \<longrightarrow> rs \<noteq> []"
      "segs_rep fs dir (b + length rs) ss rss'"
    using Cons.prems(1) rss by simp_all
  show ?case
  proof (cases ss)
    case Nil
    then have "rss' = []" using s(5) by (cases rss') simp_all
    then show ?thesis using Nil rss s(3) crashed_active [OF c s(1,2), of i] by auto
  next
    case (Cons s' ss')
    have syn: "seg_synced fs s" "\<forall>s \<in> set (butlast ss). seg_synced fs s" using Cons.prems(3) Cons by simp_all
    have ne: "rss' \<noteq> []" using s(5) Cons by (cases rss') simp_all
    obtain k tail where "k \<le> length (last rss')" "seg_synced fs (last ss) \<longrightarrow> k = length (last rss')"
        "segs_disk fs' dir i (b + length rs) (map m_base_offset ss) (butlast rss' @ [take k (last rss')]) tail"
      using Cons.IH [OF s(5) _ syn(2)] Cons by blast
    then show ?thesis using crashed_sealed [OF c s(1) syn(1) s(2), of i] s(3,4) ne Cons rss
      by (intro exI [of _ k] exI [of _ tail]) simp
  qed
qed simp

section \<open>Reopening\<close>

lemma segs_rep_base_list:
  "segs_rep fs dir b ss rss \<Longrightarrow> sorted (map m_base_offset ss) \<and> distinct (map m_base_offset ss) \<and>
     (\<forall>s \<in> set ss. b \<le> unat (m_base_offset s) \<and> fexists fs (dir @ [format_base_offset (m_base_offset s) @ ''.log'']))"
proof (induction fs dir b ss rss rule: segs_rep.induct)
  case (2 fs dir b s ss rs rss)
  then have ih: "sorted (map m_base_offset ss)" "distinct (map m_base_offset ss)"
      "\<forall>s \<in> set ss. b + length rs \<le> unat (m_base_offset s) \<and> fexists fs (dir @ [format_base_offset (m_base_offset s) @ ''.log''])"
    by simp_all
  have s: "unat (m_base_offset s) = b" "ss \<noteq> [] \<longrightarrow> rs \<noteq> []" "fexists fs (log_path s)" "m_partition_dir s = dir"
    using 2(2) by (simp_all add: seg_rep_def)
  have "m_base_offset s < m_base_offset t" if "t \<in> set ss" for t
    using that ih(3) s(1,2) by (cases ss; cases rs) (auto simp: word_less_nat_alt)
  then show ?case using ih s by (fastforce simp: seg_paths)
qed simp_all

lemma reopen_crashed:
  assumes w: "reliable w" and rep: "part_rep fs P rss" and syn: "sealed_synced fs P"
    and c: "crashed fs fs'"
  shows "\<exists>k P' fs''. open_and_recover w fs' (make_Partition (p_id P) (p_dir P) (p_config P)) = Some (Status_OK, P', fs'') \<and>
    k \<le> length (last rss) \<and> (part_synced fs P \<longrightarrow> k = length (last rss)) \<and>
    part_rep fs'' P' (butlast rss @ [take k (last rss)]) \<and> earliest_offset P' = earliest_offset P"
proof -
  let ?dir = "p_dir P" and ?i = "index_interval_bytes (p_config P)" and ?as = "map m_base_offset (p_segments P)"
  define P0 where "P0 = make_Partition (p_id P) ?dir (p_config P)"
  have P0: "p_dir P0 = ?dir" "p_config P0 = p_config P" "p_segments P0 = []" "P0\<lparr>p_segments := []\<rparr> = P0"
    by (simp_all add: P0_def make_Partition_def)
  have segs: "p_segments P \<noteq> []" "segs_rep fs ?dir (unat (earliest_offset P)) (p_segments P) rss" "dir_ready fs ?dir"
      "only_files fs ?dir (set ?as) (m_base_offset ` set (butlast (p_segments P)))"
    using rep by (simp_all add: part_rep_def)
  have b: "sorted ?as" "distinct ?as" using segs_rep_base_list [OF segs(2)] by blast+
  obtain k tail where k: "k \<le> length (last rss)" "seg_synced fs (last (p_segments P)) \<longrightarrow> k = length (last rss)"
      "segs_disk fs' ?dir ?i (unat (earliest_offset P)) ?as (butlast rss @ [take k (last rss)]) tail"
    using crashed_segs [OF c segs(2,1), of ?i] syn by (auto simp: sealed_synced_def)
  have ready: "dir_ready fs' ?dir" using crashed_ready [OF c segs(3)] .
  have find: "find_base_offsets fs' ?dir = ?as"
    by (rule find_base_offsets_eq [OF crashed_only_files [OF c segs(4)] b])
       (use segs(1) segs_rep_base_list [OF segs(2)] crashed_fexists [OF c] in auto)
  have lastas: "last ?as \<notin> m_base_offset ` set (butlast (p_segments P))"
    using b(2) segs(1) by (cases "p_segments P" rule: rev_cases) auto
  obtain dg ss fs'' where o: "open_segments w (startup_scan (p_config P) = ''full'') ?as P0 fs' = Some (Status_OK,
        P0\<lparr> p_segments := p_segments P0 @ ss, p_next_offset := of_nat (unat (earliest_offset P) + length (concat (butlast rss @ [take k (last rss)]))),
          p_is_degraded := dg \<rparr>, fs'')"
      "segs_rep fs'' ?dir (unat (earliest_offset P)) ss (butlast rss @ [take k (last rss)])" "map m_base_offset ss = ?as"
      "\<not> m_is_sealed (last ss)" "dir_ready fs'' ?dir" "only_files fs'' ?dir (set ?as) (m_base_offset ` set (butlast (p_segments P)))"
    using open_segments_ok [OF w, of fs' P0 "unat (earliest_offset P)" ?as "butlast rss @ [take k (last rss)]" tail
        "set ?as" "m_base_offset ` set (butlast (p_segments P))" "startup_scan (p_config P) = ''full''"]
      k(3) ready crashed_only_files [OF c segs(4)] lastas unfolding P0 by (auto simp: map_butlast [symmetric])
  define n where "n = unat (earliest_offset P) + length (concat (butlast rss @ [take k (last rss)]))"
  define P' where "P' = P0\<lparr> p_segments := ss, p_next_offset := of_nat n, p_is_degraded := dg \<rparr>"
  have ne: "ss \<noteq> []" "rss \<noteq> []" using o(3) segs(1) part_rep_nonempty [OF rep] by auto
  have "concat rss = concat (butlast rss) @ last rss" using ne(2) by (cases rss rule: rev_cases) simp_all
  then have "n \<le> unat (p_next_offset P)" using rep by (simp add: n_def part_rep_def)
  then have n: "unat (of_nat n :: u64) = n" using unat_u64_lt [of "p_next_offset P"] by (rule unat_of_nat_u64 [OF le_less_trans])
  have "unat (m_base_offset (last ss)) \<le> n"
    using o(2) ne(1) by (cases ss rule: rev_cases) (auto simp: n_def segs_rep_snoc)
  then have "\<not> p_next_offset P' < m_base_offset (last (p_segments P'))"
    by (simp add: P'_def word_less_nat_alt n)
  moreover have "open_segments w (startup_scan (p_config P) = ''full'') ?as P0 fs' = Some (Status_OK, P', fs'')"
    using o(1) P0(3) by (simp add: P'_def n_def)
  ultimately have "open_and_recover w fs' P0 = Some (Status_OK, P', fs'')"
    unfolding open_and_recover_def P0 create_directories_ready [OF ready] find Let_def by simp
  moreover have e: "earliest_offset P' = earliest_offset P"
    using o(3) ne(1) segs(1) by (cases ss; cases "p_segments P") (simp_all add: earliest_offset_def P'_def)
  moreover have "part_rep fs'' P' (butlast rss @ [take k (last rss)])"
  proof -
    have "m_base_offset ` set ss = set ?as" "m_base_offset ` set (butlast ss) = m_base_offset ` set (butlast (p_segments P))"
      using o(3) by (metis list.set_map, metis list.set_map map_butlast)
    then show ?thesis using o ne n P0 unfolding part_rep_def e by (simp add: P'_def n_def)
  qed
  ultimately show ?thesis using k segs(1) unfolding P0_def
    by (intro exI [of _ k] exI [of _ P'] exI [of _ fs'']) (simp add: part_synced_def)
qed

section \<open>Properties\<close>

text \<open>
  C5. Crash safety of a partition: whatever prefix of each file a crash keeps, as long as it
  contains what was flushed, \<^verbatim>\<open>open_and_recover\<close> succeeds and the reopened partition represents a
  prefix of the old log with the same earliest offset. Only records of the active segment can be
  missing, and none is when every segment had been flushed.
\<close>

theorem crash_keeps_log_prefix:
  assumes "reliable w" "part_rep fs P rss" "sealed_synced fs P" "crashed fs fs'"
  shows "\<exists>k P' fs''. open_and_recover w fs' (make_Partition (p_id P) (p_dir P) (p_config P)) = Some (Status_OK, P', fs'') \<and>
    part_rep fs'' P' (butlast rss @ [take k (last rss)]) \<and> earliest_offset P' = earliest_offset P \<and>
    (part_synced fs P \<longrightarrow> butlast rss @ [take k (last rss)] = rss)"
proof -
  obtain k P' fs'' where "open_and_recover w fs' (make_Partition (p_id P) (p_dir P) (p_config P)) = Some (Status_OK, P', fs'')"
      "part_synced fs P \<longrightarrow> k = length (last rss)" "part_rep fs'' P' (butlast rss @ [take k (last rss)])"
      "earliest_offset P' = earliest_offset P"
    using reopen_crashed [OF assms] by blast
  then show ?thesis using part_rep_nonempty [OF assms(2)]
    by (intro exI [of _ k] exI [of _ P'] exI [of _ fs'']) simp
qed

text \<open>A crash that loses everything the disk had not been told to keep.\<close>

definition worst_crash :: "filesys \<Rightarrow> filesys" where
  "worst_crash fs = fs\<lparr> fs_files := map (\<lambda>(p, f). (p, f\<lparr> f_data := take (f_synced f) (f_data f) \<rparr>)) (fs_files fs) \<rparr>"

lemma crashed_worst_crash: "crashed fs (worst_crash fs)"
proof -
  have m: "map_of (fs_files (worst_crash fs)) p = map_option (\<lambda>f. f\<lparr> f_data := take (f_synced f) (f_data f) \<rparr>) (map_of (fs_files fs) p)" for p
    by (simp add: worst_crash_def map_of_map)
  show ?thesis
    unfolding crashed_def fexists_def get_file_def m
    by (auto simp: worst_crash_def empty_file_def split: option.split)
qed

theorem crash_keeps_log_prefix_witness:
  "\<exists>k P' fs''. open_and_recover ideal_os (worst_crash (sample_fs [])) (make_Partition 0 [''topic-0''] default_StorageConfig) = Some (Status_OK, P', fs'') \<and>
    part_rep fs'' P' (butlast [[]] @ [take k (last [[]])]) \<and> earliest_offset P' = earliest_offset sample_part \<and>
    (part_synced (sample_fs []) sample_part \<longrightarrow> butlast [[]] @ [take k (last [[]])] = ([[]] :: Record list list))"
  using crash_keeps_log_prefix [OF reliable_ideal_os sample_part_rep _ crashed_worst_crash]
  by (simp add: sealed_synced_def sample_part_def make_Partition_def)

text \<open>
  C1. An acknowledged append is durable: with \<^verbatim>\<open>sync_on_append\<close> and everything before it
  flushed, after \<^verbatim>\<open>Partition::append\<close> has returned an offset, no crash loses the record: the
  partition reopened from whatever the crash left holds the old log and the new record at that
  offset.
\<close>

theorem acknowledged_append_survives_crash:
  assumes "reliable w" "part_rep fs P rss" "part_synced fs P" "sync_on_append (p_config P)"
    and "28 + length key + length val \<le> 1048576" "unat (p_next_offset P) + 1 < 2 ^ 64"
  shows "\<exists>P' fs' r. part_append_with_timestamp w fs P key val ts = Some (Inr (p_next_offset P), P', fs') \<and>
    r = \<lparr> r_offset = p_next_offset P, r_timestamp_ms = ts, r_key = key, r_value = val \<rparr> \<and>
    (\<forall>fs2. crashed fs' fs2 \<longrightarrow> (\<exists>P3 fs3 rss3.
       open_and_recover w fs2 (make_Partition (p_id P) (p_dir P) (p_config P)) = Some (Status_OK, P3, fs3) \<and>
       part_rep fs3 P3 rss3 \<and> concat rss3 = concat rss @ [r]))"
proof -
  define r where "r = \<lparr> r_offset = p_next_offset P, r_timestamp_ms = ts, r_key = key, r_value = val \<rparr>"
  obtain P' fs' rss' where a: "part_append_with_timestamp w fs P key val ts = Some (Inr (p_next_offset P), P', fs')"
      "part_rep fs' P' rss'" "concat rss' = concat rss @ [r]" "part_synced fs' P'" "same_part P P'"
    using part_append_ok [OF assms(1,2,5,6) r_def] assms(3,4) by blast
  have "\<exists>P3 fs3 rss3. open_and_recover w fs2 (make_Partition (p_id P) (p_dir P) (p_config P)) = Some (Status_OK, P3, fs3) \<and>
       part_rep fs3 P3 rss3 \<and> concat rss3 = concat rss @ [r]" if c: "crashed fs' fs2" for fs2
  proof -
    have "sealed_synced fs' P'" using a(4) by (auto simp: sealed_synced_def part_synced_def dest: in_set_butlastD)
    then obtain k P3 fs3 where "open_and_recover w fs2 (make_Partition (p_id P) (p_dir P) (p_config P)) = Some (Status_OK, P3, fs3)"
        "k = length (last rss')" "part_rep fs3 P3 (butlast rss' @ [take k (last rss')])"
      using reopen_crashed [OF assms(1) a(2) _ c] a(4,5) by (auto simp: same_part_def)
    then show ?thesis using part_rep_nonempty [OF a(2)] a(3) by auto
  qed
  then show ?thesis using a(1) r_def by blast
qed

theorem acknowledged_append_survives_crash_witness:
  "\<exists>P' fs' r. part_append_with_timestamp ideal_os (sample_fs [])
      (sample_part\<lparr> p_config := default_StorageConfig\<lparr> sync_on_append := True \<rparr> \<rparr>) [1] [2] 3 = Some (Inr 0, P', fs') \<and>
    r = \<lparr> r_offset = 0, r_timestamp_ms = 3, r_key = [1], r_value = [2] \<rparr> \<and>
    (\<forall>fs2. crashed fs' fs2 \<longrightarrow> (\<exists>P3 fs3 rss3.
       open_and_recover ideal_os fs2 (make_Partition 0 [''topic-0''] (default_StorageConfig\<lparr> sync_on_append := True \<rparr>)) = Some (Status_OK, P3, fs3) \<and>
       part_rep fs3 P3 rss3 \<and> concat rss3 = [] @ [r]))"
proof -
  let ?P = "sample_part\<lparr> p_config := default_StorageConfig\<lparr> sync_on_append := True \<rparr> \<rparr>"
  have "part_rep (sample_fs []) ?P [[]]" using sample_part_rep by (simp add: part_rep_def earliest_offset_def)
  moreover have "part_synced (sample_fs []) ?P"
    by (simp add: part_synced_def seg_synced_def sample_fs_def get_file_def seg_paths sample_seg_def make_LogSegment_def Let_def empty_file_def)
  ultimately show ?thesis
    using acknowledged_append_survives_crash [OF reliable_ideal_os, of "sample_fs []" ?P "[[]]" "[1]" "[2]" 3]
    by (simp add: sample_part_def make_Partition_def)
qed

end
