(* ===== verification/FrameCodec.thy ===== *)
theory FrameCodec
  imports ByteOrder
begin

text \<open>
  The wire frames of \<^verbatim>\<open>src/src/FrameCodec.cpp\<close>: \<^verbatim>\<open>length(4) type(1) request_id(4) body\<close>,
  integers big-endian, \<^verbatim>\<open>length\<close> counting what follows it. \<^verbatim>\<open>htonl\<close> and its relatives swap
  the bytes on the little-endian host. A \<^verbatim>\<open>std::string\<close> is a \<open>string\<close>; \<open>chars_of_bytes\<close> and
  \<open>bytes_of_chars\<close> are the two casts between \<^verbatim>\<open>char\<close> and \<^verbatim>\<open>uint8_t\<close>.
\<close>

section \<open>Constants\<close>

definition MAX_FRAME_LENGTH :: u32 where "MAX_FRAME_LENGTH = 1024 * 1024"
definition HEADER_SIZE :: u32 where "HEADER_SIZE = 5"

definition PING :: u8 where "PING = 0x01"
definition ECHO :: u8 where "ECHO = 0x02"
definition SHUTDOWN :: u8 where "SHUTDOWN = 0x05"
definition CREATE_TOPIC :: u8 where "CREATE_TOPIC = 0x10"
definition PRODUCE :: u8 where "PRODUCE = 0x11"
definition FETCH :: u8 where "FETCH = 0x12"
definition LIST_TOPICS :: u8 where "LIST_TOPICS = 0x13"
definition DESCRIBE_TOPIC :: u8 where "DESCRIBE_TOPIC = 0x14"
definition PONG :: u8 where "PONG = 0x81"
definition ECHO_REPLY :: u8 where "ECHO_REPLY = 0x82"
definition SHUTDOWN_OK :: u8 where "SHUTDOWN_OK = 0x85"
definition CREATE_TOPIC_OK :: u8 where "CREATE_TOPIC_OK = 0x90"
definition PRODUCE_OK :: u8 where "PRODUCE_OK = 0x91"
definition FETCH_OK :: u8 where "FETCH_OK = 0x92"
definition TOPICS :: u8 where "TOPICS = 0x93"
definition TOPIC_DESCRIPTION :: u8 where "TOPIC_DESCRIPTION = 0x94"
definition JOIN_GROUP :: u8 where "JOIN_GROUP = 0x20"
definition HEARTBEAT :: u8 where "HEARTBEAT = 0x21"
definition LEAVE_GROUP :: u8 where "LEAVE_GROUP = 0x22"
definition COMMIT_OFFSET :: u8 where "COMMIT_OFFSET = 0x23"
definition FETCH_OFFSET :: u8 where "FETCH_OFFSET = 0x24"
definition DESCRIBE_GROUP :: u8 where "DESCRIBE_GROUP = 0x25"
definition JOIN_GROUP_OK :: u8 where "JOIN_GROUP_OK = 0xA0"
definition HEARTBEAT_OK :: u8 where "HEARTBEAT_OK = 0xA1"
definition LEAVE_GROUP_OK :: u8 where "LEAVE_GROUP_OK = 0xA2"
definition COMMIT_OK :: u8 where "COMMIT_OK = 0xA3"
definition OFFSETS :: u8 where "OFFSETS = 0xA4"
definition GROUP_DESCRIPTION :: u8 where "GROUP_DESCRIPTION = 0xA5"
definition MSG_ERROR :: u8 where "MSG_ERROR = 0xFF"

definition UNKNOWN_TYPE :: u16 where "UNKNOWN_TYPE = 1"
definition FRAME_TOO_LARGE :: u16 where "FRAME_TOO_LARGE = 2"
definition MALFORMED_FRAME :: u16 where "MALFORMED_FRAME = 3"
definition UNKNOWN_TOPIC :: u16 where "UNKNOWN_TOPIC = 4"
definition TOPIC_ALREADY_EXISTS :: u16 where "TOPIC_ALREADY_EXISTS = 5"
definition INVALID_TOPIC_NAME :: u16 where "INVALID_TOPIC_NAME = 6"
definition INVALID_PARTITION :: u16 where "INVALID_PARTITION = 7"
definition OFFSET_OUT_OF_RANGE :: u16 where "OFFSET_OUT_OF_RANGE = 8"
definition RECORD_TOO_LARGE :: u16 where "RECORD_TOO_LARGE = 9"
definition MALFORMED_BODY :: u16 where "MALFORMED_BODY = 10"
definition CORRUPT_DATA :: u16 where "CORRUPT_DATA = 11"
definition INTERNAL_ERROR :: u16 where "INTERNAL_ERROR = 12"
definition INVALID_ARGUMENT :: u16 where "INVALID_ARGUMENT = 13"
definition UNKNOWN_GROUP_OR_MEMBER :: u16 where "UNKNOWN_GROUP_OR_MEMBER = 14"
definition ILLEGAL_GENERATION :: u16 where "ILLEGAL_GENERATION = 15"
definition PARTITION_NOT_ASSIGNED :: u16 where "PARTITION_NOT_ASSIGNED = 16"

lemmas message_type_defs =
  PING_def ECHO_def SHUTDOWN_def CREATE_TOPIC_def PRODUCE_def FETCH_def LIST_TOPICS_def DESCRIBE_TOPIC_def
  PONG_def ECHO_REPLY_def SHUTDOWN_OK_def CREATE_TOPIC_OK_def PRODUCE_OK_def FETCH_OK_def TOPICS_def
  TOPIC_DESCRIPTION_def JOIN_GROUP_def HEARTBEAT_def LEAVE_GROUP_def COMMIT_OFFSET_def FETCH_OFFSET_def
  DESCRIBE_GROUP_def JOIN_GROUP_OK_def HEARTBEAT_OK_def LEAVE_GROUP_OK_def COMMIT_OK_def OFFSETS_def
  GROUP_DESCRIPTION_def MSG_ERROR_def

lemmas error_code_defs =
  UNKNOWN_TYPE_def FRAME_TOO_LARGE_def MALFORMED_FRAME_def UNKNOWN_TOPIC_def TOPIC_ALREADY_EXISTS_def
  INVALID_TOPIC_NAME_def INVALID_PARTITION_def OFFSET_OUT_OF_RANGE_def RECORD_TOO_LARGE_def MALFORMED_BODY_def
  CORRUPT_DATA_def INTERNAL_ERROR_def INVALID_ARGUMENT_def UNKNOWN_GROUP_OR_MEMBER_def ILLEGAL_GENERATION_def
  PARTITION_NOT_ASSIGNED_def

section \<open>Characters and bytes\<close>

definition byte_of_char :: "char \<Rightarrow> u8" where
  "byte_of_char c = of_nat (of_char c)"

definition char_of_byte :: "u8 \<Rightarrow> char" where
  "char_of_byte b = char_of (unat b)"

definition bytes_of_chars :: "string \<Rightarrow> bytes" where
  "bytes_of_chars s = map byte_of_char s"

definition chars_of_bytes :: "bytes \<Rightarrow> string" where
  "chars_of_bytes bs = map char_of_byte bs"

lemma of_char_lt: "of_char c < (256 :: nat)"
  using of_char_of [of "of_char c :: nat"] by (metis char_of_char mod_less_divisor zero_less_numeral)

lemma char_of_byte_of_char [simp]: "char_of_byte (byte_of_char c) = c"
  using of_char_lt [of c] by (simp add: char_of_byte_def byte_of_char_def unat_of_nat take_bit_nat_eq_self)

lemma byte_of_char_of_byte [simp]: "byte_of_char (char_of_byte b) = b"
  by (simp add: char_of_byte_def byte_of_char_def)

lemma chars_of_bytes_of_chars [simp]: "chars_of_bytes (bytes_of_chars s) = s"
  by (simp add: chars_of_bytes_def bytes_of_chars_def o_def)

lemma bytes_of_chars_of_bytes [simp]: "bytes_of_chars (chars_of_bytes bs) = bs"
  by (simp add: chars_of_bytes_def bytes_of_chars_def o_def)

lemma length_bytes_of_chars [simp]: "length (bytes_of_chars s) = length s" "length (chars_of_bytes bs) = length bs"
  by (simp_all add: bytes_of_chars_def chars_of_bytes_def)

section \<open>Integers\<close>

text \<open>\<^verbatim>\<open>memcpy\<close> from the buffer and \<^verbatim>\<open>ntohl\<close>, \<^verbatim>\<open>htonl\<close> and \<^verbatim>\<open>memcpy\<close> to it.\<close>

definition fc_read_u32 :: "bytes \<Rightarrow> u32" where
  "fc_read_u32 buffer = bswap32 (mem_u32 buffer)"

definition fc_write_u32 :: "u32 \<Rightarrow> bytes" where
  "fc_write_u32 v = u32_mem (bswap32 v)"

definition fc_read_u16 :: "bytes \<Rightarrow> u16" where
  "fc_read_u16 buffer = bswap16 (mem_u16 buffer)"

definition fc_write_u16 :: "u16 \<Rightarrow> bytes" where
  "fc_write_u16 v = u16_mem (bswap16 v)"

lemma fc_write_be [simp]: "fc_write_u32 v = be32 v" "fc_write_u16 u = be16 u"
  by (simp_all add: fc_write_u32_def fc_write_u16_def bswap32_layout bswap16_layout)

lemma fc_read_be [simp]: "fc_read_u32 (be32 v @ rest) = v" "fc_read_u16 (be16 u @ rest) = u"
  by (simp_all add: fc_read_u32_def fc_read_u16_def mem_u32_be mem_u16_be)

section \<open>Frames\<close>

record Frame =
  fr_length :: u32
  fr_type :: u8
  fr_request_id :: u32
  fr_body :: bytes

definition default_Frame :: Frame where
  "default_Frame = \<lparr> fr_length = 0, fr_type = 0, fr_request_id = 0, fr_body = [] \<rparr>"

text \<open>\<open>None\<close> when a copy leaves the buffer: the buffer size is computed in 32 bits.\<close>

definition frame_encode :: "Frame \<Rightarrow> bytes option" where
  "frame_encode frame =
     (let payload_len = HEADER_SIZE + of_nat (length (fr_body frame)) :: u32;
          out = replicate (unat (4 + payload_len)) 0
      in do {
        o1 \<leftarrow> mem_write out 0 (fc_write_u32 payload_len);
        o2 \<leftarrow> mem_write o1 4 [fr_type frame];
        o3 \<leftarrow> mem_write o2 5 (fc_write_u32 (fr_request_id frame));
        if fr_body frame \<noteq> [] then mem_write o3 9 (fr_body frame) else Some o3
      })"

definition create_error_frame :: "u32 \<Rightarrow> u16 \<Rightarrow> string \<Rightarrow> Frame" where
  "create_error_frame request_id error_code message =
     (let body = fc_write_u16 error_code @ bytes_of_chars message
      in \<lparr> fr_length = HEADER_SIZE + of_nat (length body), fr_type = MSG_ERROR, fr_request_id = request_id, fr_body = body \<rparr>)"

definition create_pong_frame :: "u32 \<Rightarrow> Frame" where
  "create_pong_frame request_id =
     default_Frame\<lparr> fr_type := PONG, fr_request_id := request_id, fr_length := HEADER_SIZE \<rparr>"

definition create_echo_reply_frame :: "u32 \<Rightarrow> bytes \<Rightarrow> Frame" where
  "create_echo_reply_frame request_id body =
     default_Frame\<lparr> fr_type := ECHO_REPLY, fr_request_id := request_id, fr_body := body,
       fr_length := HEADER_SIZE + of_nat (length body) \<rparr>"

definition parse_error_frame :: "Frame \<Rightarrow> (u16 \<times> string) option" where
  "parse_error_frame frame =
     (if fr_type frame \<noteq> MSG_ERROR \<or> length (fr_body frame) < 2 then None
      else Some (fc_read_u16 (fr_body frame), chars_of_bytes (drop 2 (fr_body frame))))"

section \<open>Laws\<close>

text \<open>The layout on the wire.\<close>

definition frame_bytes :: "Frame \<Rightarrow> bytes" where
  "frame_bytes f = be32 (5 + of_nat (length (fr_body f))) @ [fr_type f] @ be32 (fr_request_id f) @ fr_body f"

lemma length_frame_bytes [simp]: "length (frame_bytes f) = 9 + length (fr_body f)"
  by (simp add: frame_bytes_def)

lemma mem_write_append:
  "length old = length src \<Longrightarrow> length pre = k \<Longrightarrow> mem_write (pre @ old @ post) k src = Some (pre @ src @ post)"
  by (simp add: mem_write_def)

lemma frame_encode_layout:
  assumes "length (fr_body f) < 2 ^ 32 - 9"
  shows "frame_encode f = Some (frame_bytes f)"
proof -
  let ?n = "length (fr_body f)"
  have "4 + (HEADER_SIZE + of_nat ?n) = (of_nat (9 + ?n) :: u32)" by (simp add: HEADER_SIZE_def)
  then have sz: "unat (4 + (HEADER_SIZE + of_nat ?n) :: u32) = 4 + (1 + (4 + ?n))"
    using assms by (simp only:) (subst unat_of_nat_u32, simp_all)
  have out: "replicate (unat (4 + (HEADER_SIZE + of_nat ?n) :: u32)) (0 :: u8) =
      replicate 4 0 @ replicate 1 0 @ replicate 4 0 @ replicate ?n 0"
    unfolding sz replicate_add by simp
  let ?l = "be32 (HEADER_SIZE + of_nat ?n)" and ?r = "be32 (fr_request_id f)"
  have 1: "mem_write (replicate 4 0 @ replicate 1 0 @ replicate 4 0 @ replicate ?n 0) 0 ?l =
      Some (?l @ replicate 1 0 @ replicate 4 0 @ replicate ?n 0)"
    by (simp add: mem_write_def)
  have 2: "mem_write (?l @ replicate 1 0 @ replicate 4 0 @ replicate ?n 0) 4 [fr_type f] =
      Some (?l @ [fr_type f] @ replicate 4 0 @ replicate ?n 0)"
    by (rule mem_write_append) simp_all
  have 3: "mem_write ((?l @ [fr_type f]) @ replicate 4 0 @ replicate ?n 0) 5 ?r =
      Some ((?l @ [fr_type f]) @ ?r @ replicate ?n 0)"
    by (rule mem_write_append) simp_all
  have 4: "mem_write ((?l @ [fr_type f] @ ?r) @ replicate ?n 0 @ []) 9 (fr_body f) =
      Some ((?l @ [fr_type f] @ ?r) @ fr_body f @ [])"
    by (rule mem_write_append) simp_all
  show ?thesis
    unfolding frame_encode_def Let_def fc_write_be out 1 bind.bind_lunit 2
    using 3 4 by (simp add: frame_bytes_def HEADER_SIZE_def)
qed

end
