(* ===== verification/FrameAssembler.thy ===== *)
theory FrameAssembler
  imports FrameCodec
begin

text \<open>
  \<^verbatim>\<open>src/src/FrameAssembler.cpp\<close>: the buffer that cuts a byte stream into frames. What the
  object means is \<open>unread\<close>, the bytes received and not yet returned; the read offset and the
  compaction of the buffer do not show. Extraction is the function \<open>next_frame\<close> of those bytes,
  so the frames a peer gets do not depend on how the stream was cut into segments.
\<close>

section \<open>The assembler\<close>

datatype FrameExtractResult = FrameReady | NeedMoreData | ErrorLengthTooSmall | ErrorLengthTooLarge

record FrameAssembler =
  m_buffer :: bytes
  m_read_offset :: nat

definition new_FrameAssembler :: FrameAssembler where
  "new_FrameAssembler = \<lparr> m_buffer = [], m_read_offset = 0 \<rparr>"

definition push_bytes :: "FrameAssembler \<Rightarrow> bytes \<Rightarrow> FrameAssembler" where
  "push_bytes fa data = (if data = [] then fa else fa\<lparr> m_buffer := m_buffer fa @ data \<rparr>)"

definition compact_if_needed :: "FrameAssembler \<Rightarrow> FrameAssembler" where
  "compact_if_needed fa =
     (if m_read_offset fa = length (m_buffer fa) then fa\<lparr> m_buffer := [], m_read_offset := 0 \<rparr>
      else if m_read_offset fa > 64 * 1024 then fa\<lparr> m_buffer := drop (m_read_offset fa) (m_buffer fa), m_read_offset := 0 \<rparr>
      else fa)"

definition extract_next_frame :: "FrameAssembler \<Rightarrow> Frame \<Rightarrow> FrameExtractResult \<times> Frame \<times> FrameAssembler" where
  "extract_next_frame fa out_frame =
     (let available = length (m_buffer fa) - m_read_offset fa
      in if available < 4 then (NeedMoreData, out_frame, fa)
      else let len = fc_read_u32 (drop (m_read_offset fa) (m_buffer fa))
      in if len < HEADER_SIZE then (ErrorLengthTooSmall, out_frame, fa)
      else if len > MAX_FRAME_LENGTH then (ErrorLengthTooLarge, out_frame, fa)
      else let total_frame_bytes = 4 + unat len
      in if available < total_frame_bytes then (NeedMoreData, out_frame, fa)
      else let frame_ptr = drop (m_read_offset fa + 4) (m_buffer fa);
               body_len = unat len - unat HEADER_SIZE
      in (FrameReady,
          \<lparr> fr_length = len, fr_type = frame_ptr ! 0, fr_request_id = fc_read_u32 (drop 1 frame_ptr),
             fr_body = (if body_len > 0 then take body_len (drop (unat HEADER_SIZE) frame_ptr) else []) \<rparr>,
          compact_if_needed (fa\<lparr> m_read_offset := m_read_offset fa + total_frame_bytes \<rparr>)))"

definition has_partial_frame :: "FrameAssembler \<Rightarrow> bool" where
  "has_partial_frame fa \<longleftrightarrow> length (m_buffer fa) - m_read_offset fa > 0"

definition buffered_bytes :: "FrameAssembler \<Rightarrow> nat" where
  "buffered_bytes fa = length (m_buffer fa) - m_read_offset fa"

definition fa_clear :: "FrameAssembler \<Rightarrow> FrameAssembler" where
  "fa_clear fa = fa\<lparr> m_buffer := [], m_read_offset := 0 \<rparr>"

section \<open>Abstraction\<close>

definition unread :: "FrameAssembler \<Rightarrow> bytes" where
  "unread fa = drop (m_read_offset fa) (m_buffer fa)"

definition fa_inv :: "FrameAssembler \<Rightarrow> bool" where
  "fa_inv fa \<longleftrightarrow> m_read_offset fa \<le> length (m_buffer fa)"

text \<open>What extraction does to the unread bytes: the result, the frame and the bytes it takes.\<close>

definition next_frame :: "bytes \<Rightarrow> FrameExtractResult \<times> Frame option \<times> nat" where
  "next_frame d =
     (if length d < 4 then (NeedMoreData, None, 0)
      else let len = fc_read_u32 d
      in if unat len < 5 then (ErrorLengthTooSmall, None, 0)
      else if unat len > 1048576 then (ErrorLengthTooLarge, None, 0)
      else if length d < 4 + unat len then (NeedMoreData, None, 0)
      else (FrameReady,
            Some \<lparr> fr_length = len, fr_type = d ! 4, fr_request_id = fc_read_u32 (drop 5 d), fr_body = take (unat len - 5) (drop 9 d) \<rparr>,
            4 + unat len))"

lemma fa_inv_new [simp]: "fa_inv new_FrameAssembler" "unread new_FrameAssembler = []"
  by (simp_all add: fa_inv_def unread_def new_FrameAssembler_def)

lemma buffered_unread: "buffered_bytes fa = length (unread fa)" "has_partial_frame fa \<longleftrightarrow> unread fa \<noteq> []"
  by (auto simp: buffered_bytes_def unread_def has_partial_frame_def)

lemma compact_unread [simp]: "unread (compact_if_needed fa) = unread fa" "fa_inv fa \<Longrightarrow> fa_inv (compact_if_needed fa)"
  by (auto simp: compact_if_needed_def unread_def fa_inv_def)

lemma compact_bound [simp]:
  "m_read_offset fa \<le> length (m_buffer fa) \<Longrightarrow> m_read_offset (compact_if_needed fa) \<le> length (m_buffer (compact_if_needed fa))"
  using compact_unread(2) [of fa] by (simp add: fa_inv_def)

lemma push_unread [simp]: "fa_inv fa \<Longrightarrow> unread (push_bytes fa data) = unread fa @ data" "fa_inv fa \<Longrightarrow> fa_inv (push_bytes fa data)"
  by (auto simp: push_bytes_def unread_def fa_inv_def)

lemma extract_next_frame_abs:
  assumes "fa_inv fa"
  shows "case (extract_next_frame fa out, next_frame (unread fa)) of ((res, f, fa'), (res', fo, n)) \<Rightarrow>
    res = res' \<and> f = (case fo of None \<Rightarrow> out | Some g \<Rightarrow> g) \<and> fa_inv fa' \<and> unread fa' = drop n (unread fa)"
proof -
  have h: "unat HEADER_SIZE = 5" "unat MAX_FRAME_LENGTH = 1048576" by (simp_all add: HEADER_SIZE_def MAX_FRAME_LENGTH_def)
  have d: "drop k (drop (m_read_offset fa) (m_buffer fa)) = drop (m_read_offset fa + k) (m_buffer fa)" for k
    by (simp add: add.commute)
  show ?thesis
    using assms
    unfolding extract_next_frame_def next_frame_def Let_def unread_def word_less_nat_alt h
    by (auto simp: fa_inv_def unread_def [symmetric] nth_drop add.commute add.left_commute)
       (auto simp: unread_def add.commute add.left_commute)
qed

lemma extract_next_frame_decreases:
  assumes "extract_next_frame fa out = (FrameReady, f, fa')"
  shows "length (unread fa') < length (unread fa)"
proof (cases "fa_inv fa")
  case True
  then show ?thesis
    using extract_next_frame_abs [OF True, of out] assms
    by (auto simp: next_frame_def Let_def split: if_splits)
next
  case False
  then show ?thesis using assms by (simp add: extract_next_frame_def fa_inv_def Let_def)
qed

text \<open>The extraction loop of the event loop: frames until the result is not \<open>FrameReady\<close>.\<close>

function drain :: "FrameAssembler \<Rightarrow> Frame list \<times> FrameExtractResult \<times> FrameAssembler" where
  "drain fa = (case extract_next_frame fa default_Frame of (res, f, fa') \<Rightarrow>
     if res = FrameReady then (case drain fa' of (fs, res', fa'') \<Rightarrow> (f # fs, res', fa'')) else ([], res, fa'))"
  by auto
termination by (relation "measure (\<lambda>fa. length (unread fa))") (auto dest: extract_next_frame_decreases [OF sym])

declare drain.simps [simp del]

text \<open>The same on plain bytes.\<close>

function parse :: "bytes \<Rightarrow> Frame list \<times> FrameExtractResult \<times> bytes" where
  "parse d = (case next_frame d of
       (FrameReady, Some f, n) \<Rightarrow> (case parse (drop n d) of (fs, res, r) \<Rightarrow> (f # fs, res, r))
     | (res, _, _) \<Rightarrow> ([], res, d))"
  by auto
termination
  by (relation "measure length") (auto simp: next_frame_def Let_def split: if_splits)

declare parse.simps [simp del]

lemma next_frame_cases:
  obtains f n where "next_frame d = (FrameReady, Some f, n)" "4 < n" "n \<le> length d"
  | res where "next_frame d = (res, None, 0)" "res \<noteq> FrameReady"
  by (cases "fst (next_frame d) = FrameReady") (auto simp: next_frame_def Let_def split: if_splits)

lemma drain_parse:
  "fa_inv fa \<Longrightarrow> case (drain fa, parse (unread fa)) of ((fs, res, fa'), (fs', res', r)) \<Rightarrow>
    fs = fs' \<and> res = res' \<and> fa_inv fa' \<and> unread fa' = r"
proof (induction fa rule: drain.induct)
  case (1 fa)
  obtain res f fa' where e: "extract_next_frame fa default_Frame = (res, f, fa')" by (cases "extract_next_frame fa default_Frame")
  note abs = extract_next_frame_abs [OF "1.prems", of default_Frame, unfolded e]
  show ?case
  proof (cases rule: next_frame_cases [of "unread fa"])
    case (1 g n)
    then have a: "res = FrameReady" "f = g" "fa_inv fa'" "unread fa' = drop n (unread fa)" using abs by auto
    then show ?thesis using "1.IH" [OF e [symmetric] refl a(1,3)] 1(1) e
      by (auto simp: drain.simps [of fa] parse.simps [of "unread fa"] split: prod.splits)
  next
    case (2 res')
    then show ?thesis using abs e by (auto simp: drain.simps [of fa] parse.simps [of "unread fa"] split: FrameExtractResult.splits)
  qed
qed

section \<open>Streams\<close>

lemma fc_read_u32_take: "4 \<le> length d \<Longrightarrow> fc_read_u32 (d @ e) = fc_read_u32 d"
  by (cases "d = []") (simp_all add: fc_read_u32_def mem_u32_def nth_append)

lemma next_frame_mono:
  "next_frame d = (FrameReady, fo, n) \<Longrightarrow> next_frame (d @ e) = (FrameReady, fo, n)"
  "next_frame d = (res, fo, n) \<Longrightarrow> res \<noteq> FrameReady \<Longrightarrow> res \<noteq> NeedMoreData \<Longrightarrow> next_frame (d @ e) = (res, fo, n)"
  using fc_read_u32_take [of d e] fc_read_u32_take [of "drop 5 d" e]
  by (auto simp: next_frame_def Let_def nth_append split: if_splits)

lemma parse_append:
  "parse d = (fs, res, r) \<Longrightarrow> parse (d @ e) = (case parse (r @ e) of (gs, res', r') \<Rightarrow> (fs @ gs, res', r'))"
proof (induction d arbitrary: fs rule: parse.induct)
  case (1 d)
  show ?case
  proof (cases rule: next_frame_cases [of d])
    case (1 f n)
    obtain fs' where p: "parse (drop n d) = (fs', res, r)" "fs = f # fs'"
      using "1.prems" 1 by (auto simp: parse.simps [of d] split: prod.splits)
    show ?thesis using "1.IH" [OF 1(1) [symmetric] refl refl refl p(1)] p 1
      by (subst parse.simps) (simp add: next_frame_mono(1) [OF 1(1)] split: prod.splits)
  next
    case (2 res')
    then have "fs = []" "r = d" using "1.prems" by (auto simp: parse.simps [of d] split: FrameExtractResult.splits)
    then show ?thesis by (simp split: prod.splits)
  qed
qed

text \<open>Feeding a connection the bytes of one \<^verbatim>\<open>recv\<close> after the other.\<close>

fun feed :: "FrameAssembler \<Rightarrow> bytes list \<Rightarrow> Frame list \<times> FrameAssembler" where
  "feed fa [] = ([], fa)"
| "feed fa (c # cs) = (case drain (push_bytes fa c) of (fs, _, fa1) \<Rightarrow>
     (case feed fa1 cs of (gs, fa2) \<Rightarrow> (fs @ gs, fa2)))"

lemma parse_stuck: "parse d = (fs, res, r) \<Longrightarrow> parse r = ([], res, r)"
proof (induction d arbitrary: fs rule: parse.induct)
  case (1 d)
  show ?case
  proof (cases rule: next_frame_cases [of d])
    case (1 f n)
    then show ?thesis using "1.IH" [OF 1(1) [symmetric] refl refl refl] "1.prems"
      by (auto simp: parse.simps [of d] split: prod.splits)
  next
    case (2 res')
    then show ?thesis using "1.prems" by (auto simp: parse.simps split: FrameExtractResult.splits)
  qed
qed

lemma feed_parse:
  "fa_inv fa \<Longrightarrow> parse (unread fa) = ([], res, unread fa) \<Longrightarrow>
    case (feed fa cs, parse (unread fa @ concat cs)) of ((fs, fa'), (fs', _, r)) \<Rightarrow> fs = fs' \<and> fa_inv fa' \<and> unread fa' = r"
proof (induction cs arbitrary: fa res)
  case (Cons c cs)
  obtain fs res1 fa1 where d: "drain (push_bytes fa c) = (fs, res1, fa1)" by (cases "drain (push_bytes fa c)")
  then have p: "parse (unread fa @ c) = (fs, res1, unread fa1)" "fa_inv fa1"
    using drain_parse [of "push_bytes fa c"] Cons.prems by (auto split: prod.splits)
  then show ?case
    using Cons.IH [OF p(2) parse_stuck [OF p(1)]] parse_append [OF p(1), of "concat cs"] d
    by (auto split: prod.splits)
qed simp

text \<open>A frame as the codec builds it: its length field counts header and body and is within the limit.\<close>

definition frame_ok :: "Frame \<Rightarrow> bool" where
  "frame_ok f \<longleftrightarrow> length (fr_body f) + 5 \<le> 1048576 \<and> fr_length f = 5 + of_nat (length (fr_body f))"

lemma next_frame_bytes:
  assumes "frame_ok f"
  shows "next_frame (frame_bytes f @ t) = (FrameReady, Some f, length (frame_bytes f))"
proof -
  have "(5 + of_nat (length (fr_body f)) :: u32) = of_nat (5 + length (fr_body f))" by simp
  then have u: "unat (5 + of_nat (length (fr_body f)) :: u32) = 5 + length (fr_body f)"
    using assms by (simp only:) (subst unat_of_nat_u32, simp_all add: frame_ok_def)
  have len: "fc_read_u32 (frame_bytes f @ t) = 5 + of_nat (length (fr_body f))"
    by (simp add: frame_bytes_def)
  have "frame_bytes f @ t = (be32 (5 + of_nat (length (fr_body f))) @ [fr_type f]) @ be32 (fr_request_id f) @ (fr_body f @ t)"
    by (simp add: frame_bytes_def)
  then have "drop 5 (frame_bytes f @ t) = be32 (fr_request_id f) @ (fr_body f @ t)" "(frame_bytes f @ t) ! 4 = fr_type f"
      "drop 9 (frame_bytes f @ t) = fr_body f @ t"
    by (simp_all add: nth_append)
  then show ?thesis using assms u
    unfolding next_frame_def Let_def len by (simp add: frame_ok_def)
qed

lemma parse_frames: "\<forall>f \<in> set fs. frame_ok f \<Longrightarrow> parse (concat (map frame_bytes fs)) = (fs, NeedMoreData, [])"
proof (induction fs)
  case Nil
  then show ?case by (simp add: parse.simps next_frame_def)
next
  case (Cons f fs)
  then show ?case by (simp add: parse.simps [of "frame_bytes f @ _"] next_frame_bytes)
qed

text \<open>A frame that has not arrived completely.\<close>

lemma next_frame_partial:
  assumes "frame_ok f" "k < length (frame_bytes f)"
  shows "next_frame (take k (frame_bytes f)) = (NeedMoreData, None, 0)"
proof (cases "k < 4")
  case False
  have "(5 + of_nat (length (fr_body f)) :: u32) = of_nat (5 + length (fr_body f))" by simp
  then have u: "unat (5 + of_nat (length (fr_body f)) :: u32) = 5 + length (fr_body f)"
    using assms(1) by (simp only:) (subst unat_of_nat_u32, simp_all add: frame_ok_def)
  have "take k (frame_bytes f) = be32 (5 + of_nat (length (fr_body f))) @ take (k - 4) ([fr_type f] @ be32 (fr_request_id f) @ fr_body f)"
    using False by (simp add: frame_bytes_def)
  then have "fc_read_u32 (take k (frame_bytes f)) = 5 + of_nat (length (fr_body f))" by simp
  then show ?thesis using assms u False unfolding next_frame_def Let_def by (simp add: frame_ok_def)
qed (simp add: next_frame_def)

lemma frame_ok_encode: "frame_ok f \<Longrightarrow> frame_encode f = Some (frame_bytes f)"
  by (rule frame_encode_layout) (simp add: frame_ok_def)

lemma feed_new:
  "case (feed new_FrameAssembler chunks, parse (concat chunks)) of ((fs, fa'), (fs', _, r)) \<Rightarrow> fs = fs' \<and> fa_inv fa' \<and> unread fa' = r"
  using feed_parse [of new_FrameAssembler NeedMoreData chunks] by (simp add: parse.simps [of "[]"] next_frame_def)

lemma feed_frames:
  assumes "\<forall>f \<in> set fs. frame_ok f" "concat chunks = concat (map frame_bytes fs)"
  shows "fst (feed new_FrameAssembler chunks) = fs"
  using feed_new [of chunks] parse_frames [OF assms(1)] assms(2) by (auto split: prod.splits)

section \<open>Properties\<close>

text \<open>
  C9. Frames survive the stream: whatever pieces the encoded frames are received in, and with
  any incomplete frame after them, feeding the pieces to the assembler one by one and extracting
  after each yields exactly the frames that were encoded, in order; what stays buffered is the
  incomplete frame.
\<close>

theorem frames_survive_chunking:
  assumes "\<forall>f \<in> set fs. frame_ok f" "frame_ok g" "k < length (frame_bytes g)"
    and "concat chunks = concat (map (the \<circ> frame_encode) fs) @ take k (the (frame_encode g))"
  shows "fst (feed new_FrameAssembler chunks) = fs \<and> unread (snd (feed new_FrameAssembler chunks)) = take k (the (frame_encode g))"
proof -
  note enc = frame_ok_encode
  have m: "map (the \<circ> frame_encode) fs = map frame_bytes fs" using assms(1) enc by simp
  have c: "concat chunks = concat (map frame_bytes fs) @ take k (frame_bytes g)"
    using assms(4) enc [OF assms(2)] unfolding m by simp
  have "parse (take k (frame_bytes g)) = ([], NeedMoreData, take k (frame_bytes g))"
    by (simp add: parse.simps next_frame_partial [OF assms(2,3)])
  then have "parse (concat chunks) = (fs, NeedMoreData, take k (frame_bytes g))"
    using parse_append [OF parse_frames [OF assms(1)], of "take k (frame_bytes g)"] c by simp
  then show ?thesis using feed_new [of chunks] enc [OF assms(2)] by (auto split: prod.splits)
qed

theorem frames_survive_chunking_witness:
  "fst (feed new_FrameAssembler [[0, 0], [0, 5, 0x81, 0, 0], [0, 1, 0, 0], [0]]) = [create_pong_frame 1] \<and>
   unread (snd (feed new_FrameAssembler [[0, 0], [0, 5, 0x81, 0, 0], [0, 1, 0, 0], [0]])) = take 3 (the (frame_encode (create_pong_frame 2)))"
proof -
  have ok: "frame_ok (create_pong_frame n)" for n
    by (simp add: frame_ok_def create_pong_frame_def default_Frame_def HEADER_SIZE_def)
  have "frame_encode (create_pong_frame n) = Some (frame_bytes (create_pong_frame n))" for n
    by (rule frame_encode_layout) (simp add: create_pong_frame_def default_Frame_def)
  then show ?thesis
    by (intro frames_survive_chunking)
       (simp_all add: ok, simp_all add: frame_bytes_def create_pong_frame_def default_Frame_def be32_def PONG_def)
qed

end
