(* ===== verification/BodyReaderWriter.thy ===== *)
theory BodyReaderWriter
  imports FrameAssembler
begin

text \<open>
  \<^verbatim>\<open>src/include/streamforge/BodyReaderWriter.hpp\<close>: the cursor that reads message bodies and the
  buffer that writes them. A read that returns \<^verbatim>\<open>false\<close> is \<open>None\<close>: every caller then gives up
  the reader and the object it was filling. A writer is its buffer.

  The locale \<open>wire\<close> is what a message relies on: a value is read back from its bytes, with the
  cursor behind them, and a read that succeeds has found the bytes of a well-formed value. It is
  interpreted for every primitive here and for every repeated group of the messages in
  \<open>ProtocolMessages\<close>; the loops over a count are handled once, inside it.
\<close>

section \<open>Reader\<close>

record BodyReader =
  br_data :: bytes
  br_cursor :: nat

definition make_BodyReader :: "bytes \<Rightarrow> BodyReader" where
  "make_BodyReader vec = \<lparr> br_data = vec, br_cursor = 0 \<rparr>"

definition br_remaining :: "BodyReader \<Rightarrow> nat" where
  "br_remaining r = (if br_cursor r < length (br_data r) then length (br_data r) - br_cursor r else 0)"

definition br_require_empty :: "BodyReader \<Rightarrow> bool" where
  "br_require_empty r \<longleftrightarrow> br_cursor r = length (br_data r)"

definition br_read_u8 :: "BodyReader \<Rightarrow> (u8 \<times> BodyReader) option" where
  "br_read_u8 r = (if br_remaining r < 1 then None
     else Some (br_data r ! br_cursor r, r\<lparr> br_cursor := br_cursor r + 1 \<rparr>))"

definition br_read_u16 :: "BodyReader \<Rightarrow> (u16 \<times> BodyReader) option" where
  "br_read_u16 r = (if br_remaining r < 2 then None
     else Some (fc_read_u16 (drop (br_cursor r) (br_data r)), r\<lparr> br_cursor := br_cursor r + 2 \<rparr>))"

definition br_read_u32 :: "BodyReader \<Rightarrow> (u32 \<times> BodyReader) option" where
  "br_read_u32 r = (if br_remaining r < 4 then None
     else Some (fc_read_u32 (drop (br_cursor r) (br_data r)), r\<lparr> br_cursor := br_cursor r + 4 \<rparr>))"

definition br_read_i32 :: "BodyReader \<Rightarrow> (i32 \<times> BodyReader) option" where
  "br_read_i32 r = (case br_read_u32 r of None \<Rightarrow> None | Some (u, r') \<Rightarrow> Some (u, r'))"

definition br_read_u64 :: "BodyReader \<Rightarrow> (u64 \<times> BodyReader) option" where
  "br_read_u64 r = (if br_remaining r < 8 then None
     else let high = fc_read_u32 (drop (br_cursor r) (br_data r));
              low = fc_read_u32 (drop (br_cursor r + 4) (br_data r))
          in Some (push_bit 32 (ucast high) OR ucast low, r\<lparr> br_cursor := br_cursor r + 8 \<rparr>))"

definition br_read_i64 :: "BodyReader \<Rightarrow> (i64 \<times> BodyReader) option" where
  "br_read_i64 r = (case br_read_u64 r of None \<Rightarrow> None | Some (u, r') \<Rightarrow> Some (u, r'))"

definition br_read_string :: "BodyReader \<Rightarrow> (string \<times> BodyReader) option" where
  "br_read_string r = do {
     (len, r1) \<leftarrow> br_read_u16 r;
     if br_remaining r1 < unat len then None
     else Some (chars_of_bytes (take (unat len) (drop (br_cursor r1) (br_data r1))), r1\<lparr> br_cursor := br_cursor r1 + unat len \<rparr>)
   }"

definition br_read_bytes :: "BodyReader \<Rightarrow> (bytes \<times> BodyReader) option" where
  "br_read_bytes r = do {
     (len, r1) \<leftarrow> br_read_u32 r;
     if len > MAX_FRAME_LENGTH \<or> br_remaining r1 < unat len then None
     else Some (take (unat len) (drop (br_cursor r1) (br_data r1)), r1\<lparr> br_cursor := br_cursor r1 + unat len \<rparr>)
   }"

section \<open>Writer\<close>

type_synonym BodyWriter = bytes

definition bw_write_u8 :: "u8 \<Rightarrow> BodyWriter \<Rightarrow> BodyWriter" where
  "bw_write_u8 v w = w @ [v]"

definition bw_write_u16 :: "u16 \<Rightarrow> BodyWriter \<Rightarrow> BodyWriter" where
  "bw_write_u16 v w = w @ fc_write_u16 v"

definition bw_write_u32 :: "u32 \<Rightarrow> BodyWriter \<Rightarrow> BodyWriter" where
  "bw_write_u32 v w = w @ fc_write_u32 v"

definition bw_write_i32 :: "i32 \<Rightarrow> BodyWriter \<Rightarrow> BodyWriter" where
  "bw_write_i32 v w = bw_write_u32 v w"

definition bw_write_u64 :: "u64 \<Rightarrow> BodyWriter \<Rightarrow> BodyWriter" where
  "bw_write_u64 v w =
     (let high = ucast (drop_bit 32 v); low = ucast (v AND 0xFFFFFFFF) in bw_write_u32 low (bw_write_u32 high w))"

definition bw_write_i64 :: "i64 \<Rightarrow> BodyWriter \<Rightarrow> BodyWriter" where
  "bw_write_i64 v w = bw_write_u64 v w"

definition bw_write_string :: "string \<Rightarrow> BodyWriter \<Rightarrow> BodyWriter" where
  "bw_write_string str w = bw_write_u16 (of_nat (length str)) w @ bytes_of_chars str"

definition bw_write_bytes :: "bytes \<Rightarrow> BodyWriter \<Rightarrow> BodyWriter" where
  "bw_write_bytes bs w = bw_write_u32 (of_nat (length bs)) w @ bs"

section \<open>The wire contract\<close>

text \<open>A reader that stands between the bytes it has read and the bytes to come.\<close>

definition rd :: "bytes \<Rightarrow> bytes \<Rightarrow> BodyReader" where
  "rd pre t = \<lparr> br_data = pre @ t, br_cursor = length pre \<rparr>"

lemma make_BodyReader_rd: "make_BodyReader b = rd [] b"
  by (simp add: make_BodyReader_def rd_def)

lemma rd_simps [simp]: "br_remaining (rd pre t) = length t" "br_require_empty (rd pre t) \<longleftrightarrow> t = []"
  by (auto simp: br_remaining_def br_require_empty_def rd_def)

locale wire =
  fixes enc :: "'a \<Rightarrow> bytes"
    and dec :: "BodyReader \<Rightarrow> ('a \<times> BodyReader) option"
    and wf :: "'a \<Rightarrow> bool"
  assumes dec_enc: "wf x \<Longrightarrow> dec (rd pre (enc x @ t)) = Some (x, rd (pre @ enc x) t)"
    and dec_sound: "dec (rd pre t) = Some (x, r) \<Longrightarrow> \<exists>t'. wf x \<and> t = enc x @ t' \<and> r = rd (pre @ enc x) t'"
begin

lemma enc_prefix_free:
  assumes "wf x" "wf y" "enc x @ s = enc y @ t"
  shows "x = y \<and> s = t"
  using dec_enc [OF assms(1), of "[]" s] dec_enc [OF assms(2), of "[]" t] assms(3) by auto

lemma dec_end: "wf x \<Longrightarrow> dec (rd pre (enc x)) = Some (x, rd (pre @ enc x) [])"
  using dec_enc [of x pre "[]"] by simp

end

text \<open>A loop \<^verbatim>\<open>for (i = 0; i < count; ++i)\<close> over one group of reads.\<close>

fun read_n :: "nat \<Rightarrow> (BodyReader \<Rightarrow> ('a \<times> BodyReader) option) \<Rightarrow> BodyReader \<Rightarrow> ('a list \<times> BodyReader) option" where
  "read_n 0 dec r = Some ([], r)"
| "read_n (Suc n) dec r = do { (x, r1) \<leftarrow> dec r; (xs, r2) \<leftarrow> read_n n dec r1; Some (x # xs, r2) }"

context wire
begin

lemma read_n_enc:
  "\<forall>x \<in> set xs. wf x \<Longrightarrow> length xs = n \<Longrightarrow>
    read_n n dec (rd pre (concat (map enc xs) @ t)) = Some (xs, rd (pre @ concat (map enc xs)) t)"
  by (induction xs arbitrary: n pre) (auto simp: dec_enc)

lemma read_n_end:
  "\<forall>x \<in> set xs. wf x \<Longrightarrow> length xs = n \<Longrightarrow>
    read_n n dec (rd pre (concat (map enc xs))) = Some (xs, rd (pre @ concat (map enc xs)) [])"
  using read_n_enc [of xs n pre "[]"] by simp

lemma read_n_sound:
  "read_n n dec (rd pre t) = Some (xs, r) \<Longrightarrow>
    \<exists>t'. length xs = n \<and> (\<forall>x \<in> set xs. wf x) \<and> t = concat (map enc xs) @ t' \<and> r = rd (pre @ concat (map enc xs)) t'"
proof (induction n arbitrary: pre t xs)
  case (Suc n)
  then obtain x r1 xs' where x: "dec (rd pre t) = Some (x, r1)" "read_n n dec r1 = Some (xs', r)" "xs = x # xs'"
    by (auto split: bind_splits)
  obtain t1 where t1: "wf x" "t = enc x @ t1" "r1 = rd (pre @ enc x) t1" using dec_sound [OF x(1)] by blast
  then show ?case using Suc.IH [of "pre @ enc x" t1 xs'] x by auto
qed simp

text \<open>A counted group is itself readable and writable.\<close>

lemma wire_list: "wire (\<lambda>xs. concat (map enc xs)) (read_n n dec) (\<lambda>xs. length xs = n \<and> (\<forall>x \<in> set xs. wf x))"
  by unfold_locales (use read_n_enc read_n_sound in blast)+

end

section \<open>Primitives\<close>

definition wire_u64 :: "u64 \<Rightarrow> bytes" where
  "wire_u64 v = be32 (ucast (drop_bit 32 v)) @ be32 (ucast v)"

definition wire_string :: "string \<Rightarrow> bytes" where
  "wire_string s = be16 (of_nat (length s)) @ bytes_of_chars s"

definition wire_bytes :: "bytes \<Rightarrow> bytes" where
  "wire_bytes b = be32 (of_nat (length b)) @ b"

lemma length_wire [simp]:
  "length (wire_u64 v) = 8" "length (wire_string s) = 2 + length s" "length (wire_bytes b) = 4 + length b"
  by (simp_all add: wire_u64_def wire_string_def wire_bytes_def)

lemma low_u32: "(ucast (v AND 0xFFFFFFFF :: u64) :: u32) = ucast v"
proof -
  have "v AND 0xFFFFFFFF = take_bit 32 v" by (simp add: take_bit_eq_mask mask_eq_exp_minus_1)
  then show ?thesis by (simp only:) (rule bit_word_eqI, auto simp: bit_simps)
qed

lemma write_simps [simp]:
  "bw_write_u8 a w = w @ [a]" "bw_write_u16 b w = w @ be16 b" "bw_write_u32 c w = w @ be32 c" "bw_write_i32 c w = w @ be32 c"
  "bw_write_u64 d w = w @ wire_u64 d" "bw_write_i64 d w = w @ wire_u64 d"
  "bw_write_string s w = w @ wire_string s" "bw_write_bytes bs w = w @ wire_bytes bs"
  by (simp_all add: bw_write_u8_def bw_write_u16_def bw_write_u32_def bw_write_i32_def bw_write_u64_def bw_write_i64_def
      bw_write_string_def bw_write_bytes_def wire_u64_def wire_string_def wire_bytes_def low_u32)

lemma be16_fc_read: "length bs = 2 \<Longrightarrow> be16 (fc_read_u16 (bs @ rest)) = bs"
proof -
  assume "length bs = 2"
  then obtain a b where bs: "bs = [a, b]" by (auto simp: length_Suc_conv numeral_2_eq_2)
  show ?thesis
    by (simp add: bs be_rev fc_read_u16_def bswap16_layout u16_mem_mem)
qed

lemma be32_fc_read: "length bs = 4 \<Longrightarrow> be32 (fc_read_u32 (bs @ rest)) = bs"
  by (simp add: fc_read_u32_def be32_mem_u32)

lemma u64_join: "push_bit 32 (ucast (ucast (drop_bit 32 v) :: u32)) OR ucast (ucast v :: u32) = (v :: u64)"
  by (rule bit_word_eqI) (auto simp: bit_simps)

lemma u64_split:
  "(ucast (drop_bit 32 (push_bit 32 (ucast (h :: u32)) OR ucast (l :: u32) :: u64)) :: u32) = h"
  "(ucast (push_bit 32 (ucast h) OR ucast l :: u64) :: u32) = l"
   apply (rule bit_word_eqI, auto simp: bit_simps dest: bit_imp_le_length)[1]
  apply (rule bit_word_eqI, auto simp: bit_simps)
  done

lemma rd_split: "n \<le> length t \<Longrightarrow> rd pre t = rd pre (take n t @ drop n t)"
  by simp

lemma rd_update: "length x = n \<Longrightarrow> (rd pre (x @ t))\<lparr> br_cursor := length pre + n \<rparr> = rd (pre @ x) t"
  by (simp add: rd_def)

lemma rd_sel [simp]:
  "br_cursor (rd pre t) = length pre" "drop (length pre) (br_data (rd pre t)) = t"
  "drop (length pre + n) (br_data (rd pre t)) = drop n t" "t \<noteq> [] \<Longrightarrow> br_data (rd pre t) ! length pre = t ! 0"
  by (simp_all add: rd_def nth_append)

text \<open>A fixed-size read of the bytes \<open>enc x\<close>.\<close>

lemma wire_fixed:
  assumes len: "\<And>x. length (enc x) = n" and get: "\<And>x t. get (enc x @ t) = x" and put: "\<And>bs t. length bs = n \<Longrightarrow> enc (get (bs @ t)) = bs"
    and dec: "\<And>pre t. dec (rd pre t) = (if length t < n then None else Some (get t, (rd pre t)\<lparr> br_cursor := length pre + n \<rparr>))"
  shows "wire enc dec (\<lambda>_. True)"
proof
  fix x pre t
  show "dec (rd pre (enc x @ t)) = Some (x, rd (pre @ enc x) t)"
    by (simp add: dec len get rd_update)
next
  fix pre t x r assume a: "dec (rd pre t) = Some (x, r)"
  then have n: "n \<le> length t" and x: "x = get t" and r: "r = (rd pre t)\<lparr> br_cursor := length pre + n \<rparr>"
    by (auto simp: dec split: if_splits)
  have e: "enc x = take n t" using put [of "take n t" "drop n t"] n x by simp
  then have "t = enc x @ drop n t" by simp
  moreover have "r = rd (pre @ enc x) (drop n t)"
    using rd_update [of "take n t" n pre "drop n t"] n e r by simp
  ultimately show "\<exists>t'. True \<and> t = enc x @ t' \<and> r = rd (pre @ enc x) t'" by blast
qed

interpretation w_u8: wire "\<lambda>v. [v]" br_read_u8 "\<lambda>_. True"
  by (rule wire_fixed [where n = 1 and get = "\<lambda>d. d ! 0"]) (auto simp: br_read_u8_def length_Suc_conv)

interpretation w_u16: wire be16 br_read_u16 "\<lambda>_. True"
  by (rule wire_fixed [where n = 2 and get = fc_read_u16]) (simp_all add: br_read_u16_def be16_fc_read)

interpretation w_u32: wire be32 br_read_u32 "\<lambda>_. True"
  by (rule wire_fixed [where n = 4 and get = fc_read_u32]) (simp_all add: br_read_u32_def be32_fc_read)

lemma read_i32_u32: "br_read_i32 = br_read_u32" "br_read_i64 = br_read_u64"
  by (auto simp: br_read_i32_def br_read_i64_def fun_eq_iff split: option.split)

interpretation w_i32: wire be32 br_read_i32 "\<lambda>_. True"
  unfolding read_i32_u32 by (rule w_u32.wire_axioms)

interpretation w_u64: wire wire_u64 br_read_u64 "\<lambda>_. True"
proof (rule wire_fixed [where n = 8 and get = "\<lambda>d. push_bit 32 (ucast (fc_read_u32 d)) OR ucast (fc_read_u32 (drop 4 d))"])
  fix bs t :: bytes assume b: "length bs = 8"
  have "be32 (fc_read_u32 (take 4 bs @ (drop 4 bs @ t))) = take 4 bs" by (rule be32_fc_read) (simp add: b)
  moreover have "be32 (fc_read_u32 (drop 4 bs @ t)) = drop 4 bs" by (rule be32_fc_read) (simp add: b)
  ultimately have "be32 (fc_read_u32 (bs @ t)) = take 4 bs" "be32 (fc_read_u32 (drop 4 (bs @ t))) = drop 4 bs"
    using b by (simp_all add: append_assoc [symmetric] del: append_assoc)
  then show "wire_u64 (push_bit 32 (ucast (fc_read_u32 (bs @ t))) OR ucast (fc_read_u32 (drop 4 (bs @ t)))) = bs"
    unfolding wire_u64_def u64_split by simp
next
  fix pre t
  show "br_read_u64 (rd pre t) = (if length t < 8 then None else
      Some (push_bit 32 (ucast (fc_read_u32 t)) OR ucast (fc_read_u32 (drop 4 t)), (rd pre t)\<lparr> br_cursor := length pre + 8 \<rparr>))"
    by (simp add: br_read_u64_def Let_def)
qed (simp_all add: wire_u64_def u64_join)

interpretation w_i64: wire wire_u64 br_read_i64 "\<lambda>_. True"
  unfolding read_i32_u32 by (rule w_u64.wire_axioms)

lemma wire_counted:
  assumes cnt: "wire c dcnt (\<lambda>_. True)" and size: "\<And>x. ok x \<Longrightarrow> unat (of_nat (length (put x)) :: 'w :: len word) = length (put x)"
    and get: "\<And>x. get (put x) = x" "\<And>b. put (get b) = b"
    and lim: "\<And>x. ok x \<longleftrightarrow> \<not> limit (of_nat (length (put x))) \<and> length (put x) < 2 ^ LENGTH('w)"
    and dec: "\<And>r. dec r = dcnt r \<bind> (\<lambda>(len :: 'w word, r1). if limit len \<or> br_remaining r1 < unat len then None
        else Some (get (take (unat len) (drop (br_cursor r1) (br_data r1))), r1\<lparr> br_cursor := br_cursor r1 + unat len \<rparr>))"
  shows "wire (\<lambda>x. c (of_nat (length (put x))) @ put x) dec ok"
proof
  fix x pre t assume ok: "ok x"
  let ?n = "of_nat (length (put x)) :: 'w word" and ?q = "pre @ c (of_nat (length (put x)))"
  have "dcnt (rd pre (c ?n @ put x @ t)) = Some (?n, rd ?q (put x @ t))" by (rule wire.dec_enc [OF cnt TrueI])
  moreover have "\<not> limit ?n" "unat ?n = length (put x)" "\<not> length (put x @ t) < length (put x)" using ok lim size by auto
  ultimately have "dec (rd pre ((c ?n @ put x) @ t)) = Some (get (put x), (rd ?q (put x @ t))\<lparr> br_cursor := length ?q + length (put x) \<rparr>)"
    unfolding dec append_assoc by (simp del: length_append)
  then show "dec (rd pre ((c ?n @ put x) @ t)) = Some (x, rd (pre @ c ?n @ put x) t)"
    unfolding get rd_update [OF refl] by simp
next
  fix pre t x r assume "dec (rd pre t) = Some (x, r)"
  then obtain len r1 where l: "dcnt (rd pre t) = Some (len, r1)" "\<not> limit len" "unat len \<le> br_remaining r1"
      "x = get (take (unat len) (drop (br_cursor r1) (br_data r1)))" "r = r1\<lparr> br_cursor := br_cursor r1 + unat len \<rparr>"
    by (auto simp: dec split: bind_splits if_splits)
  obtain t1 where t1: "t = c len @ t1" "r1 = rd (pre @ c len) t1" using wire.dec_sound [OF cnt l(1)] by blast
  have p: "put x = take (unat len) t1" using l(4) t1(2) get(2) by (simp del: length_append)
  have n: "unat len \<le> length t1" using l(3) t1(2) by simp
  have len: "of_nat (length (put x)) = len" using p n by simp
  have "length (put x) < 2 ^ LENGTH('w)" using p n unsigned_less [of len, where ?'a = nat] by simp
  then have "ok x" using lim l(2) len by simp
  moreover have "t = (c (of_nat (length (put x))) @ put x) @ drop (unat len) t1" by (simp only: len t1(1)) (simp add: p)
  moreover have "r = rd (pre @ c (of_nat (length (put x))) @ put x) (drop (unat len) t1)"
    using l(5) t1(2) rd_update [of "take (unat len) t1" "unat len" "pre @ c len" "drop (unat len) t1"] n unfolding len p by simp
  ultimately show "\<exists>t'. ok x \<and> t = (c (of_nat (length (put x))) @ put x) @ t' \<and> r = rd (pre @ c (of_nat (length (put x))) @ put x) t'" by blast
qed

interpretation w_string: wire wire_string br_read_string "\<lambda>s. length s < 65536"
proof -
  have "wire (\<lambda>x. be16 (of_nat (length (bytes_of_chars x))) @ bytes_of_chars x) br_read_string (\<lambda>s. length s < 65536)"
    by (rule wire_counted [OF w_u16.wire_axioms, where get = chars_of_bytes and limit = "\<lambda>_. False"])
       (simp_all add: unat_of_nat_u16 br_read_string_def)
  then show "wire wire_string br_read_string (\<lambda>s. length s < 65536)" by (simp add: wire_string_def [abs_def])
qed

interpretation w_bytes: wire wire_bytes br_read_bytes "\<lambda>b. length b \<le> 1048576"
proof -
  have lim: "\<not> MAX_FRAME_LENGTH < (of_nat n :: u32) \<longleftrightarrow> n \<le> 1048576" if "n < 4294967296" for n
    using that by (simp add: word_less_nat_alt unat_of_nat_u32 MAX_FRAME_LENGTH_def not_less)
  have "wire (\<lambda>x. be32 (of_nat (length x)) @ x) br_read_bytes (\<lambda>b. length b \<le> 1048576)"
    by (rule wire_counted [OF w_u32.wire_axioms, where get = "\<lambda>b. b" and put = "\<lambda>b. b" and limit = "\<lambda>n. n > MAX_FRAME_LENGTH"])
       (use lim in \<open>auto simp: unat_of_nat_u32 br_read_bytes_def not_less\<close>)
  then show "wire wire_bytes br_read_bytes (\<lambda>b. length b \<le> 1048576)" by (simp add: wire_bytes_def [abs_def])
qed

end
