(* ===== verification/ProtocolMessages.thy ===== *)
theory ProtocolMessages
  imports BodyReaderWriter
begin

text \<open>
  \<^verbatim>\<open>src/include/streamforge/ProtocolMessages.hpp\<close>: the request and response bodies. Each
  \<^verbatim>\<open>decode\<close> fills a default-initialised object and is \<open>None\<close> when the code returns \<^verbatim>\<open>false\<close>;
  each \<^verbatim>\<open>encode\<close> appends to a writer. A field that counts a vector is written from the vector's
  size and read into the field, so a \<open>valid\<close> message is one whose count fields agree and whose
  sizes fit the width they are written with.
\<close>

section \<open>Topic requests\<close>

record CreateTopicRequest =
  ct_topic :: string
  ct_partitions :: u16
  ct_retention_ms :: u64
  ct_retention_bytes :: u64
  ct_has_retention :: bool

definition decode_CreateTopicRequest :: "BodyReader \<Rightarrow> CreateTopicRequest option" where
  "decode_CreateTopicRequest r = do {
     (topic, r) \<leftarrow> br_read_string r;
     (partitions, r) \<leftarrow> br_read_u16 r;
     if br_remaining r > 0 then do {
       (retention_ms, r) \<leftarrow> br_read_u64 r;
       (retention_bytes, r) \<leftarrow> br_read_u64 r;
       if br_require_empty r then Some \<lparr> ct_topic = topic, ct_partitions = partitions,
         ct_retention_ms = retention_ms, ct_retention_bytes = retention_bytes, ct_has_retention = True \<rparr> else None
     }
     else if br_require_empty r then Some \<lparr> ct_topic = topic, ct_partitions = partitions,
         ct_retention_ms = 0, ct_retention_bytes = 0, ct_has_retention = False \<rparr> else None
   }"

definition encode_CreateTopicRequest :: "CreateTopicRequest \<Rightarrow> BodyWriter \<Rightarrow> BodyWriter" where
  "encode_CreateTopicRequest m w =
     (let w = bw_write_string (ct_topic m) w;
          w = bw_write_u16 (ct_partitions m) w
      in if ct_has_retention m then
           (let w = bw_write_u64 (ct_retention_ms m) w in bw_write_u64 (ct_retention_bytes m) w)
         else w)"

record ProduceRecordPayload =
  prp_key :: bytes
  prp_value :: bytes

record ProduceRequest =
  pr_topic :: string
  pr_partition :: i32
  pr_record_count :: u16
  pr_records :: "ProduceRecordPayload list"

definition read_ProduceRecordPayload :: "BodyReader \<Rightarrow> (ProduceRecordPayload \<times> BodyReader) option" where
  "read_ProduceRecordPayload r = do {
     (key, r) \<leftarrow> br_read_bytes r;
     (val, r) \<leftarrow> br_read_bytes r;
     Some (\<lparr> prp_key = key, prp_value = val \<rparr>, r)
   }"

definition decode_ProduceRequest :: "BodyReader \<Rightarrow> ProduceRequest option" where
  "decode_ProduceRequest r = do {
     (topic, r) \<leftarrow> br_read_string r;
     (partition, r) \<leftarrow> br_read_i32 r;
     (record_count, r) \<leftarrow> br_read_u16 r;
     (records, r) \<leftarrow> read_n (unat record_count) read_ProduceRecordPayload r;
     if br_require_empty r then Some \<lparr> pr_topic = topic, pr_partition = partition,
       pr_record_count = record_count, pr_records = records \<rparr> else None
   }"

definition encode_ProduceRequest :: "ProduceRequest \<Rightarrow> BodyWriter \<Rightarrow> BodyWriter" where
  "encode_ProduceRequest m w =
     (let w = bw_write_string (pr_topic m) w;
          w = bw_write_i32 (pr_partition m) w;
          w = bw_write_u16 (of_nat (length (pr_records m))) w
      in foldl (\<lambda>w p. bw_write_bytes (prp_value p) (bw_write_bytes (prp_key p) w)) w (pr_records m))"

record FetchRequest =
  fq_topic :: string
  fq_partition :: u16
  fq_start_offset :: u64
  fq_max_bytes :: u32
  fq_max_messages :: u32

definition decode_FetchRequest :: "BodyReader \<Rightarrow> FetchRequest option" where
  "decode_FetchRequest r = do {
     (topic, r) \<leftarrow> br_read_string r;
     (partition, r) \<leftarrow> br_read_u16 r;
     (start_offset, r) \<leftarrow> br_read_u64 r;
     (max_bytes, r) \<leftarrow> br_read_u32 r;
     (max_messages, r) \<leftarrow> br_read_u32 r;
     if br_require_empty r then Some \<lparr> fq_topic = topic, fq_partition = partition, fq_start_offset = start_offset,
       fq_max_bytes = max_bytes, fq_max_messages = max_messages \<rparr> else None
   }"

definition encode_FetchRequest :: "FetchRequest \<Rightarrow> BodyWriter \<Rightarrow> BodyWriter" where
  "encode_FetchRequest m w =
     (let w = bw_write_string (fq_topic m) w;
          w = bw_write_u16 (fq_partition m) w;
          w = bw_write_u64 (fq_start_offset m) w;
          w = bw_write_u32 (fq_max_bytes m) w
      in bw_write_u32 (fq_max_messages m) w)"

text \<open>The messages with an empty body; their struct has no fields, an object of it is \<open>()\<close>.\<close>

definition decode_empty :: "BodyReader \<Rightarrow> unit option" where
  "decode_empty r = (if br_require_empty r then Some () else None)"

definition encode_empty :: "unit \<Rightarrow> BodyWriter \<Rightarrow> BodyWriter" where
  "encode_empty m w = w"

definition decode_ListTopicsRequest :: "BodyReader \<Rightarrow> unit option" where
  "decode_ListTopicsRequest r = decode_empty r"

record DescribeTopicRequest =
  dq_topic :: string

definition decode_DescribeTopicRequest :: "BodyReader \<Rightarrow> DescribeTopicRequest option" where
  "decode_DescribeTopicRequest r = do {
     (topic, r) \<leftarrow> br_read_string r;
     if br_require_empty r then Some \<lparr> dq_topic = topic \<rparr> else None
   }"

definition encode_DescribeTopicRequest :: "DescribeTopicRequest \<Rightarrow> BodyWriter \<Rightarrow> BodyWriter" where
  "encode_DescribeTopicRequest m w = bw_write_string (dq_topic m) w"

section \<open>Topic responses\<close>

record ProduceResponse =
  ps_partition :: u16
  ps_base_offset :: u64
  ps_count :: u16

definition encode_ProduceResponse :: "ProduceResponse \<Rightarrow> BodyWriter \<Rightarrow> BodyWriter" where
  "encode_ProduceResponse m w =
     (let w = bw_write_u16 (ps_partition m) w;
          w = bw_write_u64 (ps_base_offset m) w
      in bw_write_u16 (ps_count m) w)"

definition decode_ProduceResponse :: "BodyReader \<Rightarrow> ProduceResponse option" where
  "decode_ProduceResponse r = do {
     (partition, r) \<leftarrow> br_read_u16 r;
     (base_offset, r) \<leftarrow> br_read_u64 r;
     (count, r) \<leftarrow> br_read_u16 r;
     if br_require_empty r then Some \<lparr> ps_partition = partition, ps_base_offset = base_offset, ps_count = count \<rparr> else None
   }"

record FetchRecordWire =
  frw_offset :: u64
  frw_timestamp_ms :: i64
  frw_key :: bytes
  frw_value :: bytes

record FetchResponse =
  fs_next_offset :: u64
  fs_high_watermark :: u64
  fs_earliest_offset :: u64
  fs_record_count :: u16
  fs_records :: "FetchRecordWire list"

definition write_FetchRecordWire :: "BodyWriter \<Rightarrow> FetchRecordWire \<Rightarrow> BodyWriter" where
  "write_FetchRecordWire w p =
     (let w = bw_write_u64 (frw_offset p) w;
          w = bw_write_i64 (frw_timestamp_ms p) w;
          w = bw_write_bytes (frw_key p) w
      in bw_write_bytes (frw_value p) w)"

definition encode_FetchResponse :: "FetchResponse \<Rightarrow> BodyWriter \<Rightarrow> BodyWriter" where
  "encode_FetchResponse m w =
     (let w = bw_write_u64 (fs_next_offset m) w;
          w = bw_write_u64 (fs_high_watermark m) w;
          w = bw_write_u64 (fs_earliest_offset m) w;
          w = bw_write_u16 (of_nat (length (fs_records m))) w
      in foldl write_FetchRecordWire w (fs_records m))"

definition read_FetchRecordWire :: "BodyReader \<Rightarrow> (FetchRecordWire \<times> BodyReader) option" where
  "read_FetchRecordWire r = do {
     (off, r) \<leftarrow> br_read_u64 r;
     (timestamp_ms, r) \<leftarrow> br_read_i64 r;
     (key, r) \<leftarrow> br_read_bytes r;
     (val, r) \<leftarrow> br_read_bytes r;
     Some (\<lparr> frw_offset = off, frw_timestamp_ms = timestamp_ms, frw_key = key, frw_value = val \<rparr>, r)
   }"

definition decode_FetchResponse :: "BodyReader \<Rightarrow> FetchResponse option" where
  "decode_FetchResponse r = do {
     (next_offset, r) \<leftarrow> br_read_u64 r;
     (high_watermark, r) \<leftarrow> br_read_u64 r;
     (earliest, r) \<leftarrow> br_read_u64 r;
     (record_count, r) \<leftarrow> br_read_u16 r;
     (records, r) \<leftarrow> read_n (unat record_count) read_FetchRecordWire r;
     if br_require_empty r then Some \<lparr> fs_next_offset = next_offset, fs_high_watermark = high_watermark,
       fs_earliest_offset = earliest, fs_record_count = record_count, fs_records = records \<rparr> else None
   }"

record TopicInfoWire =
  ti_name :: string
  ti_partitions :: u16

record ListTopicsResponse =
  ls_count :: u16
  ls_topics :: "TopicInfoWire list"

definition encode_ListTopicsResponse :: "ListTopicsResponse \<Rightarrow> BodyWriter \<Rightarrow> BodyWriter" where
  "encode_ListTopicsResponse m w =
     foldl (\<lambda>w t. bw_write_u16 (ti_partitions t) (bw_write_string (ti_name t) w))
       (bw_write_u16 (of_nat (length (ls_topics m))) w) (ls_topics m)"

definition read_TopicInfoWire :: "BodyReader \<Rightarrow> (TopicInfoWire \<times> BodyReader) option" where
  "read_TopicInfoWire r = do {
     (name, r) \<leftarrow> br_read_string r;
     (partitions, r) \<leftarrow> br_read_u16 r;
     Some (\<lparr> ti_name = name, ti_partitions = partitions \<rparr>, r)
   }"

definition decode_ListTopicsResponse :: "BodyReader \<Rightarrow> ListTopicsResponse option" where
  "decode_ListTopicsResponse r = do {
     (count, r) \<leftarrow> br_read_u16 r;
     (topics, r) \<leftarrow> read_n (unat count) read_TopicInfoWire r;
     if br_require_empty r then Some \<lparr> ls_count = count, ls_topics = topics \<rparr> else None
   }"

record PartitionOffsetWire =
  po_earliest :: u64
  po_next_offset :: u64
  po_segment_count :: u32

record DescribeTopicResponse =
  ds_name :: string
  ds_partitions :: u16
  ds_partition_offsets :: "PartitionOffsetWire list"
  ds_retention_ms :: u64
  ds_retention_bytes :: u64
  ds_degraded :: u8

definition write_PartitionOffsetWire :: "BodyWriter \<Rightarrow> PartitionOffsetWire \<Rightarrow> BodyWriter" where
  "write_PartitionOffsetWire w po =
     (let w = bw_write_u64 (po_earliest po) w;
          w = bw_write_u64 (po_next_offset po) w
      in bw_write_u32 (po_segment_count po) w)"

definition encode_DescribeTopicResponse :: "DescribeTopicResponse \<Rightarrow> BodyWriter \<Rightarrow> BodyWriter" where
  "encode_DescribeTopicResponse m w =
     (let w = bw_write_string (ds_name m) w;
          w = bw_write_u16 (ds_partitions m) w;
          w = foldl write_PartitionOffsetWire w (ds_partition_offsets m);
          w = bw_write_u64 (ds_retention_ms m) w;
          w = bw_write_u64 (ds_retention_bytes m) w
      in bw_write_u8 (ds_degraded m) w)"

definition read_PartitionOffsetWire :: "bool \<Rightarrow> BodyReader \<Rightarrow> (PartitionOffsetWire \<times> BodyReader) option" where
  "read_PartitionOffsetWire extended r = do {
     (earliest, r) \<leftarrow> br_read_u64 r;
     (next_offset, r) \<leftarrow> br_read_u64 r;
     if extended then do {
       (segment_count, r) \<leftarrow> br_read_u32 r;
       Some (\<lparr> po_earliest = earliest, po_next_offset = next_offset, po_segment_count = segment_count \<rparr>, r)
     }
     else Some (\<lparr> po_earliest = earliest, po_next_offset = next_offset, po_segment_count = 1 \<rparr>, r)
   }"

definition decode_DescribeTopicResponse :: "BodyReader \<Rightarrow> DescribeTopicResponse option" where
  "decode_DescribeTopicResponse r = do {
     (name, r) \<leftarrow> br_read_string r;
     (partitions, r) \<leftarrow> br_read_u16 r;
     let extended = (br_remaining r \<ge> unat partitions * 20);
     (partition_offsets, r) \<leftarrow> read_n (unat partitions) (read_PartitionOffsetWire extended) r;
     if extended \<and> br_remaining r \<ge> 17 then do {
       (retention_ms, r) \<leftarrow> br_read_u64 r;
       (retention_bytes, r) \<leftarrow> br_read_u64 r;
       (degraded, r) \<leftarrow> br_read_u8 r;
       if br_require_empty r then Some \<lparr> ds_name = name, ds_partitions = partitions, ds_partition_offsets = partition_offsets,
         ds_retention_ms = retention_ms, ds_retention_bytes = retention_bytes, ds_degraded = degraded \<rparr> else None
     }
     else if br_require_empty r then Some \<lparr> ds_name = name, ds_partitions = partitions, ds_partition_offsets = partition_offsets,
         ds_retention_ms = 0, ds_retention_bytes = 0, ds_degraded = 0 \<rparr> else None
   }"

section \<open>Group requests\<close>

record JoinGroupRequest =
  jq_group_id :: string
  jq_member_id :: string
  jq_session_timeout_ms :: u32
  jq_strategy :: u8
  jq_topic_count :: u16
  jq_topics :: "string list"

definition decode_JoinGroupRequest :: "BodyReader \<Rightarrow> JoinGroupRequest option" where
  "decode_JoinGroupRequest r = do {
     (group_id, r) \<leftarrow> br_read_string r;
     (member_id, r) \<leftarrow> br_read_string r;
     (session_timeout_ms, r) \<leftarrow> br_read_u32 r;
     (strategy, r) \<leftarrow> br_read_u8 r;
     (topic_count, r) \<leftarrow> br_read_u16 r;
     if br_remaining r < unat topic_count * 2 then None
     else do {
       (topics, r) \<leftarrow> read_n (unat topic_count) br_read_string r;
       if br_require_empty r then Some \<lparr> jq_group_id = group_id, jq_member_id = member_id,
         jq_session_timeout_ms = session_timeout_ms, jq_strategy = strategy, jq_topic_count = topic_count, jq_topics = topics \<rparr> else None
     }
   }"

definition encode_JoinGroupRequest :: "JoinGroupRequest \<Rightarrow> BodyWriter \<Rightarrow> BodyWriter" where
  "encode_JoinGroupRequest m w =
     (let w = bw_write_string (jq_group_id m) w;
          w = bw_write_string (jq_member_id m) w;
          w = bw_write_u32 (jq_session_timeout_ms m) w;
          w = bw_write_u8 (jq_strategy m) w;
          w = bw_write_u16 (of_nat (length (jq_topics m))) w
      in foldl (\<lambda>w t. bw_write_string t w) w (jq_topics m))"

record HeartbeatRequest =
  hq_group_id :: string
  hq_member_id :: string
  hq_generation :: u32

definition decode_HeartbeatRequest :: "BodyReader \<Rightarrow> HeartbeatRequest option" where
  "decode_HeartbeatRequest r = do {
     (group_id, r) \<leftarrow> br_read_string r;
     (member_id, r) \<leftarrow> br_read_string r;
     (generation, r) \<leftarrow> br_read_u32 r;
     if br_require_empty r then Some \<lparr> hq_group_id = group_id, hq_member_id = member_id, hq_generation = generation \<rparr> else None
   }"

definition encode_HeartbeatRequest :: "HeartbeatRequest \<Rightarrow> BodyWriter \<Rightarrow> BodyWriter" where
  "encode_HeartbeatRequest m w =
     (let w = bw_write_string (hq_group_id m) w;
          w = bw_write_string (hq_member_id m) w
      in bw_write_u32 (hq_generation m) w)"

record LeaveGroupRequest =
  lq_group_id :: string
  lq_member_id :: string

definition decode_LeaveGroupRequest :: "BodyReader \<Rightarrow> LeaveGroupRequest option" where
  "decode_LeaveGroupRequest r = do {
     (group_id, r) \<leftarrow> br_read_string r;
     (member_id, r) \<leftarrow> br_read_string r;
     if br_require_empty r then Some \<lparr> lq_group_id = group_id, lq_member_id = member_id \<rparr> else None
   }"

definition encode_LeaveGroupRequest :: "LeaveGroupRequest \<Rightarrow> BodyWriter \<Rightarrow> BodyWriter" where
  "encode_LeaveGroupRequest m w =
     (let w = bw_write_string (lq_group_id m) w in bw_write_string (lq_member_id m) w)"

record CommitOffsetItemWire =
  ci_topic :: string
  ci_partition :: u16
  ci_offset :: u64

record CommitOffsetRequest =
  cq_group_id :: string
  cq_member_id :: string
  cq_generation :: u32
  cq_count :: u16
  cq_entries :: "CommitOffsetItemWire list"

definition read_CommitOffsetItemWire :: "BodyReader \<Rightarrow> (CommitOffsetItemWire \<times> BodyReader) option" where
  "read_CommitOffsetItemWire r = do {
     (topic, r) \<leftarrow> br_read_string r;
     (partition, r) \<leftarrow> br_read_u16 r;
     (off, r) \<leftarrow> br_read_u64 r;
     Some (\<lparr> ci_topic = topic, ci_partition = partition, ci_offset = off \<rparr>, r)
   }"

definition decode_CommitOffsetRequest :: "BodyReader \<Rightarrow> CommitOffsetRequest option" where
  "decode_CommitOffsetRequest r = do {
     (group_id, r) \<leftarrow> br_read_string r;
     (member_id, r) \<leftarrow> br_read_string r;
     (generation, r) \<leftarrow> br_read_u32 r;
     (count, r) \<leftarrow> br_read_u16 r;
     if br_remaining r < unat count * 12 then None
     else do {
       (entries, r) \<leftarrow> read_n (unat count) read_CommitOffsetItemWire r;
       if br_require_empty r then Some \<lparr> cq_group_id = group_id, cq_member_id = member_id, cq_generation = generation,
         cq_count = count, cq_entries = entries \<rparr> else None
     }
   }"

definition encode_CommitOffsetRequest :: "CommitOffsetRequest \<Rightarrow> BodyWriter \<Rightarrow> BodyWriter" where
  "encode_CommitOffsetRequest m w =
     (let w = bw_write_string (cq_group_id m) w;
          w = bw_write_string (cq_member_id m) w;
          w = bw_write_u32 (cq_generation m) w;
          w = bw_write_u16 (of_nat (length (cq_entries m))) w
      in foldl (\<lambda>w e. bw_write_u64 (ci_offset e) (bw_write_u16 (ci_partition e) (bw_write_string (ci_topic e) w))) w (cq_entries m))"

text \<open>\<^verbatim>\<open>FetchOffsetQueryWire\<close> and \<^verbatim>\<open>TopicPartitionWire\<close> have the same two fields and are read and
  written by the same two calls; both are \<open>TopicPartitionWire\<close> here.\<close>

record TopicPartitionWire =
  tp_topic :: string
  tp_partition :: u16

definition read_TopicPartitionWire :: "BodyReader \<Rightarrow> (TopicPartitionWire \<times> BodyReader) option" where
  "read_TopicPartitionWire r = do {
     (topic, r) \<leftarrow> br_read_string r;
     (partition, r) \<leftarrow> br_read_u16 r;
     Some (\<lparr> tp_topic = topic, tp_partition = partition \<rparr>, r)
   }"

definition write_TopicPartitionWire :: "BodyWriter \<Rightarrow> TopicPartitionWire \<Rightarrow> BodyWriter" where
  "write_TopicPartitionWire w a = bw_write_u16 (tp_partition a) (bw_write_string (tp_topic a) w)"

record FetchOffsetRequest =
  oq_group_id :: string
  oq_count :: u16
  oq_queries :: "TopicPartitionWire list"

definition decode_FetchOffsetRequest :: "BodyReader \<Rightarrow> FetchOffsetRequest option" where
  "decode_FetchOffsetRequest r = do {
     (group_id, r) \<leftarrow> br_read_string r;
     (count, r) \<leftarrow> br_read_u16 r;
     if br_remaining r < unat count * 4 then None
     else do {
       (queries, r) \<leftarrow> read_n (unat count) read_TopicPartitionWire r;
       if br_require_empty r then Some \<lparr> oq_group_id = group_id, oq_count = count, oq_queries = queries \<rparr> else None
     }
   }"

definition encode_FetchOffsetRequest :: "FetchOffsetRequest \<Rightarrow> BodyWriter \<Rightarrow> BodyWriter" where
  "encode_FetchOffsetRequest m w =
     (let w = bw_write_string (oq_group_id m) w;
          w = bw_write_u16 (of_nat (length (oq_queries m))) w
      in foldl write_TopicPartitionWire w (oq_queries m))"

record DescribeGroupRequest =
  gq_group_id :: string

definition decode_DescribeGroupRequest :: "BodyReader \<Rightarrow> DescribeGroupRequest option" where
  "decode_DescribeGroupRequest r = do {
     (group_id, r) \<leftarrow> br_read_string r;
     if br_require_empty r then Some \<lparr> gq_group_id = group_id \<rparr> else None
   }"

definition encode_DescribeGroupRequest :: "DescribeGroupRequest \<Rightarrow> BodyWriter \<Rightarrow> BodyWriter" where
  "encode_DescribeGroupRequest m w = bw_write_string (gq_group_id m) w"

section \<open>Group responses\<close>

record JoinGroupResponse =
  js_member_id :: string
  js_generation :: u32
  js_heartbeat_interval_ms :: u32
  js_count :: u16
  js_assignments :: "TopicPartitionWire list"

definition encode_JoinGroupResponse :: "JoinGroupResponse \<Rightarrow> BodyWriter \<Rightarrow> BodyWriter" where
  "encode_JoinGroupResponse m w =
     (let w = bw_write_string (js_member_id m) w;
          w = bw_write_u32 (js_generation m) w;
          w = bw_write_u32 (js_heartbeat_interval_ms m) w;
          w = bw_write_u16 (of_nat (length (js_assignments m))) w
      in foldl write_TopicPartitionWire w (js_assignments m))"

definition decode_JoinGroupResponse :: "BodyReader \<Rightarrow> JoinGroupResponse option" where
  "decode_JoinGroupResponse r = do {
     (member_id, r) \<leftarrow> br_read_string r;
     (generation, r) \<leftarrow> br_read_u32 r;
     (heartbeat_interval_ms, r) \<leftarrow> br_read_u32 r;
     (count, r) \<leftarrow> br_read_u16 r;
     if br_remaining r < unat count * 4 then None
     else do {
       (assignments, r) \<leftarrow> read_n (unat count) read_TopicPartitionWire r;
       if br_require_empty r then Some \<lparr> js_member_id = member_id, js_generation = generation,
         js_heartbeat_interval_ms = heartbeat_interval_ms, js_count = count, js_assignments = assignments \<rparr> else None
     }
   }"

record OffsetEntryWire =
  oe_topic :: string
  oe_partition :: u16
  oe_offset :: i64

record FetchOffsetResponse =
  os_count :: u16
  os_offsets :: "OffsetEntryWire list"

definition encode_FetchOffsetResponse :: "FetchOffsetResponse \<Rightarrow> BodyWriter \<Rightarrow> BodyWriter" where
  "encode_FetchOffsetResponse m w =
     foldl (\<lambda>w e. bw_write_i64 (oe_offset e) (bw_write_u16 (oe_partition e) (bw_write_string (oe_topic e) w)))
       (bw_write_u16 (of_nat (length (os_offsets m))) w) (os_offsets m)"

definition read_OffsetEntryWire :: "BodyReader \<Rightarrow> (OffsetEntryWire \<times> BodyReader) option" where
  "read_OffsetEntryWire r = do {
     (topic, r) \<leftarrow> br_read_string r;
     (partition, r) \<leftarrow> br_read_u16 r;
     (off, r) \<leftarrow> br_read_i64 r;
     Some (\<lparr> oe_topic = topic, oe_partition = partition, oe_offset = off \<rparr>, r)
   }"

definition decode_FetchOffsetResponse :: "BodyReader \<Rightarrow> FetchOffsetResponse option" where
  "decode_FetchOffsetResponse r = do {
     (count, r) \<leftarrow> br_read_u16 r;
     if br_remaining r < unat count * 12 then None
     else do {
       (offsets, r) \<leftarrow> read_n (unat count) read_OffsetEntryWire r;
       if br_require_empty r then Some \<lparr> os_count = count, os_offsets = offsets \<rparr> else None
     }
   }"

record MemberDescriptionWire =
  md_member_id :: string
  md_session_timeout_ms :: u32
  md_ms_since_heartbeat :: u32
  md_count :: u16
  md_assignment :: "TopicPartitionWire list"

record DescribeGroupResponse =
  gs_group_id :: string
  gs_generation :: u32
  gs_state :: string
  gs_strategy :: u8
  gs_member_count :: u16
  gs_members :: "MemberDescriptionWire list"

definition write_MemberDescriptionWire :: "BodyWriter \<Rightarrow> MemberDescriptionWire \<Rightarrow> BodyWriter" where
  "write_MemberDescriptionWire w m =
     (let w = bw_write_string (md_member_id m) w;
          w = bw_write_u32 (md_session_timeout_ms m) w;
          w = bw_write_u32 (md_ms_since_heartbeat m) w;
          w = bw_write_u16 (of_nat (length (md_assignment m))) w
      in foldl write_TopicPartitionWire w (md_assignment m))"

definition encode_DescribeGroupResponse :: "DescribeGroupResponse \<Rightarrow> BodyWriter \<Rightarrow> BodyWriter" where
  "encode_DescribeGroupResponse m w =
     (let w = bw_write_string (gs_group_id m) w;
          w = bw_write_u32 (gs_generation m) w;
          w = bw_write_string (gs_state m) w;
          w = bw_write_u8 (gs_strategy m) w;
          w = bw_write_u16 (of_nat (length (gs_members m))) w
      in foldl write_MemberDescriptionWire w (gs_members m))"

definition read_MemberDescriptionWire :: "BodyReader \<Rightarrow> (MemberDescriptionWire \<times> BodyReader) option" where
  "read_MemberDescriptionWire r = do {
     (member_id, r) \<leftarrow> br_read_string r;
     (session_timeout_ms, r) \<leftarrow> br_read_u32 r;
     (ms_since_heartbeat, r) \<leftarrow> br_read_u32 r;
     (count, r) \<leftarrow> br_read_u16 r;
     if br_remaining r < unat count * 4 then None
     else do {
       (assignment, r) \<leftarrow> read_n (unat count) read_TopicPartitionWire r;
       Some (\<lparr> md_member_id = member_id, md_session_timeout_ms = session_timeout_ms,
         md_ms_since_heartbeat = ms_since_heartbeat, md_count = count, md_assignment = assignment \<rparr>, r)
     }
   }"

definition decode_DescribeGroupResponse :: "BodyReader \<Rightarrow> DescribeGroupResponse option" where
  "decode_DescribeGroupResponse r = do {
     (group_id, r) \<leftarrow> br_read_string r;
     (generation, r) \<leftarrow> br_read_u32 r;
     (state, r) \<leftarrow> br_read_string r;
     (strategy, r) \<leftarrow> br_read_u8 r;
     (member_count, r) \<leftarrow> br_read_u16 r;
     (members, r) \<leftarrow> read_n (unat member_count) read_MemberDescriptionWire r;
     if br_require_empty r then Some \<lparr> gs_group_id = group_id, gs_generation = generation, gs_state = state,
       gs_strategy = strategy, gs_member_count = member_count, gs_members = members \<rparr> else None
   }"

section \<open>The message contract\<close>

locale body_format =
  fixes encode :: "'m \<Rightarrow> BodyWriter \<Rightarrow> BodyWriter"
    and decode :: "BodyReader \<Rightarrow> 'm option"
    and valid :: "'m \<Rightarrow> bool"
  assumes roundtrip: "valid m \<Longrightarrow> decode (make_BodyReader (encode m [])) = Some m"
begin

lemma encode_inj: "valid m \<Longrightarrow> valid n \<Longrightarrow> encode m [] = encode n [] \<Longrightarrow> m = n"
  by (metis roundtrip option.inject)

text \<open>From the sender's object to the receiver's: the body goes into a frame, the frame over the
  stream in any pieces, the assembler cuts it out again and the body is decoded.\<close>

lemma transport:
  assumes "valid m" "length (encode m []) + 5 \<le> 1048576"
    and f: "f = \<lparr> fr_length = HEADER_SIZE + of_nat (length (encode m [])), fr_type = ty, fr_request_id = rid, fr_body = encode m [] \<rparr>"
    and c: "concat chunks = the (frame_encode f)"
  shows "\<exists>g. fst (feed new_FrameAssembler chunks) = [g] \<and> fr_type g = ty \<and> fr_request_id g = rid \<and>
    decode (make_BodyReader (fr_body g)) = Some m"
proof -
  have ok: "frame_ok f" using assms(2) by (simp add: f frame_ok_def HEADER_SIZE_def)
  have "concat chunks = concat (map frame_bytes [f])" using c frame_ok_encode [OF ok] by simp
  then have "fst (feed new_FrameAssembler chunks) = [f]" using ok by (intro feed_frames) simp_all
  moreover have "fr_type f = ty" "fr_request_id f = rid" "decode (make_BodyReader (fr_body f)) = Some m"
    using roundtrip [OF assms(1)] by (simp_all add: f)
  ultimately show ?thesis by blast
qed

end

text \<open>A message format with one encoding per message: what decodes is an encoding.\<close>

locale strict_format = body_format encode decode valid
  for encode :: "'m \<Rightarrow> BodyWriter \<Rightarrow> BodyWriter" and decode valid +
  assumes canonical: "decode (make_BodyReader b) = Some m \<Longrightarrow> valid m \<and> encode m [] = b"
begin

lemma decode_iff: "decode (make_BodyReader b) = Some m \<longleftrightarrow> valid m \<and> encode m [] = b"
  by (metis roundtrip canonical)

lemma decode_inj: "decode (make_BodyReader b) = Some m \<Longrightarrow> decode (make_BodyReader b') = Some m \<Longrightarrow> b = b'"
  by (metis canonical)

end

end
