(* ===== verification/MessageLaws.thy ===== *)
theory MessageLaws
  imports ProtocolMessages
begin

text \<open>
  The laws of the message formats: every repeated group satisfies the contract \<open>wire\<close>, every
  message the contract \<open>body_format\<close>, and all but \<^verbatim>\<open>DescribeTopicResponse\<close>, whose reader also
  accepts the older short form, the contract \<open>strict_format\<close>.
\<close>

section \<open>Reading\<close>

lemmas wire_reads [simp] =
  w_u16.dec_enc [OF TrueI] w_u32.dec_enc [OF TrueI] w_i32.dec_enc [OF TrueI] w_u64.dec_enc [OF TrueI]
  w_i64.dec_enc [OF TrueI] w_string.dec_enc w_bytes.dec_enc
  w_u16.dec_end [OF TrueI] w_u32.dec_end [OF TrueI] w_i32.dec_end [OF TrueI] w_u64.dec_end [OF TrueI]
  w_i64.dec_end [OF TrueI] w_string.dec_end w_bytes.dec_end

lemma read_u8_Cons [simp]: "br_read_u8 (rd pre (v # t)) = Some (v, rd (pre @ [v]) t)"
  using w_u8.dec_enc [where x = v and pre = pre and t = t] by simp

lemmas wire_sound =
  w_u8.dec_sound w_u16.dec_sound w_u32.dec_sound w_i32.dec_sound w_u64.dec_sound w_i64.dec_sound
  w_string.dec_sound w_bytes.dec_sound

lemma foldl_write: "(\<And>w x. f w x = w @ enc x) \<Longrightarrow> foldl f w xs = w @ concat (map enc xs)"
  by (induction xs arbitrary: w) simp_all

lemma of_nat_count_u16: "(of_nat n :: u16) = c \<Longrightarrow> n < 65536 \<Longrightarrow> unat c = n"
  by (auto simp: unat_of_nat_u16)

lemma count_u16: "unat (c :: u16) = n \<longleftrightarrow> n < 65536 \<and> c = of_nat n"
  using unat_u16_lt [of c] by (auto simp: unat_of_nat_u16)

lemma concat_length_ge: "\<forall>x \<in> set xs. k \<le> length (enc x) \<Longrightarrow> length xs * k \<le> length (concat (map enc xs))"
  by (induction xs) auto

section \<open>Groups\<close>

definition wire_payload :: "ProduceRecordPayload \<Rightarrow> bytes" where
  "wire_payload p = wire_bytes (prp_key p) @ wire_bytes (prp_value p)"

interpretation w_payload: wire wire_payload read_ProduceRecordPayload "\<lambda>p. length (prp_key p) \<le> 1048576 \<and> length (prp_value p) \<le> 1048576"
  by unfold_locales
     (auto simp: wire_payload_def read_ProduceRecordPayload_def split: bind_splits dest!: wire_sound)

definition wire_fetch_record :: "FetchRecordWire \<Rightarrow> bytes" where
  "wire_fetch_record p = wire_u64 (frw_offset p) @ wire_u64 (frw_timestamp_ms p) @ wire_bytes (frw_key p) @ wire_bytes (frw_value p)"

interpretation w_fetch_record: wire wire_fetch_record read_FetchRecordWire "\<lambda>p. length (frw_key p) \<le> 1048576 \<and> length (frw_value p) \<le> 1048576"
  by unfold_locales
     (auto simp: wire_fetch_record_def read_FetchRecordWire_def split: bind_splits dest!: wire_sound)

definition wire_topic_info :: "TopicInfoWire \<Rightarrow> bytes" where
  "wire_topic_info t = wire_string (ti_name t) @ be16 (ti_partitions t)"

interpretation w_topic_info: wire wire_topic_info read_TopicInfoWire "\<lambda>t. length (ti_name t) < 65536"
  by unfold_locales
     (auto simp: wire_topic_info_def read_TopicInfoWire_def split: bind_splits dest!: wire_sound)

definition wire_partition_offset :: "PartitionOffsetWire \<Rightarrow> bytes" where
  "wire_partition_offset p = wire_u64 (po_earliest p) @ wire_u64 (po_next_offset p) @ be32 (po_segment_count p)"

interpretation w_partition_offset: wire wire_partition_offset "read_PartitionOffsetWire True" "\<lambda>_. True"
  by unfold_locales
     (auto simp: wire_partition_offset_def read_PartitionOffsetWire_def split: bind_splits dest!: wire_sound)

definition wire_commit_item :: "CommitOffsetItemWire \<Rightarrow> bytes" where
  "wire_commit_item e = wire_string (ci_topic e) @ be16 (ci_partition e) @ wire_u64 (ci_offset e)"

interpretation w_commit_item: wire wire_commit_item read_CommitOffsetItemWire "\<lambda>e. length (ci_topic e) < 65536"
  by unfold_locales
     (auto simp: wire_commit_item_def read_CommitOffsetItemWire_def split: bind_splits dest!: wire_sound)

definition wire_topic_partition :: "TopicPartitionWire \<Rightarrow> bytes" where
  "wire_topic_partition a = wire_string (tp_topic a) @ be16 (tp_partition a)"

interpretation w_topic_partition: wire wire_topic_partition read_TopicPartitionWire "\<lambda>a. length (tp_topic a) < 65536"
  by unfold_locales
     (auto simp: wire_topic_partition_def read_TopicPartitionWire_def split: bind_splits dest!: wire_sound)

definition wire_offset_entry :: "OffsetEntryWire \<Rightarrow> bytes" where
  "wire_offset_entry e = wire_string (oe_topic e) @ be16 (oe_partition e) @ wire_u64 (oe_offset e)"

interpretation w_offset_entry: wire wire_offset_entry read_OffsetEntryWire "\<lambda>e. length (oe_topic e) < 65536"
  by unfold_locales
     (auto simp: wire_offset_entry_def read_OffsetEntryWire_def split: bind_splits dest!: wire_sound)

lemma length_wire_groups [simp]:
  "length (wire_topic_partition a) = 4 + length (tp_topic a)" "length (wire_commit_item c) = 12 + length (ci_topic c)"
  "length (wire_offset_entry e) = 12 + length (oe_topic e)" "length (wire_partition_offset p) = 20"
  by (simp_all add: wire_topic_partition_def wire_commit_item_def wire_offset_entry_def wire_partition_offset_def)

definition wire_member :: "MemberDescriptionWire \<Rightarrow> bytes" where
  "wire_member m = wire_string (md_member_id m) @ be32 (md_session_timeout_ms m) @ be32 (md_ms_since_heartbeat m) @
     be16 (of_nat (length (md_assignment m))) @ concat (map wire_topic_partition (md_assignment m))"

definition ok_member :: "MemberDescriptionWire \<Rightarrow> bool" where
  "ok_member m \<longleftrightarrow> length (md_member_id m) < 65536 \<and> unat (md_count m) = length (md_assignment m) \<and>
     (\<forall>a \<in> set (md_assignment m). length (tp_topic a) < 65536)"

interpretation w_member: wire wire_member read_MemberDescriptionWire ok_member
proof
  fix x pre t assume ok: "ok_member x"
  then show "read_MemberDescriptionWire (rd pre (wire_member x @ t)) = Some (x, rd (pre @ wire_member x) t)"
    using concat_length_ge [of "md_assignment x" 4 wire_topic_partition]
    by (auto simp: wire_member_def read_MemberDescriptionWire_def ok_member_def count_u16 w_topic_partition.read_n_enc unat_of_nat_u16)
next
  fix pre t x r assume "read_MemberDescriptionWire (rd pre t) = Some (x, r)"
  then show "\<exists>t'. ok_member x \<and> t = wire_member x @ t' \<and> r = rd (pre @ wire_member x) t'"
    by (auto simp: wire_member_def read_MemberDescriptionWire_def ok_member_def count_u16
        split: bind_splits if_splits dest!: wire_sound w_topic_partition.read_n_sound)
qed

section \<open>Valid messages\<close>

definition valid_CreateTopicRequest :: "CreateTopicRequest \<Rightarrow> bool" where
  "valid_CreateTopicRequest m \<longleftrightarrow> length (ct_topic m) < 65536 \<and>
     (\<not> ct_has_retention m \<longrightarrow> ct_retention_ms m = 0 \<and> ct_retention_bytes m = 0)"

definition valid_ProduceRequest :: "ProduceRequest \<Rightarrow> bool" where
  "valid_ProduceRequest m \<longleftrightarrow> length (pr_topic m) < 65536 \<and> unat (pr_record_count m) = length (pr_records m) \<and>
     (\<forall>p \<in> set (pr_records m). length (prp_key p) \<le> 1048576 \<and> length (prp_value p) \<le> 1048576)"

definition valid_FetchRequest :: "FetchRequest \<Rightarrow> bool" where
  "valid_FetchRequest m \<longleftrightarrow> length (fq_topic m) < 65536"

definition valid_FetchResponse :: "FetchResponse \<Rightarrow> bool" where
  "valid_FetchResponse m \<longleftrightarrow> unat (fs_record_count m) = length (fs_records m) \<and>
     (\<forall>p \<in> set (fs_records m). length (frw_key p) \<le> 1048576 \<and> length (frw_value p) \<le> 1048576)"

definition valid_ListTopicsResponse :: "ListTopicsResponse \<Rightarrow> bool" where
  "valid_ListTopicsResponse m \<longleftrightarrow> unat (ls_count m) = length (ls_topics m) \<and> (\<forall>t \<in> set (ls_topics m). length (ti_name t) < 65536)"

definition valid_DescribeTopicResponse :: "DescribeTopicResponse \<Rightarrow> bool" where
  "valid_DescribeTopicResponse m \<longleftrightarrow> length (ds_name m) < 65536 \<and> unat (ds_partitions m) = length (ds_partition_offsets m)"

definition valid_JoinGroupRequest :: "JoinGroupRequest \<Rightarrow> bool" where
  "valid_JoinGroupRequest m \<longleftrightarrow> length (jq_group_id m) < 65536 \<and> length (jq_member_id m) < 65536 \<and>
     unat (jq_topic_count m) = length (jq_topics m) \<and> (\<forall>t \<in> set (jq_topics m). length t < 65536)"

definition valid_HeartbeatRequest :: "HeartbeatRequest \<Rightarrow> bool" where
  "valid_HeartbeatRequest m \<longleftrightarrow> length (hq_group_id m) < 65536 \<and> length (hq_member_id m) < 65536"

definition valid_LeaveGroupRequest :: "LeaveGroupRequest \<Rightarrow> bool" where
  "valid_LeaveGroupRequest m \<longleftrightarrow> length (lq_group_id m) < 65536 \<and> length (lq_member_id m) < 65536"

definition valid_CommitOffsetRequest :: "CommitOffsetRequest \<Rightarrow> bool" where
  "valid_CommitOffsetRequest m \<longleftrightarrow> length (cq_group_id m) < 65536 \<and> length (cq_member_id m) < 65536 \<and>
     unat (cq_count m) = length (cq_entries m) \<and> (\<forall>e \<in> set (cq_entries m). length (ci_topic e) < 65536)"

definition valid_FetchOffsetRequest :: "FetchOffsetRequest \<Rightarrow> bool" where
  "valid_FetchOffsetRequest m \<longleftrightarrow> length (oq_group_id m) < 65536 \<and> unat (oq_count m) = length (oq_queries m) \<and>
     (\<forall>q \<in> set (oq_queries m). length (tp_topic q) < 65536)"

definition valid_JoinGroupResponse :: "JoinGroupResponse \<Rightarrow> bool" where
  "valid_JoinGroupResponse m \<longleftrightarrow> length (js_member_id m) < 65536 \<and> unat (js_count m) = length (js_assignments m) \<and>
     (\<forall>a \<in> set (js_assignments m). length (tp_topic a) < 65536)"

definition valid_FetchOffsetResponse :: "FetchOffsetResponse \<Rightarrow> bool" where
  "valid_FetchOffsetResponse m \<longleftrightarrow> unat (os_count m) = length (os_offsets m) \<and> (\<forall>e \<in> set (os_offsets m). length (oe_topic e) < 65536)"

definition valid_DescribeGroupResponse :: "DescribeGroupResponse \<Rightarrow> bool" where
  "valid_DescribeGroupResponse m \<longleftrightarrow> length (gs_group_id m) < 65536 \<and> length (gs_state m) < 65536 \<and>
     unat (gs_member_count m) = length (gs_members m) \<and> (\<forall>d \<in> set (gs_members m). ok_member d)"

section \<open>Written bytes\<close>

lemma encode_groups:
  "foldl (\<lambda>w p. w @ wire_bytes (prp_key p) @ wire_bytes (prp_value p)) w ps = w @ concat (map wire_payload ps)"
  "foldl write_FetchRecordWire w fs = w @ concat (map wire_fetch_record fs)"
  "foldl (\<lambda>w t. w @ wire_string (ti_name t) @ be16 (ti_partitions t)) w ts = w @ concat (map wire_topic_info ts)"
  "foldl write_PartitionOffsetWire w os = w @ concat (map wire_partition_offset os)"
  "foldl (\<lambda>w t. w @ wire_string t) w ss = w @ concat (map wire_string ss)"
  "foldl (\<lambda>w e. w @ wire_string (ci_topic e) @ be16 (ci_partition e) @ wire_u64 (ci_offset e)) w cs = w @ concat (map wire_commit_item cs)"
  "foldl write_TopicPartitionWire w as = w @ concat (map wire_topic_partition as)"
  "foldl (\<lambda>w e. w @ wire_string (oe_topic e) @ be16 (oe_partition e) @ wire_u64 (oe_offset e)) w es = w @ concat (map wire_offset_entry es)"
  "foldl write_MemberDescriptionWire w ms = w @ concat (map wire_member ms)"
proof -
  have tp: "foldl write_TopicPartitionWire w as = w @ concat (map wire_topic_partition as)" for w as
    by (rule foldl_write) (simp add: write_TopicPartitionWire_def wire_topic_partition_def)
  then show "foldl write_TopicPartitionWire w as = w @ concat (map wire_topic_partition as)" .
  show "foldl write_MemberDescriptionWire w ms = w @ concat (map wire_member ms)"
    by (rule foldl_write) (simp add: write_MemberDescriptionWire_def wire_member_def tp)
qed (rule foldl_write; simp add: wire_payload_def write_FetchRecordWire_def wire_fetch_record_def wire_topic_info_def
      write_PartitionOffsetWire_def wire_partition_offset_def wire_commit_item_def wire_offset_entry_def)+

section \<open>Messages\<close>

lemmas group_reads =
  w_payload.read_n_enc w_fetch_record.read_n_enc w_topic_info.read_n_enc w_partition_offset.read_n_enc w_string.read_n_enc
  w_commit_item.read_n_enc w_topic_partition.read_n_enc w_offset_entry.read_n_enc w_member.read_n_enc
  w_payload.read_n_end w_fetch_record.read_n_end w_topic_info.read_n_end w_partition_offset.read_n_end w_string.read_n_end
  w_commit_item.read_n_end w_topic_partition.read_n_end w_offset_entry.read_n_end w_member.read_n_end

lemmas group_sound =
  w_payload.read_n_sound w_fetch_record.read_n_sound w_topic_info.read_n_sound w_string.read_n_sound
  w_commit_item.read_n_sound w_topic_partition.read_n_sound w_offset_entry.read_n_sound w_member.read_n_sound

lemmas group_lengths =
  concat_length_ge [where enc = wire_topic_partition and k = 4] concat_length_ge [where enc = wire_commit_item and k = 12]
  concat_length_ge [where enc = wire_offset_entry and k = 12] concat_length_ge [where enc = wire_string and k = 2]

interpretation m_create_topic: strict_format encode_CreateTopicRequest decode_CreateTopicRequest valid_CreateTopicRequest
proof
  have ne: "wire_u64 v \<noteq> []" for v by (simp add: wire_u64_def be32_def)
  show "valid_CreateTopicRequest m \<Longrightarrow> decode_CreateTopicRequest (make_BodyReader (encode_CreateTopicRequest m [])) = Some m" for m
    by (auto simp: make_BodyReader_rd encode_CreateTopicRequest_def decode_CreateTopicRequest_def valid_CreateTopicRequest_def ne Let_def)
  show "decode_CreateTopicRequest (make_BodyReader b) = Some m \<Longrightarrow> valid_CreateTopicRequest m \<and> encode_CreateTopicRequest m [] = b" for b m
    by (auto simp: make_BodyReader_rd encode_CreateTopicRequest_def decode_CreateTopicRequest_def valid_CreateTopicRequest_def
        split: bind_splits if_splits dest!: wire_sound)
qed

interpretation m_fetch: strict_format encode_FetchRequest decode_FetchRequest valid_FetchRequest
  by unfold_locales
     (auto simp: make_BodyReader_rd encode_FetchRequest_def decode_FetchRequest_def valid_FetchRequest_def
        split: bind_splits if_splits dest!: wire_sound)

interpretation m_describe_topic: strict_format encode_DescribeTopicRequest decode_DescribeTopicRequest "\<lambda>m. length (dq_topic m) < 65536"
  by unfold_locales
     (auto simp: make_BodyReader_rd encode_DescribeTopicRequest_def decode_DescribeTopicRequest_def
        split: bind_splits if_splits dest!: wire_sound)

interpretation m_empty: strict_format encode_empty decode_empty "\<lambda>_. True"
  by unfold_locales (auto simp: make_BodyReader_rd encode_empty_def decode_empty_def split: if_splits)

interpretation m_produce_ok: strict_format encode_ProduceResponse decode_ProduceResponse "\<lambda>_. True"
  by unfold_locales
     (auto simp: make_BodyReader_rd encode_ProduceResponse_def decode_ProduceResponse_def
        split: bind_splits if_splits dest!: wire_sound)

interpretation m_heartbeat: strict_format encode_HeartbeatRequest decode_HeartbeatRequest valid_HeartbeatRequest
  by unfold_locales
     (auto simp: make_BodyReader_rd encode_HeartbeatRequest_def decode_HeartbeatRequest_def valid_HeartbeatRequest_def
        split: bind_splits if_splits dest!: wire_sound)

interpretation m_leave: strict_format encode_LeaveGroupRequest decode_LeaveGroupRequest valid_LeaveGroupRequest
  by unfold_locales
     (auto simp: make_BodyReader_rd encode_LeaveGroupRequest_def decode_LeaveGroupRequest_def valid_LeaveGroupRequest_def
        split: bind_splits if_splits dest!: wire_sound)

interpretation m_describe_group: strict_format encode_DescribeGroupRequest decode_DescribeGroupRequest "\<lambda>m. length (gq_group_id m) < 65536"
  by unfold_locales
     (auto simp: make_BodyReader_rd encode_DescribeGroupRequest_def decode_DescribeGroupRequest_def
        split: bind_splits if_splits dest!: wire_sound)

interpretation m_produce: strict_format encode_ProduceRequest decode_ProduceRequest valid_ProduceRequest
proof
  show "valid_ProduceRequest m \<Longrightarrow> decode_ProduceRequest (make_BodyReader (encode_ProduceRequest m [])) = Some m" for m
    by (auto simp: make_BodyReader_rd encode_ProduceRequest_def decode_ProduceRequest_def valid_ProduceRequest_def
        encode_groups group_reads count_u16 unat_of_nat_u16)
  show "decode_ProduceRequest (make_BodyReader b) = Some m \<Longrightarrow> valid_ProduceRequest m \<and> encode_ProduceRequest m [] = b" for b m
    by (auto simp: make_BodyReader_rd encode_ProduceRequest_def decode_ProduceRequest_def valid_ProduceRequest_def
        encode_groups count_u16 split: bind_splits if_splits dest!: wire_sound group_sound)
qed

interpretation m_fetch_ok: strict_format encode_FetchResponse decode_FetchResponse valid_FetchResponse
proof
  show "valid_FetchResponse m \<Longrightarrow> decode_FetchResponse (make_BodyReader (encode_FetchResponse m [])) = Some m" for m
    by (auto simp: make_BodyReader_rd encode_FetchResponse_def decode_FetchResponse_def valid_FetchResponse_def
        encode_groups group_reads count_u16 unat_of_nat_u16)
  show "decode_FetchResponse (make_BodyReader b) = Some m \<Longrightarrow> valid_FetchResponse m \<and> encode_FetchResponse m [] = b" for b m
    by (auto simp: make_BodyReader_rd encode_FetchResponse_def decode_FetchResponse_def valid_FetchResponse_def
        encode_groups count_u16 split: bind_splits if_splits dest!: wire_sound group_sound)
qed

interpretation m_topics: strict_format encode_ListTopicsResponse decode_ListTopicsResponse valid_ListTopicsResponse
proof
  show "valid_ListTopicsResponse m \<Longrightarrow> decode_ListTopicsResponse (make_BodyReader (encode_ListTopicsResponse m [])) = Some m" for m
    by (auto simp: make_BodyReader_rd encode_ListTopicsResponse_def decode_ListTopicsResponse_def valid_ListTopicsResponse_def
        encode_groups group_reads count_u16 unat_of_nat_u16)
  show "decode_ListTopicsResponse (make_BodyReader b) = Some m \<Longrightarrow> valid_ListTopicsResponse m \<and> encode_ListTopicsResponse m [] = b" for b m
    by (auto simp: make_BodyReader_rd encode_ListTopicsResponse_def decode_ListTopicsResponse_def valid_ListTopicsResponse_def
        encode_groups count_u16 split: bind_splits if_splits dest!: wire_sound group_sound)
qed

interpretation m_join: strict_format encode_JoinGroupRequest decode_JoinGroupRequest valid_JoinGroupRequest
proof
  show "valid_JoinGroupRequest m \<Longrightarrow> decode_JoinGroupRequest (make_BodyReader (encode_JoinGroupRequest m [])) = Some m" for m
    using group_lengths(4) [of "jq_topics m"]
    by (auto simp: make_BodyReader_rd encode_JoinGroupRequest_def decode_JoinGroupRequest_def valid_JoinGroupRequest_def
        encode_groups group_reads count_u16 unat_of_nat_u16)
  show "decode_JoinGroupRequest (make_BodyReader b) = Some m \<Longrightarrow> valid_JoinGroupRequest m \<and> encode_JoinGroupRequest m [] = b" for b m
    by (auto simp: make_BodyReader_rd encode_JoinGroupRequest_def decode_JoinGroupRequest_def valid_JoinGroupRequest_def
        encode_groups count_u16 split: bind_splits if_splits dest!: wire_sound group_sound)
qed

interpretation m_commit: strict_format encode_CommitOffsetRequest decode_CommitOffsetRequest valid_CommitOffsetRequest
proof
  show "valid_CommitOffsetRequest m \<Longrightarrow> decode_CommitOffsetRequest (make_BodyReader (encode_CommitOffsetRequest m [])) = Some m" for m
    using group_lengths(2) [of "cq_entries m"]
    by (auto simp: make_BodyReader_rd encode_CommitOffsetRequest_def decode_CommitOffsetRequest_def valid_CommitOffsetRequest_def
        encode_groups group_reads count_u16 unat_of_nat_u16)
  show "decode_CommitOffsetRequest (make_BodyReader b) = Some m \<Longrightarrow> valid_CommitOffsetRequest m \<and> encode_CommitOffsetRequest m [] = b" for b m
    by (auto simp: make_BodyReader_rd encode_CommitOffsetRequest_def decode_CommitOffsetRequest_def valid_CommitOffsetRequest_def
        encode_groups count_u16 split: bind_splits if_splits dest!: wire_sound group_sound)
qed

interpretation m_fetch_offset: strict_format encode_FetchOffsetRequest decode_FetchOffsetRequest valid_FetchOffsetRequest
proof
  show "valid_FetchOffsetRequest m \<Longrightarrow> decode_FetchOffsetRequest (make_BodyReader (encode_FetchOffsetRequest m [])) = Some m" for m
    using group_lengths(1) [of "oq_queries m"]
    by (auto simp: make_BodyReader_rd encode_FetchOffsetRequest_def decode_FetchOffsetRequest_def valid_FetchOffsetRequest_def
        encode_groups group_reads count_u16 unat_of_nat_u16)
  show "decode_FetchOffsetRequest (make_BodyReader b) = Some m \<Longrightarrow> valid_FetchOffsetRequest m \<and> encode_FetchOffsetRequest m [] = b" for b m
    by (auto simp: make_BodyReader_rd encode_FetchOffsetRequest_def decode_FetchOffsetRequest_def valid_FetchOffsetRequest_def
        encode_groups count_u16 split: bind_splits if_splits dest!: wire_sound group_sound)
qed

interpretation m_join_ok: strict_format encode_JoinGroupResponse decode_JoinGroupResponse valid_JoinGroupResponse
proof
  show "valid_JoinGroupResponse m \<Longrightarrow> decode_JoinGroupResponse (make_BodyReader (encode_JoinGroupResponse m [])) = Some m" for m
    using group_lengths(1) [of "js_assignments m"]
    by (auto simp: make_BodyReader_rd encode_JoinGroupResponse_def decode_JoinGroupResponse_def valid_JoinGroupResponse_def
        encode_groups group_reads count_u16 unat_of_nat_u16)
  show "decode_JoinGroupResponse (make_BodyReader b) = Some m \<Longrightarrow> valid_JoinGroupResponse m \<and> encode_JoinGroupResponse m [] = b" for b m
    by (auto simp: make_BodyReader_rd encode_JoinGroupResponse_def decode_JoinGroupResponse_def valid_JoinGroupResponse_def
        encode_groups count_u16 split: bind_splits if_splits dest!: wire_sound group_sound)
qed

interpretation m_offsets: strict_format encode_FetchOffsetResponse decode_FetchOffsetResponse valid_FetchOffsetResponse
proof
  show "valid_FetchOffsetResponse m \<Longrightarrow> decode_FetchOffsetResponse (make_BodyReader (encode_FetchOffsetResponse m [])) = Some m" for m
    using group_lengths(3) [of "os_offsets m"]
    by (auto simp: make_BodyReader_rd encode_FetchOffsetResponse_def decode_FetchOffsetResponse_def valid_FetchOffsetResponse_def
        encode_groups group_reads count_u16 unat_of_nat_u16)
  show "decode_FetchOffsetResponse (make_BodyReader b) = Some m \<Longrightarrow> valid_FetchOffsetResponse m \<and> encode_FetchOffsetResponse m [] = b" for b m
    by (auto simp: make_BodyReader_rd encode_FetchOffsetResponse_def decode_FetchOffsetResponse_def valid_FetchOffsetResponse_def
        encode_groups count_u16 split: bind_splits if_splits dest!: wire_sound group_sound)
qed

interpretation m_group: strict_format encode_DescribeGroupResponse decode_DescribeGroupResponse valid_DescribeGroupResponse
proof
  show "valid_DescribeGroupResponse m \<Longrightarrow> decode_DescribeGroupResponse (make_BodyReader (encode_DescribeGroupResponse m [])) = Some m" for m
    by (auto simp: make_BodyReader_rd encode_DescribeGroupResponse_def decode_DescribeGroupResponse_def valid_DescribeGroupResponse_def
        encode_groups group_reads count_u16 unat_of_nat_u16)
  show "decode_DescribeGroupResponse (make_BodyReader b) = Some m \<Longrightarrow> valid_DescribeGroupResponse m \<and> encode_DescribeGroupResponse m [] = b" for b m
    by (auto simp: make_BodyReader_rd encode_DescribeGroupResponse_def decode_DescribeGroupResponse_def valid_DescribeGroupResponse_def
        encode_groups count_u16 split: bind_splits if_splits dest!: wire_sound group_sound)
qed

interpretation m_topic_description: body_format encode_DescribeTopicResponse decode_DescribeTopicResponse valid_DescribeTopicResponse
proof
  fix m assume v: "valid_DescribeTopicResponse m"
  have "length (concat (map wire_partition_offset ps)) = 20 * length ps" for ps by (induction ps) simp_all
  then show "decode_DescribeTopicResponse (make_BodyReader (encode_DescribeTopicResponse m [])) = Some m"
    using v by (auto simp: make_BodyReader_rd encode_DescribeTopicResponse_def decode_DescribeTopicResponse_def
        valid_DescribeTopicResponse_def encode_groups group_reads count_u16 unat_of_nat_u16)
qed

section \<open>Properties\<close>

text \<open>
  C22. The request formats are exact: for every request, decoding a body yields a message if and
  only if the message is valid (count fields agree, sizes fit their width) and the body is its
  encoding. So requests survive the wire, no body has two readings, and no trailing or missing
  byte is accepted.
\<close>

theorem requests_decode_exactly:
  "(decode_CreateTopicRequest (make_BodyReader b) = Some ct \<longleftrightarrow> valid_CreateTopicRequest ct \<and> encode_CreateTopicRequest ct [] = b) \<and>
   (decode_ProduceRequest (make_BodyReader b) = Some pr \<longleftrightarrow> valid_ProduceRequest pr \<and> encode_ProduceRequest pr [] = b) \<and>
   (decode_FetchRequest (make_BodyReader b) = Some fq \<longleftrightarrow> valid_FetchRequest fq \<and> encode_FetchRequest fq [] = b) \<and>
   (decode_DescribeTopicRequest (make_BodyReader b) = Some dq \<longleftrightarrow> length (dq_topic dq) < 65536 \<and> encode_DescribeTopicRequest dq [] = b) \<and>
   (decode_JoinGroupRequest (make_BodyReader b) = Some jq \<longleftrightarrow> valid_JoinGroupRequest jq \<and> encode_JoinGroupRequest jq [] = b) \<and>
   (decode_HeartbeatRequest (make_BodyReader b) = Some hq \<longleftrightarrow> valid_HeartbeatRequest hq \<and> encode_HeartbeatRequest hq [] = b) \<and>
   (decode_LeaveGroupRequest (make_BodyReader b) = Some lq \<longleftrightarrow> valid_LeaveGroupRequest lq \<and> encode_LeaveGroupRequest lq [] = b) \<and>
   (decode_CommitOffsetRequest (make_BodyReader b) = Some cq \<longleftrightarrow> valid_CommitOffsetRequest cq \<and> encode_CommitOffsetRequest cq [] = b) \<and>
   (decode_FetchOffsetRequest (make_BodyReader b) = Some oq \<longleftrightarrow> valid_FetchOffsetRequest oq \<and> encode_FetchOffsetRequest oq [] = b) \<and>
   (decode_DescribeGroupRequest (make_BodyReader b) = Some gq \<longleftrightarrow> length (gq_group_id gq) < 65536 \<and> encode_DescribeGroupRequest gq [] = b)"
  by (intro conjI m_create_topic.decode_iff m_produce.decode_iff m_fetch.decode_iff m_describe_topic.decode_iff m_join.decode_iff
      m_heartbeat.decode_iff m_leave.decode_iff m_commit.decode_iff m_fetch_offset.decode_iff m_describe_group.decode_iff)

text \<open>
  C23. The response formats are exact in the same sense, except \<^verbatim>\<open>DescribeTopicResponse\<close>, whose
  reader also accepts the older form without segment counts and retention: there the round trip
  holds.
\<close>

theorem responses_decode_exactly:
  "(decode_ProduceResponse (make_BodyReader b) = Some ps \<longleftrightarrow> encode_ProduceResponse ps [] = b) \<and>
   (decode_FetchResponse (make_BodyReader b) = Some fs \<longleftrightarrow> valid_FetchResponse fs \<and> encode_FetchResponse fs [] = b) \<and>
   (decode_ListTopicsResponse (make_BodyReader b) = Some ls \<longleftrightarrow> valid_ListTopicsResponse ls \<and> encode_ListTopicsResponse ls [] = b) \<and>
   (decode_JoinGroupResponse (make_BodyReader b) = Some js \<longleftrightarrow> valid_JoinGroupResponse js \<and> encode_JoinGroupResponse js [] = b) \<and>
   (decode_FetchOffsetResponse (make_BodyReader b) = Some os \<longleftrightarrow> valid_FetchOffsetResponse os \<and> encode_FetchOffsetResponse os [] = b) \<and>
   (decode_DescribeGroupResponse (make_BodyReader b) = Some gs \<longleftrightarrow> valid_DescribeGroupResponse gs \<and> encode_DescribeGroupResponse gs [] = b) \<and>
   (decode_empty (make_BodyReader b) = Some () \<longleftrightarrow> b = []) \<and>
   (valid_DescribeTopicResponse ds \<longrightarrow> decode_DescribeTopicResponse (make_BodyReader (encode_DescribeTopicResponse ds [])) = Some ds)"
  using m_produce_ok.decode_iff [of b ps] m_empty.decode_iff [of b "()"]
  by (intro conjI m_fetch_ok.decode_iff m_topics.decode_iff m_join_ok.decode_iff m_offsets.decode_iff m_group.decode_iff impI
      m_topic_description.roundtrip) (auto simp: encode_empty_def)

definition sample_description :: DescribeTopicResponse where
  "sample_description = \<lparr> ds_name = ''t'', ds_partitions = 1,
     ds_partition_offsets = [\<lparr> po_earliest = 3, po_next_offset = 9, po_segment_count = 2 \<rparr>], ds_retention_ms = 5, ds_retention_bytes = 6, ds_degraded = 1 \<rparr>"

theorem responses_decode_exactly_witness:
  "decode_DescribeTopicResponse (make_BodyReader (encode_DescribeTopicResponse sample_description [])) = Some sample_description"
  by (rule responses_decode_exactly [THEN conjunct2, THEN conjunct2, THEN conjunct2, THEN conjunct2, THEN conjunct2, THEN conjunct2, THEN conjunct2, THEN mp])
     (simp add: valid_DescribeTopicResponse_def sample_description_def)

text \<open>
  A produce request reaches the other side: a valid request whose body fits the frame limit,
  put into a frame, encoded and received in any pieces, comes out of the assembler as one frame
  with its type and request id, and decodes to the same request.
\<close>

lemma produce_request_transport:
  assumes "valid_ProduceRequest m" "length (encode_ProduceRequest m []) + 5 \<le> 1048576"
    and "concat chunks = the (frame_encode \<lparr> fr_length = HEADER_SIZE + of_nat (length (encode_ProduceRequest m [])), fr_type = PRODUCE,
           fr_request_id = rid, fr_body = encode_ProduceRequest m [] \<rparr>)"
  shows "\<exists>g. fst (feed new_FrameAssembler chunks) = [g] \<and> fr_type g = PRODUCE \<and> fr_request_id g = rid \<and>
    decode_ProduceRequest (make_BodyReader (fr_body g)) = Some m"
  by (rule m_produce.transport [OF assms(1,2) refl assms(3)])

definition sample_produce :: ProduceRequest where
  "sample_produce = \<lparr> pr_topic = ''t'', pr_partition = - 1, pr_record_count = 1, pr_records = [\<lparr> prp_key = [1], prp_value = [2, 3] \<rparr>] \<rparr>"

end
