(* ===== verification/Partitioner.thy ===== *)
theory Partitioner
  imports Prelude
begin

text \<open>
  \<^verbatim>\<open>src/src/Partitioner.cpp\<close>: the round-robin partitioner with its 32-bit counter, and the
  key-hash partitioner (FNV-1a) that falls back to round robin for an empty key. The locale
  \<open>partitioner\<close> states what a topic needs, that the choice is one of its partitions.
\<close>

section \<open>Definitions\<close>

type_synonym RoundRobinPartitioner = u32

definition rr_partition :: "RoundRobinPartitioner \<Rightarrow> bytes \<Rightarrow> u32 \<Rightarrow> u32 \<times> RoundRobinPartitioner" where
  "rr_partition m_counter key num_partitions =
     (if num_partitions = 0 then (0, m_counter) else (m_counter mod num_partitions, m_counter + 1))"

definition fnv1a_32 :: "bytes \<Rightarrow> u32" where
  "fnv1a_32 data = foldl (\<lambda>hash d. (hash XOR ucast d) * 16777619) 2166136261 data"

text \<open>The state of \<^verbatim>\<open>KeyHashPartitioner\<close> is its fallback.\<close>

definition key_partition :: "RoundRobinPartitioner \<Rightarrow> bytes \<Rightarrow> u32 \<Rightarrow> u32 \<times> RoundRobinPartitioner" where
  "key_partition m_fallback_rr key num_partitions =
     (if num_partitions = 0 then (0, m_fallback_rr)
      else if key = [] then rr_partition m_fallback_rr key num_partitions
      else (fnv1a_32 key mod num_partitions, m_fallback_rr))"

section \<open>The contract\<close>

locale partitioner =
  fixes pick :: "'s \<Rightarrow> bytes \<Rightarrow> u32 \<Rightarrow> u32 \<times> 's"
  assumes in_range: "n > 0 \<Longrightarrow> fst (pick s key n) < n"
begin

lemma valid_index: "xs \<noteq> [] \<Longrightarrow> length xs < 2 ^ 32 \<Longrightarrow> unat (fst (pick s key (of_nat (length xs)))) < length xs"
  using in_range [of "of_nat (length xs)" s key]
  by (simp add: word_less_nat_alt unat_of_nat_u32)

end

lemma mod_less_word: "n > 0 \<Longrightarrow> (a :: u32) mod n < n"
  by (simp add: word_less_nat_alt unat_mod_distrib word_gt_0)

interpretation rr: partitioner rr_partition
  by unfold_locales (auto simp: rr_partition_def mod_less_word)

interpretation key_hash: partitioner key_partition
  by unfold_locales (auto simp: key_partition_def rr_partition_def mod_less_word)

section \<open>Fairness\<close>

text \<open>The choices of \<open>k\<close> calls in a row.\<close>

fun rr_choices :: "RoundRobinPartitioner \<Rightarrow> u32 \<Rightarrow> nat \<Rightarrow> u32 list" where
  "rr_choices c n 0 = []"
| "rr_choices c n (Suc k) = (case rr_partition c [] n of (p, c') \<Rightarrow> p # rr_choices c' n k)"

lemma rr_choices_eq:
  assumes "n > 0"
  shows "unat c + k \<le> 2 ^ 32 \<Longrightarrow> map unat (rr_choices c n k) = map (\<lambda>i. (unat c + i) mod unat n) [0..<k]"
proof (induction k arbitrary: c)
  case (Suc k)
  show ?case
  proof (cases "k = 0")
    case False
    then have "unat (c + 1) = unat c + 1" using Suc.prems by (subst unat_add_small_u32) simp_all
    then have "map unat (rr_choices (c + 1) n k) = map (\<lambda>i. (unat c + Suc i) mod unat n) [0..<k]"
      using Suc.IH [of "c + 1"] Suc.prems by simp
    moreover have "rr_partition c [] n = (c mod n, c + 1)" using assms by (auto simp: rr_partition_def)
    ultimately show ?thesis unfolding map_upt_Suc by (simp add: unat_mod_distrib)
  qed (use assms in \<open>auto simp: rr_partition_def unat_mod_distrib\<close>)
qed simp

text \<open>
  Records with the same non-empty key always go to the same partition, whatever happened in
  between; and without a key the partitions are used in turn: in every run of as many calls as
  there are partitions (not crossing the wrap-around of the 32-bit counter) each partition is
  chosen exactly once.
\<close>

lemma partitioners_consistent_and_fair:
  assumes "n > 0" "unat c + unat n \<le> 2 ^ 32"
  shows "(key \<noteq> [] \<longrightarrow> key_partition s key n = (fnv1a_32 key mod n, s)) \<and>
    distinct (rr_choices c n (unat n)) \<and> unat ` set (rr_choices c n (unat n)) = {0..<unat n}"
proof -
  let ?n = "unat n"
  have n: "?n > 0" using assms(1) by (simp add: word_gt_0 unat_gt_0)
  have m: "map unat (rr_choices c n ?n) = map (\<lambda>i. (unat c + i) mod ?n) [0..<?n]"
    by (rule rr_choices_eq [OF assms])
  have inj: "inj_on (\<lambda>i. (unat c + i) mod ?n) {0..<?n}"
  proof (rule linorder_inj_onI)
    fix i j assume ij: "i < j" "i \<in> {0..<?n}" "j \<in> {0..<?n}"
    have "\<not> ?n dvd j - i" using ij by (auto dest: dvd_imp_le)
    then show "(unat c + i) mod ?n \<noteq> (unat c + j) mod ?n"
      using mod_eq_dvd_iff_nat [of "unat c + i" "unat c + j" ?n] ij(1) by (auto simp: eq_commute)
  qed auto
  have "distinct (map unat (rr_choices c n ?n))" unfolding m by (simp add: distinct_map inj)
  moreover have "unat ` set (rr_choices c n ?n) = (\<lambda>i. (unat c + i) mod ?n) ` {0..<?n}"
    using arg_cong [OF m, of set] by simp
  moreover have "\<dots> = {0..<?n}" by (rule endo_inj_surj [OF _ _ inj]) (use n in auto)
  ultimately show ?thesis using assms(1) by (auto simp: distinct_map key_partition_def)
qed

end
