(* ===== verification/Topic.thy ===== *)
theory Topic
  imports CrashRecovery Partitioner MessageLaws
begin

text \<open>
  \<^verbatim>\<open>src/src/Topic.cpp\<close>: a topic is a list of partitions, each in its own directory below the
  topic's, two partitioners and the retention settings. Operations go to one partition; the
  time is read by the partition when it appends.
\<close>

section \<open>The topic object\<close>

record Topic =
  tc_name :: string
  tc_dir :: path
  tc_config :: StorageConfig
  tc_retention_ms :: u64
  tc_retention_bytes :: u64
  tc_key_partitioner :: RoundRobinPartitioner
  tc_rr_partitioner :: RoundRobinPartitioner
  tc_partitions :: "Partition list"

definition make_Topic :: "string \<Rightarrow> u32 \<Rightarrow> path \<Rightarrow> StorageConfig \<Rightarrow> u64 \<Rightarrow> u64 \<Rightarrow> Topic" where
  "make_Topic name num_partitions topic_dir config retention_ms retention_bytes =
     \<lparr> tc_name = name, tc_dir = topic_dir, tc_config = config, tc_retention_ms = retention_ms,
       tc_retention_bytes = retention_bytes, tc_key_partitioner = 0, tc_rr_partitioner = 0,
       tc_partitions = map (\<lambda>i. make_Partition (of_nat i) (topic_dir @ [to_string i]) config) [0..<unat num_partitions] \<rparr>"

definition tc_num_partitions :: "Topic \<Rightarrow> u32" where
  "tc_num_partitions t = of_nat (length (tc_partitions t))"

definition get_partition :: "Topic \<Rightarrow> u32 \<Rightarrow> Partition option" where
  "get_partition t partition_id =
     (if unat partition_id \<ge> length (tc_partitions t) then None else Some (tc_partitions t ! unat partition_id))"

text \<open>The partition object behind a pointer, updated in place.\<close>

definition put_partition :: "Topic \<Rightarrow> u32 \<Rightarrow> Partition \<Rightarrow> Topic" where
  "put_partition t partition_id P = t\<lparr> tc_partitions := (tc_partitions t)[unat partition_id := P] \<rparr>"

fun open_partitions :: "os \<Rightarrow> filesys \<Rightarrow> Partition list \<Rightarrow> (Status \<times> Partition list \<times> filesys) option" where
  "open_partitions w fs [] = Some (Status_OK, [], fs)"
| "open_partitions w fs (P # ps) = do {
     (st, P1, fs1) \<leftarrow> open_and_recover w fs P;
     if \<not> ok st then Some (st, P1 # ps, fs1)
     else do { (st2, ps2, fs2) \<leftarrow> open_partitions w fs1 ps; Some (st2, P1 # ps2, fs2) }
   }"

definition topic_open_and_recover :: "os \<Rightarrow> filesys \<Rightarrow> Topic \<Rightarrow> (Status \<times> Topic \<times> filesys) option" where
  "topic_open_and_recover w fs t = do {
     let fs0 = create_directories fs (tc_dir t);
     (st, ps, fs1) \<leftarrow> open_partitions w fs0 (tc_partitions t);
     Some (st, t\<lparr> tc_partitions := ps \<rparr>, fs1)
   }"

section \<open>Producing\<close>

definition invalid_partition_id :: "nat \<Rightarrow> Status" where
  "invalid_partition_id n = Status InvalidArgument (''Invalid partition ID: '' @ to_string n)"

definition append_to ::
  "os \<Rightarrow> i64 \<Rightarrow> filesys \<Rightarrow> Topic \<Rightarrow> u32 \<Rightarrow> bytes \<Rightarrow> bytes \<Rightarrow> (u64 Result \<times> Topic \<times> filesys) option" where
  "append_to w now_ms fs t partition_id key val =
     (if unat partition_id \<ge> length (tc_partitions t) then Some (Inl (invalid_partition_id (unat partition_id)), t, fs)
      else do {
        (res, P, fs1) \<leftarrow> part_append w now_ms fs (tc_partitions t ! unat partition_id) key val;
        Some (res, put_partition t partition_id P, fs1)
      })"

definition topic_append :: "os \<Rightarrow> i64 \<Rightarrow> filesys \<Rightarrow> Topic \<Rightarrow> bytes \<Rightarrow> bytes \<Rightarrow> (u64 Result \<times> Topic \<times> filesys) option" where
  "topic_append w now_ms fs t key val =
     (let (part_id, kp) = key_partition (tc_key_partitioner t) key (tc_num_partitions t)
      in append_to w now_ms fs (t\<lparr> tc_key_partitioner := kp \<rparr>) part_id key val)"

definition topic_append_with_timestamp ::
  "os \<Rightarrow> filesys \<Rightarrow> Topic \<Rightarrow> u32 \<Rightarrow> bytes \<Rightarrow> bytes \<Rightarrow> i64 \<Rightarrow> (u64 Result \<times> Topic \<times> filesys) option" where
  "topic_append_with_timestamp w fs t partition_id key val timestamp_ms =
     (if unat partition_id \<ge> length (tc_partitions t) then Some (Inl (invalid_partition_id (unat partition_id)), t, fs)
      else do {
        (res, P, fs1) \<leftarrow> part_append_with_timestamp w fs (tc_partitions t ! unat partition_id) key val timestamp_ms;
        Some (res, put_partition t partition_id P, fs1)
      })"

text \<open>\<^verbatim>\<open>std::to_string\<close> of a signed value.\<close>

definition to_string_int :: "int \<Rightarrow> string" where
  "to_string_int i = (if i < 0 then ''-'' @ to_string (nat (- i)) else to_string (nat i))"

text \<open>The partition a batch goes to, with the partitioners afterwards.\<close>

definition choose_partition :: "Topic \<Rightarrow> i32 \<Rightarrow> bytes \<Rightarrow> u32 \<times> Topic" where
  "choose_partition t part first_key =
     (if sint part = - 1 then
        if first_key \<noteq> [] then
          (let (p, kp) = key_partition (tc_key_partitioner t) first_key (tc_num_partitions t) in (p, t\<lparr> tc_key_partitioner := kp \<rparr>))
        else (let (p, rr) = rr_partition (tc_rr_partitioner t) first_key (tc_num_partitions t) in (p, t\<lparr> tc_rr_partitioner := rr \<rparr>))
      else (part, t))"

text \<open>The result, the chosen partition (the initial value of the output where it is not set), the
  topic and the file system. With no partition at all \<^verbatim>\<open>m_partitions[chosen_p]\<close> is out of bounds.\<close>

definition produce_batch ::
  "os \<Rightarrow> i64 \<Rightarrow> filesys \<Rightarrow> Topic \<Rightarrow> i32 \<Rightarrow> ProduceRecordPayload list \<Rightarrow> u32 \<Rightarrow> (u64 Result \<times> u32 \<times> Topic \<times> filesys) option" where
  "produce_batch w now_ms fs t part records out_chosen =
     (if records = [] then Some (Inl (Status InvalidArgument ''Cannot produce empty record batch''), out_chosen, t, fs)
      else if sint part < - 1 \<or> sint part \<ge> sint (of_nat (length (tc_partitions t)) :: i32) then
        Some (Inl (Status InvalidArgument (''Invalid partition ID '' @ to_string_int (sint part))), out_chosen, t, fs)
      else
        (let (chosen_p, t1) = choose_partition t part (prp_key (hd records));
             batch = map (\<lambda>r. (prp_key r, prp_value r)) records
         in if unat chosen_p \<ge> length (tc_partitions t1) then None
            else do {
              (res, P, fs1) \<leftarrow> append_batch w now_ms fs (tc_partitions t1 ! unat chosen_p) batch;
              Some (res, chosen_p, put_partition t1 chosen_p P, fs1)
            }))"

definition topic_flush :: "os \<Rightarrow> filesys \<Rightarrow> Topic \<Rightarrow> filesys" where
  "topic_flush w fs t = foldl (part_flush w) fs (tc_partitions t)"

definition topic_is_degraded :: "Topic \<Rightarrow> bool" where
  "topic_is_degraded t \<longleftrightarrow> (\<exists>P \<in> set (tc_partitions t). p_is_degraded P)"

end
