(* ===== verification/TopicManager.thy ===== *)
theory TopicManager
  imports Topic
begin

text \<open>
  \<^verbatim>\<open>src/src/TopicManager.cpp\<close>: topic names, the metadata file \<^verbatim>\<open>topic.meta\<close>, creating topics and
  loading them at start. The map of topics is an association list (the iteration order of the
  C++ map is not specified). Streams are text streams: a line end is one character, whatever the
  platform writes for it.
\<close>

section \<open>Names\<close>

definition is_alnum :: "char \<Rightarrow> bool" where
  "is_alnum c \<longleftrightarrow> (let n = of_char c :: nat in 48 \<le> n \<and> n \<le> 57 \<or> 65 \<le> n \<and> n \<le> 90 \<or> 97 \<le> n \<and> n \<le> 122)"

definition to_upper :: "char \<Rightarrow> char" where
  "to_upper c = (let n = of_char c :: nat in if 97 \<le> n \<and> n \<le> 122 then char_of (n - 32) else c)"

definition reserved_names :: "string list" where
  "reserved_names = [''CON'', ''PRN'', ''AUX'', ''NUL'',
     ''COM1'', ''COM2'', ''COM3'', ''COM4'', ''COM5'', ''COM6'', ''COM7'', ''COM8'', ''COM9'',
     ''LPT1'', ''LPT2'', ''LPT3'', ''LPT4'', ''LPT5'', ''LPT6'', ''LPT7'', ''LPT8'', ''LPT9'']"

text \<open>\<open>None\<close> for a valid name, otherwise the error text.\<close>

definition validate_topic_name :: "string \<Rightarrow> string option" where
  "validate_topic_name name =
     (if name = [] then Some ''Topic name cannot be empty''
      else if length name > 249 then Some ''Topic name exceeds maximum length of 249 characters''
      else case find (\<lambda>c. \<not> is_alnum c \<and> c \<noteq> CHR ''.'' \<and> c \<noteq> CHR ''_'' \<and> c \<noteq> CHR ''-'') name of
        Some c \<Rightarrow> Some (''Topic name contains invalid character: '' @ [CHR 0x27, c, CHR 0x27])
      | None \<Rightarrow>
          if name = ''.'' \<or> name = ''..'' then Some (''Topic name cannot be '' @ [CHR 0x27] @ ''.'' @ [CHR 0x27] @ '' or '' @ [CHR 0x27] @ ''..'' @ [CHR 0x27])
          else if hd name = CHR ''.'' \<or> last name = CHR ''.'' then Some (''Topic name cannot start or end with '' @ [CHR 0x27] @ ''.'' @ [CHR 0x27])
          else if map to_upper name \<in> set reserved_names then
            Some (''Topic name '' @ [CHR 0x27] @ name @ [CHR 0x27] @ '' is a Windows reserved device name'')
          else None)"

text \<open>\<^verbatim>\<open>rfind("__", 0) == 0\<close>.\<close>

definition is_reserved :: "string \<Rightarrow> bool" where
  "is_reserved name \<longleftrightarrow> take 2 name = ''__''"

section \<open>Numbers in text\<close>

text \<open>\<^verbatim>\<open>std::stoul\<close>, where \<^verbatim>\<open>unsigned long\<close> has 32 bits, with the number of characters it read.\<close>

definition stoul :: "string \<Rightarrow> (u32 \<times> nat) option" where
  "stoul str =
     (let s1 = dropWhile is_blank str;
          neg = (s1 \<noteq> [] \<and> hd s1 = CHR ''-'');
          s2 = (if s1 \<noteq> [] \<and> (hd s1 = CHR ''-'' \<or> hd s1 = CHR ''+'') then tl s1 else s1);
          ds = takeWhile is_digit s2;
          v = digits_val 0 ds
      in if ds = [] \<or> v \<ge> 2 ^ 32 then None
         else Some (if neg then - of_nat v else of_nat v, length str - length s2 + length ds))"

section \<open>Metadata\<close>

definition NL :: char where "NL = CHR 0x0A"

record TopicManager =
  tm_config :: StorageConfig
  tm_topics :: "(string \<times> Topic) list"

definition make_TopicManager :: "StorageConfig \<Rightarrow> TopicManager" where
  "make_TopicManager config = \<lparr> tm_config = config, tm_topics = [] \<rparr>"

definition meta_path :: "path \<Rightarrow> path" where
  "meta_path topic_dir = topic_dir @ [''topic.meta'']"

definition meta_text :: "Topic \<Rightarrow> i64 \<Rightarrow> string" where
  "meta_text t now_ms =
     ''partitions='' @ to_string (unat (tc_num_partitions t)) @ [NL] @
     ''created_ms='' @ to_string_int (sint now_ms) @ [NL] @
     ''retention_ms='' @ to_string (unat (tc_retention_ms t)) @ [NL] @
     ''retention_bytes='' @ to_string (unat (tc_retention_bytes t)) @ [NL]"

text \<open>\<^verbatim>\<open>std::ofstream\<close> truncates the file and its flush hands the text to the operating system;
  nothing makes it durable (\<^verbatim>\<open>flush_directory\<close> concerns the directory).\<close>

definition save_topic_metadata :: "os \<Rightarrow> i64 \<Rightarrow> filesys \<Rightarrow> Topic \<Rightarrow> Status \<times> filesys" where
  "save_topic_metadata w now_ms fs t =
     (let p = meta_path (tc_dir t)
      in if \<not> os_CreateFileW w fs p then (Status IoError (''Failed to write topic metadata file: '' @ path_string p), fs)
         else (Status_OK, put_file fs p \<lparr> f_data = bytes_of_chars (meta_text t now_ms), f_synced = 0 \<rparr>))"

text \<open>The lines \<^verbatim>\<open>std::getline\<close> yields.\<close>

fun split_lines :: "string \<Rightarrow> string \<Rightarrow> string list" where
  "split_lines acc [] = (if acc = [] then [] else [acc])"
| "split_lines acc (c # cs) = (if c = NL then acc # split_lines [] cs else split_lines (acc @ [c]) cs)"

definition meta_line :: "u32 \<times> u64 \<times> u64 \<Rightarrow> string \<Rightarrow> u32 \<times> u64 \<times> u64" where
  "meta_line out line =
     (let (parts, rms, rbytes) = out;
          key = takeWhile (\<lambda>c. c \<noteq> CHR ''='') line;
          val = drop (Suc (length key)) line
      in if CHR ''='' \<notin> set line then out
         else if key = ''partitions'' then (case stoul val of None \<Rightarrow> out | Some (v, _) \<Rightarrow> (v, rms, rbytes))
         else if key = ''retention_ms'' then (case stoull val of None \<Rightarrow> out | Some v \<Rightarrow> (parts, v, rbytes))
         else if key = ''retention_bytes'' then (case stoull val of None \<Rightarrow> out | Some v \<Rightarrow> (parts, rms, v))
         else out)"

definition load_topic_metadata ::
  "os \<Rightarrow> filesys \<Rightarrow> TopicManager \<Rightarrow> path \<Rightarrow> u32 \<times> u64 \<times> u64 \<Rightarrow> Status \<times> u32 \<times> u64 \<times> u64" where
  "load_topic_metadata w fs tm topic_dir out =
     (let p = meta_path topic_dir
      in if \<not> (os_CreateFileW w fs p \<and> fexists fs p) then
           (Status NotFound (''Topic metadata file missing: '' @ path_string p), out)
         else
           (let (parts, rms, rbytes) = foldl meta_line (0, default_retention_ms (tm_config tm), default_retention_bytes (tm_config tm))
                  (split_lines [] (chars_of_bytes (fdata fs p)))
            in if parts = 0 then (Status Corrupt (''Invalid partitions count in metadata file: '' @ path_string p), parts, rms, rbytes)
               else (Status_OK, parts, rms, rbytes)))"

section \<open>Topics\<close>

definition base_path :: "TopicManager \<Rightarrow> path" where
  "base_path tm = [data_dir (tm_config tm)]"

definition dir_dirs :: "filesys \<Rightarrow> path \<Rightarrow> path list" where
  "dir_dirs fs d = filter (\<lambda>p. p \<noteq> [] \<and> butlast p = d) (remdups (fs_dirs fs))"

text \<open>The loop of \<^verbatim>\<open>open_and_recover_all\<close> over the directories. Names that are not valid and
  directories without readable metadata are skipped.\<close>

fun recover_topics :: "os \<Rightarrow> path list \<Rightarrow> TopicManager \<Rightarrow> filesys \<Rightarrow> (Status \<times> TopicManager \<times> filesys) option" where
  "recover_topics w [] tm fs = Some (Status_OK, tm, fs)"
| "recover_topics w (d # ds) tm fs =
     (let topic_name = last d
      in if validate_topic_name topic_name \<noteq> None then recover_topics w ds tm fs
         else
           (let (st, parts, rms, rbytes) = load_topic_metadata w fs tm d
                  (0, default_retention_ms (tm_config tm), default_retention_bytes (tm_config tm))
            in if \<not> ok st then recover_topics w ds tm fs
               else do {
                 (st2, t, fs1) \<leftarrow> topic_open_and_recover w fs (make_Topic topic_name parts d (tm_config tm) rms rbytes);
                 if \<not> ok st2 then Some (st2, tm, fs1)
                 else recover_topics w ds (tm\<lparr> tm_topics := AList.update topic_name t (tm_topics tm) \<rparr>) fs1
               }))"

definition open_and_recover_all :: "os \<Rightarrow> filesys \<Rightarrow> TopicManager \<Rightarrow> (Status \<times> TopicManager \<times> filesys) option" where
  "open_and_recover_all w fs tm =
     (let tm0 = tm\<lparr> tm_topics := [] \<rparr>
      in if \<not> fs_exists fs (base_path tm) then Some (Status_OK, tm0, create_directories fs (base_path tm))
         else recover_topics w (dir_dirs fs (base_path tm)) tm0 fs)"

definition get_topic :: "TopicManager \<Rightarrow> string \<Rightarrow> Topic option" where
  "get_topic tm name = map_of (tm_topics tm) name"

text \<open>The topic object behind a pointer, updated in place.\<close>

definition put_topic :: "TopicManager \<Rightarrow> string \<Rightarrow> Topic \<Rightarrow> TopicManager" where
  "put_topic tm name t = tm\<lparr> tm_topics := AList.update name t (tm_topics tm) \<rparr>"

definition list_topics :: "TopicManager \<Rightarrow> Topic list" where
  "list_topics tm = map snd (tm_topics tm)"

definition create_topic ::
  "os \<Rightarrow> i64 \<Rightarrow> filesys \<Rightarrow> TopicManager \<Rightarrow> string \<Rightarrow> u32 \<Rightarrow> u64 \<Rightarrow> u64 \<Rightarrow> (Topic Result \<times> TopicManager \<times> filesys) option" where
  "create_topic w now_ms fs tm name partitions retention_ms retention_bytes =
     (case validate_topic_name name of Some err \<Rightarrow> Some (Inl (Status InvalidArgument err), tm, fs)
      | None \<Rightarrow>
        if partitions < 1 \<or> partitions > 64 then
          Some (Inl (Status InvalidArgument ''Partitions count must be between 1 and 64''), tm, fs)
        else if get_topic tm name \<noteq> None then
          Some (Inl (Status AlreadyExists (''Topic '' @ [CHR 0x27] @ name @ [CHR 0x27] @ '' already exists'')), tm, fs)
        else
          (let rms = (if retention_ms = 0 then default_retention_ms (tm_config tm) else retention_ms);
               rbytes = (if retention_bytes = 0 \<and> default_retention_bytes (tm_config tm) > 0
                         then default_retention_bytes (tm_config tm) else retention_bytes);
               topic_dir = base_path tm @ [name]
           in if fs_exists fs (meta_path topic_dir) then
                Some (Inl (Status AlreadyExists (''Topic metadata already exists on disk for '' @ [CHR 0x27] @ name @ [CHR 0x27])), tm, fs)
              else do {
                (st, t, fs1) \<leftarrow> topic_open_and_recover w fs (make_Topic name partitions topic_dir (tm_config tm) rms rbytes);
                if \<not> ok st then Some (Inl st, tm, fs1)
                else
                  (let (st2, fs2) = save_topic_metadata w now_ms fs1 t
                   in if \<not> ok st2 then Some (Inl st2, tm, fs2)
                      else Some (Inr t, tm\<lparr> tm_topics := AList.update name t (tm_topics tm) \<rparr>, fs2))
              }))"

end
