(* ===== verification/OffsetStore.thy ===== *)
theory OffsetStore
  imports TopicManager
begin

text \<open>
  \<^verbatim>\<open>src/src/OffsetStore.cpp\<close>: committed consumer offsets. A commit is appended to partition 0 of
  the internal topic as one batch and flushed, then the cache is updated; at start the cache is
  rebuilt by reading that partition from its earliest offset. The store's pointer to the
  partition is the fact that it is initialised; the partition object itself lives in the topic
  manager.
\<close>

section \<open>Keys\<close>

definition INTERNAL_OFFSETS_TOPIC :: string where
  "INTERNAL_OFFSETS_TOPIC = ''__consumer_offsets''"

definition make_key :: "string \<Rightarrow> string \<Rightarrow> u16 \<Rightarrow> string" where
  "make_key group_id topic part = group_id @ ''|'' @ topic @ ''|'' @ to_string (unat part)"

text \<open>The position of a character, as \<^verbatim>\<open>std::string::find\<close>.\<close>

definition find_char :: "char \<Rightarrow> string \<Rightarrow> nat option" where
  "find_char c s = (if c \<in> set s then Some (length (takeWhile (\<lambda>d. d \<noteq> c) s)) else None)"

definition parse_key :: "string \<Rightarrow> (string \<times> string \<times> u16) option" where
  "parse_key key_str = do {
     first_pipe \<leftarrow> find_char CHR ''|'' key_str;
     k \<leftarrow> find_char CHR ''|'' (drop (first_pipe + 1) key_str);
     let second_pipe = first_pipe + 1 + k;
     let out_group = take first_pipe key_str;
     let out_topic = take (second_pipe - (first_pipe + 1)) (drop (first_pipe + 1) key_str);
     let part_str = drop (second_pipe + 1) key_str;
     if out_group = [] \<or> out_topic = [] \<or> part_str = [] then None
     else do {
       (p, idx) \<leftarrow> stoul part_str;
       if idx \<noteq> length part_str \<or> unat p > 0xFFFF then None else Some (out_group, out_topic, ucast p)
     }
   }"

section \<open>The store\<close>

record OffsetEntry =
  oen_offset :: i64
  oen_timestamp_ms :: i64

record OffsetCommitItem =
  oci_topic :: string
  oci_partition :: u16
  oci_offset :: u64
  oci_timestamp_ms :: i64

record OffsetStore =
  ofs_has_partition :: bool
  ofs_cache :: "(string \<times> OffsetEntry) list"

definition new_OffsetStore :: OffsetStore where
  "new_OffsetStore = \<lparr> ofs_has_partition = False, ofs_cache = [] \<rparr>"

text \<open>The 16 bytes of a value: offset and timestamp, each as two big-endian halves.\<close>

definition encode_value :: "u64 \<Rightarrow> i64 \<Rightarrow> bytes" where
  "encode_value off ts =
     fc_write_u32 (ucast (drop_bit 32 off)) @ fc_write_u32 (ucast (off AND 0xFFFFFFFF)) @
     fc_write_u32 (ucast (drop_bit 32 ts)) @ fc_write_u32 (ucast (ts AND 0xFFFFFFFF))"

definition decode_value :: "bytes \<Rightarrow> OffsetEntry" where
  "decode_value val =
     (let off_high = ucast (fc_read_u32 val) :: u64; off_low = ucast (fc_read_u32 (drop 4 val)) :: u64;
          ts_high = ucast (fc_read_u32 (drop 8 val)) :: u64; ts_low = ucast (fc_read_u32 (drop 12 val)) :: u64
      in \<lparr> oen_offset = push_bit 32 off_high OR off_low, oen_timestamp_ms = push_bit 32 ts_high OR ts_low \<rparr>)"

text \<open>The inner loop over one read's records: a status when a record is corrupt.\<close>

fun load_records :: "Record list \<Rightarrow> (string \<times> OffsetEntry) list \<Rightarrow> u64 \<Rightarrow>
    (Status \<times> (string \<times> OffsetEntry) list) + (string \<times> OffsetEntry) list \<times> u64" where
  "load_records [] cache curr_offset = Inr (cache, curr_offset)"
| "load_records (rec # recs) cache curr_offset =
     (let key_str = chars_of_bytes (r_key rec)
      in if parse_key key_str = None then
           Inl (Status Corrupt (''Corrupt key in '' @ INTERNAL_OFFSETS_TOPIC @ '' at offset '' @ to_string (unat (r_offset rec))), cache)
         else if length (r_value rec) \<noteq> 16 then
           Inl (Status Corrupt (''Corrupt value size ('' @ to_string (length (r_value rec)) @ '' != 16) in '' @
             INTERNAL_OFFSETS_TOPIC @ '' at offset '' @ to_string (unat (r_offset rec))), cache)
         else load_records recs (AList.update key_str (decode_value (r_value rec)) cache) (r_offset rec + 1))"

partial_function (option) load_loop ::
  "os \<Rightarrow> filesys \<Rightarrow> Partition \<Rightarrow> u64 \<Rightarrow> u64 \<Rightarrow> (string \<times> OffsetEntry) list \<Rightarrow> (Status \<times> (string \<times> OffsetEntry) list) option" where
  "load_loop w fs P high_watermark curr_offset cache =
     (if curr_offset < high_watermark then do {
        res \<leftarrow> part_read w fs P curr_offset 1000 (1024 * 1024);
        if \<not> ok (rr_status res) then
          Some (Status Corrupt (''Failed to read '' @ INTERNAL_OFFSETS_TOPIC @ '' at offset '' @ to_string (unat curr_offset) @
            '': '' @ message (rr_status res)), cache)
        else if rr_records res = [] then Some (Status_OK, cache)
        else case load_records (rr_records res) cache curr_offset of
            Inl (st, cache') \<Rightarrow> Some (st, cache')
          | Inr (cache', curr') \<Rightarrow> load_loop w fs P high_watermark curr' cache'
      } else Some (Status_OK, cache))"

definition offsets_open_and_recover ::
  "os \<Rightarrow> i64 \<Rightarrow> filesys \<Rightarrow> TopicManager \<Rightarrow> OffsetStore \<Rightarrow> (Status \<times> OffsetStore \<times> TopicManager \<times> filesys) option" where
  "offsets_open_and_recover w now_ms fs tm s = do {
     let s0 = s\<lparr> ofs_cache := [] \<rparr>;
     (created, tm1, fs1) \<leftarrow> (case get_topic tm INTERNAL_OFFSETS_TOPIC of
         Some t \<Rightarrow> Some (Inr t, tm, fs)
       | None \<Rightarrow> create_topic w now_ms fs tm INTERNAL_OFFSETS_TOPIC 1 0 0);
     case created of
       Inl st \<Rightarrow> Some (Status IoError (''Failed to create '' @ INTERNAL_OFFSETS_TOPIC @ '': '' @ message st), s0, tm1, fs1)
     | Inr t \<Rightarrow>
         (case get_partition t 0 of
            None \<Rightarrow> Some (Status IoError (''Failed to access partition 0 of '' @ INTERNAL_OFFSETS_TOPIC), s0\<lparr> ofs_has_partition := False \<rparr>, tm1, fs1)
          | Some P \<Rightarrow> do {
              (st, cache) \<leftarrow> load_loop w fs1 P (p_next_offset P) (earliest_offset P) [];
              Some (st, s0\<lparr> ofs_has_partition := True, ofs_cache := cache \<rparr>, tm1, fs1)
            })
   }"

definition commit_batch :: "string \<Rightarrow> OffsetCommitItem list \<Rightarrow> (bytes \<times> bytes) list" where
  "commit_batch group_id items =
     map (\<lambda>item. (bytes_of_chars (make_key group_id (oci_topic item) (oci_partition item)),
                  encode_value (oci_offset item) (oci_timestamp_ms item))) items"

definition cache_items :: "string \<Rightarrow> OffsetCommitItem list \<Rightarrow> (string \<times> OffsetEntry) list \<Rightarrow> (string \<times> OffsetEntry) list" where
  "cache_items group_id items cache =
     foldl (\<lambda>cache item. AList.update (make_key group_id (oci_topic item) (oci_partition item))
              \<lparr> oen_offset = oci_offset item, oen_timestamp_ms = oci_timestamp_ms item \<rparr> cache) cache items"

text \<open>\<open>None\<close> where the partition pointer would dangle: the internal topic is never removed from the
  manager, so this does not happen.\<close>

definition offsets_commit ::
  "os \<Rightarrow> i64 \<Rightarrow> filesys \<Rightarrow> TopicManager \<Rightarrow> OffsetStore \<Rightarrow> string \<Rightarrow> OffsetCommitItem list \<Rightarrow>
    (Status \<times> OffsetStore \<times> TopicManager \<times> filesys) option" where
  "offsets_commit w now_ms fs tm s group_id items =
     (if items = [] then Some (Status_OK, s, tm, fs)
      else if \<not> ofs_has_partition s then Some (Status IoError ''OffsetStore partition not initialized'', s, tm, fs)
      else do {
        t \<leftarrow> get_topic tm INTERNAL_OFFSETS_TOPIC;
        P \<leftarrow> get_partition t 0;
        (res, P1, fs1) \<leftarrow> append_batch w now_ms fs P (commit_batch group_id items);
        let tm1 = put_topic tm INTERNAL_OFFSETS_TOPIC (put_partition t 0 P1);
        case res of
          Inl st \<Rightarrow> Some (st, s, tm1, fs1)
        | Inr _ \<Rightarrow> Some (Status_OK, s\<lparr> ofs_cache := cache_items group_id items (ofs_cache s) \<rparr>, tm1, part_flush w fs1 P1)
      })"

definition offsets_get :: "OffsetStore \<Rightarrow> string \<Rightarrow> string \<Rightarrow> u16 \<Rightarrow> i64" where
  "offsets_get s group_id topic part =
     (case map_of (ofs_cache s) (make_key group_id topic part) of Some e \<Rightarrow> oen_offset e | None \<Rightarrow> - 1)"

definition loaded_keys_count :: "OffsetStore \<Rightarrow> nat" where
  "loaded_keys_count s = length (ofs_cache s)"

end
