(* ===== verification/Assignor.thy ===== *)
theory Assignor
  imports Prelude "HOL-Library.List_Lexorder" "HOL-Library.Char_ord" "HOL-Library.Multiset"
begin

text \<open>
  \<^verbatim>\<open>src/src/Assignor.cpp\<close>: the two strategies that distribute the partitions of the subscribed
  topics over the members of a group. The locale \<open>assignor\<close> is the contract the coordinator
  relies on, for distinct topics and distinct members: the members' lists together are a
  permutation of all partitions. Both strategies are interpreted; what the coordinator needs
  (every partition has exactly one owner, and nothing else is assigned) is proved once inside.
\<close>

section \<open>Topic partitions\<close>

datatype TopicPartition = TopicPartition (t_topic: string) (t_partition: u16)

text \<open>\<^verbatim>\<open>operator<\<close>: by topic name, then by partition number.\<close>

instantiation TopicPartition :: linorder
begin

definition less_TopicPartition :: "TopicPartition \<Rightarrow> TopicPartition \<Rightarrow> bool" where
  "less_TopicPartition a b \<longleftrightarrow> (if t_topic a \<noteq> t_topic b then t_topic a < t_topic b else t_partition a < t_partition b)"

definition less_eq_TopicPartition :: "TopicPartition \<Rightarrow> TopicPartition \<Rightarrow> bool" where
  "less_eq_TopicPartition (a :: TopicPartition) b \<longleftrightarrow> a < b \<or> a = b"

instance
proof
  fix a b c :: TopicPartition
  show "a < b \<longleftrightarrow> a \<le> b \<and> \<not> b \<le> a" by (auto simp: less_eq_TopicPartition_def less_TopicPartition_def split: if_splits)
  show "a \<le> a" by (simp add: less_eq_TopicPartition_def)
  show "a \<le> b \<Longrightarrow> b \<le> c \<Longrightarrow> a \<le> c"
    by (auto simp: less_eq_TopicPartition_def less_TopicPartition_def split: if_splits)
  show "a \<le> b \<Longrightarrow> b \<le> a \<Longrightarrow> a = b"
    by (auto simp: less_eq_TopicPartition_def less_TopicPartition_def split: if_splits)
  show "a \<le> b \<or> b \<le> a"
    by (auto simp: less_eq_TopicPartition_def less_TopicPartition_def intro: TopicPartition.expand split: if_splits)
qed

end

datatype AssignorStrategy = Range | RoundRobin

section \<open>Assigning\<close>

text \<open>The result map as an association list; \<open>at\<close> is \<^verbatim>\<open>operator[]\<close>, which creates an empty list
  for a new key, and \<open>push_back\<close> appends to the list of a member.\<close>

type_synonym assignment = "(string \<times> TopicPartition list) list"

definition at :: "assignment \<Rightarrow> string \<Rightarrow> TopicPartition list" where
  "at result m = (case map_of result m of None \<Rightarrow> [] | Some tps \<Rightarrow> tps)"

definition push_back :: "assignment \<Rightarrow> string \<Rightarrow> TopicPartition \<Rightarrow> assignment" where
  "push_back result m tp = AList.update m (at result m @ [tp]) result"

definition no_assignment :: "string list \<Rightarrow> assignment" where
  "no_assignment sorted_members = foldl (\<lambda>result m. AList.update m [] result) [] sorted_members"

definition range_member :: "string list \<Rightarrow> string \<Rightarrow> nat \<Rightarrow> nat \<Rightarrow> assignment \<Rightarrow> nat \<Rightarrow> assignment" where
  "range_member sorted_members topic base extra result i =
     (let count = base + (if i < extra then 1 else 0);
          start = i * base + min i extra
      in foldl (\<lambda>result p. push_back result (sorted_members ! i) (TopicPartition topic (of_nat (start + p)))) result [0..<count])"

definition range_topic :: "string list \<Rightarrow> assignment \<Rightarrow> string \<times> u16 \<Rightarrow> assignment" where
  "range_topic sorted_members result tp =
     (let (topic, num_parts) = tp;
          num_members = length sorted_members;
          base = unat num_parts div num_members;
          extra = unat num_parts mod num_members
      in foldl (range_member sorted_members topic base extra) result [0..<num_members])"

definition range_assign :: "string list \<Rightarrow> (string \<times> u16) list \<Rightarrow> assignment" where
  "range_assign sorted_members topic_partitions =
     (let result = no_assignment sorted_members
      in if sorted_members = [] then result
         else foldl (range_topic sorted_members) result topic_partitions)"

definition flatten :: "(string \<times> u16) list \<Rightarrow> TopicPartition list" where
  "flatten topic_partitions =
     concat (map (\<lambda>(topic, num_parts). map (\<lambda>p. TopicPartition topic (of_nat p)) [0..<unat num_parts]) topic_partitions)"

definition round_robin_assign :: "string list \<Rightarrow> (string \<times> u16) list \<Rightarrow> assignment" where
  "round_robin_assign sorted_members topic_partitions =
     (let result = no_assignment sorted_members
      in if sorted_members = [] then result
         else let all_tp = sort (flatten topic_partitions);
                  num_members = length sorted_members
              in foldl (\<lambda>result i. push_back result (sorted_members ! (i mod num_members)) (all_tp ! i)) result [0..<length all_tp])"

section \<open>Appending to lists\<close>

lemma at_push_back: "at (push_back result m tp) n = (if n = m then at result m @ [tp] else at result n)"
  by (simp add: at_def push_back_def update_conv')

lemma at_no_assignment [simp]: "at (no_assignment ms) m = []"
proof -
  have "(\<forall>n. at r n = []) \<Longrightarrow> at (foldl (\<lambda>result m. AList.update m [] result) r ms) m = []" for r
  proof (induction ms arbitrary: r)
    case (Cons x ms)
    then show ?case by (simp add: at_def update_conv')
  qed simp
  then show ?thesis by (simp add: no_assignment_def at_def)
qed

text \<open>Everything the members have, as a multiset.\<close>

definition assigned :: "string list \<Rightarrow> assignment \<Rightarrow> TopicPartition multiset" where
  "assigned ms r = (\<Sum>m \<leftarrow> ms. mset (at r m))"

lemma assigned_push_back:
  assumes "distinct ms" "m \<in> set ms"
  shows "assigned ms (push_back r m tp) = add_mset tp (assigned ms r)"
proof -
  obtain xs ys where ms: "ms = xs @ m # ys" using assms(2) by (meson split_list)
  have e: "map (\<lambda>n. mset (at (push_back r m tp) n)) xs = map (\<lambda>n. mset (at r n)) xs"
       "map (\<lambda>n. mset (at (push_back r m tp) n)) ys = map (\<lambda>n. mset (at r n)) ys"
    using assms(1) ms by (auto simp: at_push_back)
  show ?thesis unfolding assigned_def ms map_append list.map e by (simp add: at_push_back)
qed

lemma assigned_pushes:
  assumes "distinct ms"
  shows "\<forall>x \<in> set xs. f x \<in> set ms \<Longrightarrow>
    assigned ms (foldl (\<lambda>r x. push_back r (f x) (g x)) r xs) = assigned ms r + mset (map g xs)"
proof (induction xs arbitrary: r)
  case (Cons x xs)
  then show ?case using assigned_push_back [OF assms, of "f x" r "g x"] by simp
qed simp

lemma at_pushes:
  "at (foldl (\<lambda>r x. push_back r (f x) (g x)) r xs) m = at r m @ map g (filter (\<lambda>x. f x = m) xs)"
  by (induction xs arbitrary: r) (auto simp: at_push_back)

section \<open>The contract\<close>

locale assignor =
  fixes assign :: "string list \<Rightarrow> (string \<times> u16) list \<Rightarrow> assignment"
  assumes assign_all: "distinct ms \<Longrightarrow> ms \<noteq> [] \<Longrightarrow> assigned ms (assign ms tps) = mset (flatten tps)"
begin

text \<open>How many members have a partition, counting repetitions.\<close>

lemma owners:
  assumes "distinct ms" "ms \<noteq> []"
  shows "(\<Sum>m \<leftarrow> ms. count_list (at (assign ms tps) m) tp) = count_list (flatten tps) tp"
proof -
  have "(\<Sum>m \<leftarrow> ms. count_list (r m) tp) = count (\<Sum>m \<leftarrow> ms. mset (r m)) tp" for r
    by (induction ms) (simp_all add: count_mset)
  then show ?thesis using assign_all [OF assms, of tps] by (simp add: assigned_def count_mset)
qed

lemma only_listed:
  assumes "distinct ms" "m \<in> set ms" "tp \<in> set (at (assign ms tps) m)"
  shows "tp \<in> set (flatten tps)"
proof -
  have "tp \<in># assigned ms r" if "tp \<in> set (at r m)" for r
  proof -
    obtain xs ys where "ms = xs @ m # ys" using assms(2) by (meson split_list)
    then show ?thesis using that by (simp add: assigned_def)
  qed
  then have "tp \<in># mset (flatten tps)" using assign_all [OF assms(1), of tps] assms(2,3) by (metis empty_iff list.set(1))
  then show ?thesis by simp
qed

lemma unique_owner:
  assumes "distinct ms" "ms \<noteq> []" "distinct (flatten tps)" "tp \<in> set (flatten tps)"
  shows "\<exists>!m. m \<in> set ms \<and> tp \<in> set (at (assign ms tps) m)"
proof -
  let ?c = "\<lambda>m. count_list (at (assign ms tps) m) tp"
  have "count_list (flatten tps) tp = 1" using assms(3,4) by (simp add: distinct_count_atmost_1 count_mset [symmetric])
  then have "(\<Sum>m \<leftarrow> ms. ?c m) = 1" using owners [OF assms(1,2)] by simp
  then have s: "(\<Sum>m \<in> set ms. ?c m) = 1" using assms(1) by (simp add: sum_list_distinct_conv_sum_set)
  have "m = n" if "m \<in> set ms" "n \<in> set ms" "?c m \<noteq> 0" "?c n \<noteq> 0" for m n
  proof (rule ccontr)
    assume "m \<noteq> n"
    then have "?c m + ?c n \<le> (\<Sum>m \<in> set ms. ?c m)"
      using that sum_mono2 [of "set ms" "{m, n}" ?c] by simp
    then show False using s that(3,4) by linarith
  qed
  moreover have "\<exists>m \<in> set ms. ?c m \<noteq> 0" using s by (metis sum.neutral zero_neq_one)
  ultimately show ?thesis by (metis count_list_0_iff)
qed

end

section \<open>All partitions\<close>

lemma of_nat_u16_inj: "p < 65536 \<Longrightarrow> q < 65536 \<Longrightarrow> of_nat p = (of_nat q :: u16) \<longleftrightarrow> p = q"
  by (metis unat_of_nat_u16)

lemma topic_parts_once:
  fixes n :: u16
  assumes "p < unat n"
  shows "count_list (map (\<lambda>q. TopicPartition t (of_nat q)) [0..<unat n]) (TopicPartition t (of_nat p)) = 1"
proof -
  have lt: "q < 65536" if "q < unat n" for q using that unat_u16_lt [of n] by linarith
  have "distinct (map (\<lambda>q. TopicPartition t (of_nat q :: u16)) [0..<unat n])"
    unfolding distinct_map inj_on_def using lt by (simp add: of_nat_u16_inj)
  moreover have "TopicPartition t (of_nat p) \<in> set (map (\<lambda>q. TopicPartition t (of_nat q)) [0..<unat n])" using assms by auto
  ultimately show ?thesis by (simp add: distinct_count_atmost_1 count_mset [symmetric] del: set_map)
qed

lemma flatten_topic: "x \<in> set (flatten tps) \<Longrightarrow> t_topic x \<in> fst ` set tps"
  by (force simp: flatten_def)

lemma flatten_Cons: "flatten ((t, n) # tps) = map (\<lambda>q. TopicPartition t (of_nat q)) [0..<unat n] @ flatten tps"
  by (simp add: flatten_def)

lemma count_list_append: "count_list (xs @ ys) x = count_list xs x + count_list ys x"
  by (induction xs) auto

lemma flatten_once:
  "distinct (map fst tps) \<Longrightarrow> (t, n) \<in> set tps \<Longrightarrow> p < unat n \<Longrightarrow> count_list (flatten tps) (TopicPartition t (of_nat p)) = 1"
proof (induction tps)
  case (Cons tp tps)
  obtain t' n' where tp: "tp = (t', n')" by (cases tp)
  show ?case
  proof (cases "t' = t")
    case True
    then have n: "n' = n" "t \<notin> fst ` set tps" using Cons.prems tp by (auto simp: image_iff)
    then have "count_list (flatten tps) (TopicPartition t (of_nat p)) = 0"
      using flatten_topic [of "TopicPartition t (of_nat p)" tps] by (intro count_notin) auto
    then show ?thesis unfolding tp flatten_Cons count_list_append using topic_parts_once [OF Cons.prems(3)] n(1) True by simp
  next
    case False
    then have "count_list (map (\<lambda>q. TopicPartition t' (of_nat q)) [0..<unat n']) (TopicPartition t (of_nat p)) = 0"
      by (intro count_notin) auto
    then show ?thesis unfolding tp flatten_Cons count_list_append using Cons False tp by simp
  qed
qed simp

lemma flatten_mem:
  assumes "tp \<in> set (flatten tps)"
  shows "\<exists>n. (t_topic tp, n) \<in> set tps \<and> unat (t_partition tp) < unat n"
proof -
  obtain t n p where "(t, n) \<in> set tps" "p < unat n" "tp = TopicPartition t (of_nat p)"
    using assms by (auto simp: flatten_def)
  moreover have "unat (of_nat p :: u16) = p" by (rule unat_of_nat_u16 [OF less_trans [OF \<open>p < unat n\<close> unat_u16_lt]])
  ultimately show ?thesis by auto
qed

section \<open>Round robin\<close>

interpretation round_robin: assignor round_robin_assign
proof
  fix ms :: "string list" and tps assume d: "distinct ms" and ne: "ms \<noteq> []"
  let ?all = "sort (flatten tps)"
  have "assigned ms (round_robin_assign ms tps) =
      assigned ms (no_assignment ms) + mset (map (\<lambda>i. ?all ! i) [0..<length ?all])"
    using ne unfolding round_robin_assign_def Let_def
    by (simp only: if_False) (rule assigned_pushes [OF d], simp)
  also have "map (\<lambda>i. ?all ! i) [0..<length ?all] = ?all" by (rule map_nth)
  finally show "assigned ms (round_robin_assign ms tps) = mset (flatten tps)"
    by (simp add: assigned_def)
qed

lemma count_mod:
  assumes "i < n"
  shows "length (filter (\<lambda>x. x mod n = i) [0..<t]) = t div n + (if i < t mod n then 1 else (0 :: nat))"
proof (induction t)
  case (Suc t)
  then show ?case using assms by (auto simp: div_Suc mod_Suc split: if_splits)
qed simp

lemma length_round_robin:
  assumes "distinct ms" "i < length ms"
  shows "length (at (round_robin_assign ms tps) (ms ! i)) =
    length (flatten tps) div length ms + (if i < length (flatten tps) mod length ms then 1 else 0)"
proof -
  have ne: "ms \<noteq> []" using assms(2) by auto
  have "ms ! (x mod length ms) = ms ! i \<longleftrightarrow> x mod length ms = i" for x
    using assms ne by (simp add: nth_eq_iff_index_eq)
  then show ?thesis
    using ne count_mod [OF assms(2), of "length (flatten tps)"]
    by (simp add: round_robin_assign_def Let_def at_pushes)
qed

section \<open>Range\<close>

lemma range_member_pushes:
  "range_member ms t base extra r i =
    foldl (\<lambda>r p. push_back r (ms ! i) (TopicPartition t (of_nat (i * base + min i extra + p)))) r [0..<base + (if i < extra then 1 else 0)]"
  by (simp add: range_member_def Let_def)

lemma mset_range_member:
  "map (\<lambda>p. TopicPartition t (of_nat (s + p))) [0..<c] = map (\<lambda>p. TopicPartition t (of_nat p)) [s..<s + c]"
  by (induction c) simp_all

lemma assigned_range_members:
  assumes d: "distinct ms"
  shows "k \<le> length ms \<Longrightarrow> assigned ms (foldl (range_member ms t base extra) r [0..<k]) =
    assigned ms r + mset (map (\<lambda>p. TopicPartition t (of_nat p)) [0..<k * base + min k extra])"
proof (induction k)
  case (Suc k)
  let ?s = "k * base + min k extra" and ?c = "base + (if k < extra then 1 else 0)"
  have e: "Suc k * base + min (Suc k) extra = ?s + ?c" by simp
  let ?f = "\<lambda>p. TopicPartition t (of_nat p)"
  have "assigned ms (range_member ms t base extra (foldl (range_member ms t base extra) r [0..<k]) k) =
      assigned ms (foldl (range_member ms t base extra) r [0..<k]) + mset (map (\<lambda>p. ?f (?s + p)) [0..<?c])"
    unfolding range_member_pushes [of ms t base extra _ k] by (rule assigned_pushes [OF d]) (use Suc.prems in simp)
  also have "\<dots> = assigned ms r + (mset (map ?f [0..<?s]) + mset (map ?f [?s..<?s + ?c]))"
    unfolding mset_range_member using Suc by (simp only: add.assoc Suc_leD)
  also have "\<dots> = assigned ms r + mset (map ?f [0..<?s + ?c])"
    using upt_add_eq_append [of 0 ?s ?c] by (simp only: map_append mset_append)
  finally show ?case unfolding e by simp
qed simp

lemma assigned_range_topic:
  assumes "distinct ms" "ms \<noteq> []"
  shows "assigned ms (range_topic ms r (t, n)) = assigned ms r + mset (map (\<lambda>p. TopicPartition t (of_nat p)) [0..<unat n])"
proof -
  have "unat n mod length ms < length ms" using assms(2) by simp
  then have "length ms * (unat n div length ms) + min (length ms) (unat n mod length ms) = unat n"
    by (simp add: min_absorb2)
  then show ?thesis using assigned_range_members [OF assms(1) order_refl] by (simp add: range_topic_def Let_def)
qed

interpretation range: assignor range_assign
proof
  fix ms :: "string list" and tps assume d: "distinct ms" and ne: "ms \<noteq> []"
  have "assigned ms (foldl (range_topic ms) r tps) = assigned ms r + mset (flatten tps)" for r
  proof (induction tps arbitrary: r)
    case (Cons tp tps)
    obtain t n where "tp = (t, n)" by (cases tp)
    then show ?case using Cons assigned_range_topic [OF d ne, of r t n] by (simp add: flatten_def)
  qed (simp add: flatten_def)
  then show "assigned ms (range_assign ms tps) = mset (flatten tps)"
    using ne by (simp add: range_assign_def assigned_def)
qed

text \<open>How many partitions of one topic a member gets.\<close>

definition topic_share :: "assignment \<Rightarrow> string \<Rightarrow> string \<Rightarrow> nat" where
  "topic_share r m t = length (filter (\<lambda>tp. t_topic tp = t) (at r m))"

lemma topic_share_members:
  assumes "distinct ms" "i < length ms"
  shows "k \<le> length ms \<Longrightarrow> topic_share (foldl (range_member ms t' base extra) r [0..<k]) (ms ! i) t =
    topic_share r (ms ! i) t + (if i < k \<and> t' = t then base + (if i < extra then 1 else 0) else 0)"
proof (induction k)
  case (Suc k)
  have "ms ! k = ms ! i \<longleftrightarrow> k = i" using Suc.prems assms by (simp add: nth_eq_iff_index_eq)
  then show ?case using Suc
    by (auto simp: topic_share_def range_member_pushes at_pushes filter_map o_def less_Suc_eq)
qed simp

lemma topic_share_range:
  assumes "distinct ms" "i < length ms" "distinct (map fst tps)"
  shows "topic_share (foldl (range_topic ms) r tps) (ms ! i) t = topic_share r (ms ! i) t +
    (case map_of tps t of None \<Rightarrow> 0 | Some n \<Rightarrow> unat n div length ms + (if i < unat n mod length ms then 1 else 0))"
  using assms(3)
proof (induction tps arbitrary: r)
  case (Cons tp tps)
  obtain t' n where tp: "tp = (t', n)" by (cases tp)
  have "topic_share (range_topic ms r tp) (ms ! i) t = topic_share r (ms ! i) t +
      (if t' = t then unat n div length ms + (if i < unat n mod length ms then 1 else 0) else 0)"
    using topic_share_members [OF assms(1,2) order_refl] assms(2) by (simp add: range_topic_def Let_def tp)
  moreover have "map_of tps t = None" if "t' = t" using Cons.prems that tp by (simp add: map_of_eq_None_iff)
  ultimately show ?case using Cons tp by auto
qed simp

section \<open>Properties\<close>

text \<open>
  C12. Both assignors hand out every partition exactly once: for distinct topics and a non-empty
  list of distinct members, each partition of each topic has exactly one owner, counted with
  repetitions, and no member gets anything else.
\<close>

theorem assignors_complete_and_exclusive:
  assumes "distinct ms" "ms \<noteq> []" "distinct (map fst tps)" "assign = range_assign \<or> assign = round_robin_assign"
  shows "(\<forall>(t, n) \<in> set tps. \<forall>p < unat n. (\<Sum>m \<leftarrow> ms. count_list (at (assign ms tps) m) (TopicPartition t (of_nat p))) = 1) \<and>
    (\<forall>m \<in> set ms. \<forall>tp \<in> set (at (assign ms tps) m). \<exists>n. (t_topic tp, n) \<in> set tps \<and> unat (t_partition tp) < unat n)"
proof -
  have o: "(\<Sum>m \<leftarrow> ms. count_list (at (assign ms tps) m) tp) = count_list (flatten tps) tp" for tp
    using assms(4) round_robin.owners [OF assms(1,2)] range.owners [OF assms(1,2)] by metis
  have l: "tp \<in> set (flatten tps)" if "m \<in> set ms" "tp \<in> set (at (assign ms tps) m)" for m tp
    using assms(4) that round_robin.only_listed [OF assms(1)] range.only_listed [OF assms(1)] by metis
  show ?thesis
  proof (intro conjI ballI)
    fix tp assume "tp \<in> set tps"
    then show "case tp of (t, n) \<Rightarrow> \<forall>p < unat n. (\<Sum>m \<leftarrow> ms. count_list (at (assign ms tps) m) (TopicPartition t (of_nat p))) = 1"
      unfolding o using flatten_once [OF assms(3), of "fst tp" "snd tp"] by (auto simp: case_prod_beta)
  next
    fix m tp assume "m \<in> set ms" "tp \<in> set (at (assign ms tps) m)"
    then show "\<exists>n. (t_topic tp, n) \<in> set tps \<and> unat (t_partition tp) < unat n" using flatten_mem l by blast
  qed
qed

theorem assignors_complete_and_exclusive_witness:
  "(\<Sum>m \<leftarrow> [''x'', ''y'']. count_list (at (range_assign [''x'', ''y''] [(''a'', 3 :: u16), (''b'', 1 :: u16)]) m)
     (TopicPartition ''a'' 2)) = 1"
proof -
  have "\<forall>(t, n) \<in> set [(''a'', 3 :: u16), (''b'', 1 :: u16)]. \<forall>p < unat n.
      (\<Sum>m \<leftarrow> [''x'', ''y'']. count_list (at (range_assign [''x'', ''y''] [(''a'', 3 :: u16), (''b'', 1 :: u16)]) m)
        (TopicPartition t (of_nat p))) = 1"
    by (rule assignors_complete_and_exclusive [THEN conjunct1]) simp_all
  then have "\<forall>p < unat (3 :: u16).
      (\<Sum>m \<leftarrow> [''x'', ''y'']. count_list (at (range_assign [''x'', ''y''] [(''a'', 3 :: u16), (''b'', 1 :: u16)]) m)
        (TopicPartition ''a'' (of_nat p))) = 1"
    by (simp only: list.set ball_simps prod.case)
       (rule conjunct1)
  from this [rule_format, of 2] show ?thesis by simp
qed

text \<open>
  The assignments are balanced: round robin gives every member the same number of
  partitions up to one, range does so for every single topic, members earlier in the sorted
  order getting the extra ones.
\<close>

lemma assignments_balanced:
  assumes "distinct ms" "i < length ms" "distinct (map fst tps)"
  shows "length (at (round_robin_assign ms tps) (ms ! i)) =
      length (flatten tps) div length ms + (if i < length (flatten tps) mod length ms then 1 else 0) \<and>
    (\<forall>(t, n) \<in> set tps. topic_share (range_assign ms tps) (ms ! i) t = unat n div length ms + (if i < unat n mod length ms then 1 else 0))"
proof -
  have "ms \<noteq> []" using assms(2) by auto
  then have "range_assign ms tps = foldl (range_topic ms) (no_assignment ms) tps" by (simp add: range_assign_def)
  moreover have "topic_share (no_assignment ms) m t = 0" for m t by (simp add: topic_share_def)
  moreover have "map_of tps t = Some n" if "(t, n) \<in> set tps" for t n using that assms(3) by simp
  ultimately show ?thesis
    using length_round_robin [OF assms(1,2), of tps] topic_share_range [OF assms, of "no_assignment ms"] by auto
qed

end
