(* ===== verification/GroupCoordinator.thy ===== *)
theory GroupCoordinator
  imports OffsetStore Assignor
begin

text \<open>
  \<^verbatim>\<open>src/src/GroupCoordinator.cpp\<close>: consumer groups. A group has members with a heartbeat time and
  an assignment, a generation, and the topics and strategy its first member chose. Every call
  takes the group's mutex and is one atomic step. The clock is a parameter, in nanoseconds; the
  random part of a member id is one too. \<^verbatim>\<open>m_topic_mgr\<close> and \<^verbatim>\<open>m_offset_store\<close> are passed in
  and returned where a call changes them.
\<close>

section \<open>State\<close>

datatype GroupState = Empty | Stable

record CoordinatorConfig =
  cc_min_session_timeout_ms :: u32
  cc_max_session_timeout_ms :: u32
  cc_max_members_per_group :: nat
  cc_max_groups :: nat

definition default_CoordinatorConfig :: CoordinatorConfig where
  "default_CoordinatorConfig =
     \<lparr> cc_min_session_timeout_ms = 1000, cc_max_session_timeout_ms = 60000, cc_max_members_per_group = 64, cc_max_groups = 1024 \<rparr>"

record MemberMetadata =
  mm_member_id :: string
  mm_session_timeout_ms :: u32
  mm_last_heartbeat :: int
  mm_assignment :: "TopicPartition list"

record Group =
  g_group_id :: string
  g_generation :: u32
  g_strategy :: AssignorStrategy
  g_subscribed_topics :: "string list"
  g_state :: GroupState
  g_members :: "(string \<times> MemberMetadata) list"

record GroupCoordinator =
  gc_config :: CoordinatorConfig
  gc_member_counter :: u64
  gc_groups :: "(string \<times> Group) list"

definition new_GroupCoordinator :: "CoordinatorConfig \<Rightarrow> GroupCoordinator" where
  "new_GroupCoordinator config = \<lparr> gc_config = config, gc_member_counter = 1, gc_groups = [] \<rparr>"

record JoinResult =
  jr_status :: Status
  jr_error_code :: u16
  jr_member_id :: string
  jr_generation :: u32
  jr_heartbeat_interval_ms :: u32
  jr_assignment :: "TopicPartition list"

definition join_error :: "Status \<Rightarrow> u16 \<Rightarrow> JoinResult" where
  "join_error st err = \<lparr> jr_status = st, jr_error_code = err, jr_member_id = [], jr_generation = 0,
     jr_heartbeat_interval_ms = 0, jr_assignment = [] \<rparr>"

text \<open>\<^verbatim>\<open>HeartbeatResult\<close>, \<^verbatim>\<open>LeaveResult\<close> and \<^verbatim>\<open>CommitResult\<close> are a status and an error code.\<close>

type_synonym group_result = "Status \<times> u16"

record OffsetCommitRequestEntry =
  ocr_topic :: string
  ocr_partition :: u16
  ocr_offset :: u64

record MemberDescription =
  mdn_member_id :: string
  mdn_session_timeout_ms :: u32
  mdn_ms_since_heartbeat :: u32
  mdn_assignment :: "TopicPartition list"

record GroupDescription =
  gd_status :: Status
  gd_error_code :: u16
  gd_group_id :: string
  gd_generation :: u32
  gd_state :: string
  gd_strategy :: u8
  gd_members :: "MemberDescription list"

section \<open>Names\<close>

definition validate_group_id :: "string \<Rightarrow> bool" where
  "validate_group_id group_id \<longleftrightarrow>
     \<not> (group_id = [] \<or> length group_id > 64) \<and> \<not> is_reserved group_id \<and>
     \<not> (hd group_id = CHR ''.'' \<or> last group_id = CHR ''.'') \<and>
     (\<forall>c \<in> set group_id. is_alnum c \<or> c = CHR ''.'' \<or> c = CHR ''_'' \<or> c = CHR ''-'')"

text \<open>\<^verbatim>\<open>snprintf\<close> with \<^verbatim>\<open>"%s-%08llu-%04x"\<close> into 128 bytes.\<close>

definition hex_digit :: "nat \<Rightarrow> char" where
  "hex_digit n = (if n < 10 then char_of (48 + n) else char_of (87 + n))"

definition hex4 :: "u16 \<Rightarrow> string" where
  "hex4 v = map (\<lambda>k. hex_digit (unat v div 16 ^ k mod 16)) [3, 2, 1, 0]"

definition pad0 :: "nat \<Rightarrow> string \<Rightarrow> string" where
  "pad0 n s = replicate (n - length s) CHR ''0'' @ s"

definition generate_member_id :: "GroupCoordinator \<Rightarrow> u16 \<Rightarrow> string \<Rightarrow> string \<times> GroupCoordinator" where
  "generate_member_id gc rand_val group_id =
     (take 127 (group_id @ ''-'' @ pad0 8 (to_string (unat (gc_member_counter gc))) @ ''-'' @ hex4 rand_val),
      gc\<lparr> gc_member_counter := gc_member_counter gc + 1 \<rparr>)"

section \<open>Rebalancing\<close>

definition topic_counts :: "TopicManager \<Rightarrow> string list \<Rightarrow> (string \<times> u16) list" where
  "topic_counts tm topics =
     List.map_filter (\<lambda>name. map_option (\<lambda>t. (name, ucast (tc_num_partitions t))) (get_topic tm name)) topics"

definition run_assignor :: "AssignorStrategy \<Rightarrow> string list \<Rightarrow> (string \<times> u16) list \<Rightarrow> assignment" where
  "run_assignor strategy = (if strategy = Range then range_assign else round_robin_assign)"

definition rebalance_unlocked :: "TopicManager \<Rightarrow> Group \<Rightarrow> Group" where
  "rebalance_unlocked tm grp =
     (if g_members grp = [] then grp\<lparr> g_state := Empty \<rparr>
      else
        (let sorted_members = sort (map fst (g_members grp));
             topic_partitions = topic_counts tm (g_subscribed_topics grp);
             assignments = run_assignor (g_strategy grp) sorted_members topic_partitions
         in grp\<lparr> g_members := map (\<lambda>(m, md). (m, md\<lparr> mm_assignment := at assignments m \<rparr>)) (g_members grp), g_state := Stable \<rparr>))"

section \<open>Joining\<close>

definition put_group :: "GroupCoordinator \<Rightarrow> string \<Rightarrow> Group \<Rightarrow> GroupCoordinator" where
  "put_group gc group_id g = gc\<lparr> gc_groups := AList.update group_id g (gc_groups gc) \<rparr>"

text \<open>The first topic that is reserved or unknown.\<close>

fun check_topics :: "TopicManager \<Rightarrow> string list \<Rightarrow> (Status \<times> u16) option" where
  "check_topics tm [] = None"
| "check_topics tm (t # ts) =
     (if is_reserved t then Some (Status InvalidArgument (''Cannot subscribe to reserved topic: '' @ t), INVALID_TOPIC_NAME)
      else if get_topic tm t = None then Some (Status NotFound (''Subscribed topic not found: '' @ t), UNKNOWN_TOPIC)
      else check_topics tm ts)"

definition strategy_of :: "u8 \<Rightarrow> AssignorStrategy" where
  "strategy_of s = (if s = 0 then Range else RoundRobin)"

definition new_group :: "string \<Rightarrow> AssignorStrategy \<Rightarrow> string list \<Rightarrow> Group" where
  "new_group group_id strategy topics = \<lparr> g_group_id = group_id, g_generation = 0, g_strategy = strategy,
     g_subscribed_topics = topics, g_state = Empty, g_members = [] \<rparr>"

text \<open>The part of \<^verbatim>\<open>join\<close> under the group's mutex.\<close>

definition join_group ::
  "TopicManager \<Rightarrow> int \<Rightarrow> u16 \<Rightarrow> string \<Rightarrow> string \<Rightarrow> u32 \<Rightarrow> string list \<Rightarrow> AssignorStrategy \<Rightarrow> Group \<Rightarrow> GroupCoordinator \<Rightarrow>
    JoinResult \<times> GroupCoordinator" where
  "join_group tm now rand_val group_id member_id session_timeout_ms topics strategy grp gc =
     (if g_members grp \<noteq> [] \<and> g_strategy grp \<noteq> strategy then
        (join_error (Status InvalidArgument ''Strategy mismatch for group'') INVALID_ARGUMENT, gc)
      else if g_members grp \<noteq> [] \<and> g_subscribed_topics grp \<noteq> topics then
        (join_error (Status InvalidArgument ''Topic subscription mismatch for group'') INVALID_ARGUMENT, gc)
      else
        (let grp1 = (if g_members grp = [] then grp\<lparr> g_strategy := strategy, g_subscribed_topics := topics \<rparr> else grp);
             gc1 = put_group gc group_id grp1
         in if member_id = [] then
              if length (g_members grp1) \<ge> cc_max_members_per_group (gc_config gc) then
                (join_error (Status InvalidArgument ''Maximum members limit reached for group'') INVALID_ARGUMENT, gc1)
              else
                (let (new_id, gc2) = generate_member_id gc1 rand_val group_id;
                     mem = \<lparr> mm_member_id = new_id, mm_session_timeout_ms = session_timeout_ms, mm_last_heartbeat = now, mm_assignment = [] \<rparr>;
                     grp2 = rebalance_unlocked tm (grp1\<lparr> g_members := AList.update new_id mem (g_members grp1),
                       g_generation := g_generation grp1 + 1 \<rparr>)
                 in (\<lparr> jr_status = Status_OK, jr_error_code = 0, jr_member_id = new_id, jr_generation = g_generation grp2,
                       jr_heartbeat_interval_ms = session_timeout_ms div 3,
                       jr_assignment = (case map_of (g_members grp2) new_id of None \<Rightarrow> [] | Some md \<Rightarrow> mm_assignment md) \<rparr>,
                     put_group gc2 group_id grp2))
            else
              (case map_of (g_members grp1) member_id of
                 None \<Rightarrow> (join_error (Status NotFound ''Unknown member ID in group'') UNKNOWN_GROUP_OR_MEMBER, gc1)
               | Some md \<Rightarrow>
                   (\<lparr> jr_status = Status_OK, jr_error_code = 0, jr_member_id = member_id, jr_generation = g_generation grp1,
                      jr_heartbeat_interval_ms = session_timeout_ms div 3, jr_assignment = mm_assignment md \<rparr>,
                    put_group gc1 group_id (grp1\<lparr> g_members := AList.update member_id
                      (md\<lparr> mm_last_heartbeat := now, mm_session_timeout_ms := session_timeout_ms \<rparr>) (g_members grp1) \<rparr>)))))"

definition join ::
  "TopicManager \<Rightarrow> int \<Rightarrow> u16 \<Rightarrow> string \<Rightarrow> string \<Rightarrow> u32 \<Rightarrow> string list \<Rightarrow> u8 \<Rightarrow> GroupCoordinator \<Rightarrow> JoinResult \<times> GroupCoordinator" where
  "join tm now rand_val group_id member_id session_timeout_ms topics strategy gc =
     (if \<not> validate_group_id group_id then (join_error (Status InvalidArgument ''Invalid group ID'') INVALID_ARGUMENT, gc)
      else if topics = [] then (join_error (Status InvalidArgument ''Subscribed topics list cannot be empty'') INVALID_ARGUMENT, gc)
      else if session_timeout_ms < cc_min_session_timeout_ms (gc_config gc) \<or> session_timeout_ms > cc_max_session_timeout_ms (gc_config gc) then
        (join_error (Status InvalidArgument ''Session timeout out of bounds'') INVALID_ARGUMENT, gc)
      else if strategy > 1 then (join_error (Status InvalidArgument ''Invalid assignment strategy'') INVALID_ARGUMENT, gc)
      else case check_topics tm topics of Some (st, err) \<Rightarrow> (join_error st err, gc)
      | None \<Rightarrow>
         (case map_of (gc_groups gc) group_id of
            Some grp \<Rightarrow> join_group tm now rand_val group_id member_id session_timeout_ms topics (strategy_of strategy) grp gc
          | None \<Rightarrow>
              if length (gc_groups gc) \<ge> cc_max_groups (gc_config gc) then
                (join_error (Status InvalidArgument ''Maximum groups limit reached'') INVALID_ARGUMENT, gc)
              else
                (let grp = new_group group_id (strategy_of strategy) topics
                 in join_group tm now rand_val group_id member_id session_timeout_ms topics (strategy_of strategy) grp
                      (put_group gc group_id grp))))"

section \<open>Members\<close>

definition unknown_group :: group_result where
  "unknown_group = (Status NotFound ''Unknown group'', UNKNOWN_GROUP_OR_MEMBER)"

definition unknown_member :: group_result where
  "unknown_member = (Status NotFound ''Unknown member'', UNKNOWN_GROUP_OR_MEMBER)"

definition heartbeat :: "int \<Rightarrow> string \<Rightarrow> string \<Rightarrow> u32 \<Rightarrow> GroupCoordinator \<Rightarrow> group_result \<times> GroupCoordinator" where
  "heartbeat now group_id member_id generation gc =
     (case map_of (gc_groups gc) group_id of None \<Rightarrow> (unknown_group, gc)
      | Some grp \<Rightarrow>
         (case map_of (g_members grp) member_id of None \<Rightarrow> (unknown_member, gc)
          | Some md \<Rightarrow>
             if generation \<noteq> g_generation grp then ((Status InvalidArgument ''Illegal generation'', ILLEGAL_GENERATION), gc)
             else ((Status_OK, 0), put_group gc group_id
                    (grp\<lparr> g_members := AList.update member_id (md\<lparr> mm_last_heartbeat := now \<rparr>) (g_members grp) \<rparr>))))"

text \<open>After members were removed: a new generation, and the rest is rebalanced.\<close>

definition after_removal :: "TopicManager \<Rightarrow> Group \<Rightarrow> Group" where
  "after_removal tm grp =
     (let grp1 = grp\<lparr> g_generation := g_generation grp + 1 \<rparr>
      in if g_members grp1 = [] then grp1\<lparr> g_state := Empty \<rparr> else rebalance_unlocked tm grp1)"

definition leave :: "TopicManager \<Rightarrow> string \<Rightarrow> string \<Rightarrow> GroupCoordinator \<Rightarrow> group_result \<times> GroupCoordinator" where
  "leave tm group_id member_id gc =
     (case map_of (gc_groups gc) group_id of None \<Rightarrow> (unknown_group, gc)
      | Some grp \<Rightarrow>
          if map_of (g_members grp) member_id = None then (unknown_member, gc)
          else ((Status_OK, 0), put_group gc group_id
                 (after_removal tm (grp\<lparr> g_members := AList.delete member_id (g_members grp) \<rparr>))))"

text \<open>\<^verbatim>\<open>duration_cast<milliseconds>\<close>, which truncates towards zero.\<close>

definition duration_ms :: "int \<Rightarrow> int" where
  "duration_ms d = (if d \<ge> 0 then d div 1000000 else - ((- d) div 1000000))"

definition is_expired :: "int \<Rightarrow> MemberMetadata \<Rightarrow> bool" where
  "is_expired now md \<longleftrightarrow> duration_ms (now - mm_last_heartbeat md) > int (unat (mm_session_timeout_ms md))"

definition expire_group :: "TopicManager \<Rightarrow> int \<Rightarrow> Group \<Rightarrow> Group \<times> nat" where
  "expire_group tm now grp =
     (let expired_ids = map fst (filter (\<lambda>(m, md). is_expired now md) (g_members grp))
      in if expired_ids = [] then (grp, 0)
         else (after_removal tm (grp\<lparr> g_members := foldl (\<lambda>ms i. AList.delete i ms) (g_members grp) expired_ids \<rparr>), length expired_ids))"

fun expire_groups :: "TopicManager \<Rightarrow> int \<Rightarrow> (string \<times> Group) list \<Rightarrow> (string \<times> Group) list \<times> nat" where
  "expire_groups tm now [] = ([], 0)"
| "expire_groups tm now ((gid, grp) # gs) =
     (let (grp1, n) = expire_group tm now grp; (gs1, k) = expire_groups tm now gs in ((gid, grp1) # gs1, n + k))"

definition expire_members :: "TopicManager \<Rightarrow> int \<Rightarrow> GroupCoordinator \<Rightarrow> nat \<times> GroupCoordinator" where
  "expire_members tm now gc = (let (gs, n) = expire_groups tm now (gc_groups gc) in (n, gc\<lparr> gc_groups := gs \<rparr>))"

section \<open>Offsets\<close>

fun check_entries :: "TopicManager \<Rightarrow> OffsetCommitRequestEntry list \<Rightarrow> group_result option" where
  "check_entries tm [] = None"
| "check_entries tm (e # es) =
     (if is_reserved (ocr_topic e) then
        Some (Status InvalidArgument (''Cannot commit offsets for reserved topic: '' @ ocr_topic e), INVALID_TOPIC_NAME)
      else case get_topic tm (ocr_topic e) of
          None \<Rightarrow> Some (Status NotFound (''Topic not found: '' @ ocr_topic e), UNKNOWN_TOPIC)
        | Some t \<Rightarrow>
            if get_partition t (ucast (ocr_partition e)) = None then
              Some (Status InvalidArgument (''Invalid partition: '' @ to_string (unat (ocr_partition e))), INVALID_PARTITION)
            else check_entries tm es)"

fun check_assigned :: "string \<Rightarrow> TopicPartition list \<Rightarrow> OffsetCommitRequestEntry list \<Rightarrow> group_result option" where
  "check_assigned member_id tps [] = None"
| "check_assigned member_id tps (e # es) =
     (if \<exists>tp \<in> set tps. t_topic tp = ocr_topic e \<and> t_partition tp = ocr_partition e then check_assigned member_id tps es
      else Some (Status InvalidArgument (''Partition '' @ ocr_topic e @ '':'' @ to_string (unat (ocr_partition e)) @
                   '' is not assigned to member '' @ member_id), PARTITION_NOT_ASSIGNED))"

text \<open>\<open>None\<close> outside: a null pointer is followed.\<close>

fun check_bounds :: "TopicManager \<Rightarrow> OffsetCommitRequestEntry list \<Rightarrow> group_result option option" where
  "check_bounds tm [] = Some None"
| "check_bounds tm (e # es) = do {
     t \<leftarrow> get_topic tm (ocr_topic e);
     P \<leftarrow> get_partition t (ucast (ocr_partition e));
     if ocr_offset e > p_next_offset P then
       Some (Some (Status OffsetOutOfRange (''Commit offset ('' @ to_string (unat (ocr_offset e)) @ '') exceeds high watermark ('' @
         to_string (unat (p_next_offset P)) @ '')''), OFFSET_OUT_OF_RANGE))
     else check_bounds tm es
   }"

text \<open>Whether the caller may commit: the checks on group, member, generation and assignment.\<close>

definition check_member ::
  "GroupCoordinator \<Rightarrow> string \<Rightarrow> string \<Rightarrow> u32 \<Rightarrow> OffsetCommitRequestEntry list \<Rightarrow> group_result option" where
  "check_member gc group_id member_id generation entries =
     (let grp = map_of (gc_groups gc) group_id
      in if member_id = [] \<and> generation = 0xFFFFFFFF then
           (case grp of None \<Rightarrow> None
            | Some g \<Rightarrow> if g_members g \<noteq> [] then
                Some (Status InvalidArgument ''Standalone commit rejected: group has active members'', ILLEGAL_GENERATION) else None)
         else (case grp of None \<Rightarrow> Some (Status NotFound (''Unknown group: '' @ group_id), UNKNOWN_GROUP_OR_MEMBER)
           | Some g \<Rightarrow>
              (case map_of (g_members g) member_id of
                 None \<Rightarrow> Some (Status NotFound (''Unknown member: '' @ member_id), UNKNOWN_GROUP_OR_MEMBER)
               | Some md \<Rightarrow>
                   if generation \<noteq> g_generation g then
                     Some (Status InvalidArgument (''Illegal generation (expected '' @ to_string (unat (g_generation g)) @ '', got '' @
                       to_string (unat generation) @ '')''), ILLEGAL_GENERATION)
                   else check_assigned member_id (mm_assignment md) entries)))"

definition commit ::
  "os \<Rightarrow> i64 \<Rightarrow> int \<Rightarrow> filesys \<Rightarrow> TopicManager \<Rightarrow> OffsetStore \<Rightarrow> GroupCoordinator \<Rightarrow> string \<Rightarrow> string \<Rightarrow> u32 \<Rightarrow> OffsetCommitRequestEntry list \<Rightarrow>
    (group_result \<times> OffsetStore \<times> TopicManager \<times> filesys) option" where
  "commit w now_ms now fs tm s gc group_id member_id generation entries =
     (case check_entries tm entries of Some r \<Rightarrow> Some (r, s, tm, fs)
      | None \<Rightarrow>
        (case check_member gc group_id member_id generation entries of Some r \<Rightarrow> Some (r, s, tm, fs)
         | None \<Rightarrow> do {
             b \<leftarrow> check_bounds tm entries;
             case b of Some r \<Rightarrow> Some (r, s, tm, fs)
             | None \<Rightarrow> do {
                 let items = map (\<lambda>e. \<lparr> oci_topic = ocr_topic e, oci_partition = ocr_partition e, oci_offset = ocr_offset e,
                   oci_timestamp_ms = of_int (duration_ms now) \<rparr>) entries;
                 (st, s1, tm1, fs1) \<leftarrow> offsets_commit w now_ms fs tm s group_id items;
                 Some (if \<not> ok st then (st, INTERNAL_ERROR) else (Status_OK, 0), s1, tm1, fs1)
               }
           }))"

definition fetch_offsets :: "OffsetStore \<Rightarrow> string \<Rightarrow> (string \<times> u16) list \<Rightarrow> group_result \<times> i64 list" where
  "fetch_offsets s group_id queries = ((Status_OK, 0), map (\<lambda>(t, p). offsets_get s group_id t p) queries)"

section \<open>Inspection\<close>

definition describe_member :: "int \<Rightarrow> string \<times> MemberMetadata \<Rightarrow> MemberDescription" where
  "describe_member now m =
     (let elapsed = duration_ms (now - mm_last_heartbeat (snd m))
      in \<lparr> mdn_member_id = fst m, mdn_session_timeout_ms = mm_session_timeout_ms (snd m),
           mdn_ms_since_heartbeat = of_int (if elapsed \<ge> 0 then elapsed else 0), mdn_assignment = mm_assignment (snd m) \<rparr>)"

definition describe :: "int \<Rightarrow> string \<Rightarrow> GroupCoordinator \<Rightarrow> GroupDescription" where
  "describe now group_id gc =
     (case map_of (gc_groups gc) group_id of
        None \<Rightarrow> \<lparr> gd_status = Status NotFound (''Unknown group: '' @ group_id), gd_error_code = UNKNOWN_GROUP_OR_MEMBER,
                  gd_group_id = [], gd_generation = 0, gd_state = [], gd_strategy = 0, gd_members = [] \<rparr>
      | Some grp \<Rightarrow> \<lparr> gd_status = Status_OK, gd_error_code = 0, gd_group_id = g_group_id grp, gd_generation = g_generation grp,
                  gd_state = (if g_state grp = Empty then ''Empty'' else ''Stable''),
                  gd_strategy = (if g_strategy grp = Range then 0 else 1), gd_members = map (describe_member now) (g_members grp) \<rparr>)"

definition owner_count :: "Group \<Rightarrow> string \<Rightarrow> u16 \<Rightarrow> nat" where
  "owner_count grp name p =
     sum_list (map (\<lambda>(m, md). length (filter (\<lambda>tp. t_topic tp = name \<and> t_partition tp = p) (mm_assignment md))) (g_members grp))"

text \<open>The loop over the partitions of one topic. Its counter has 16 bits: with more than 65535
  partitions, all of them assigned once, it never ends.\<close>

definition check_topic_owners :: "TopicManager \<Rightarrow> Group \<Rightarrow> string \<Rightarrow> bool option" where
  "check_topic_owners tm grp name =
     (case get_topic tm name of None \<Rightarrow> Some False
      | Some t \<Rightarrow>
          (let num_parts = unat (tc_num_partitions t)
           in if \<exists>p \<in> set [0..<min num_parts 65536]. owner_count grp name (of_nat p) \<noteq> 1 then Some False
              else if num_parts > 65535 then None else Some True))"

fun check_owners :: "TopicManager \<Rightarrow> Group \<Rightarrow> string list \<Rightarrow> bool option" where
  "check_owners tm grp [] = Some True"
| "check_owners tm grp (t # ts) = do { b \<leftarrow> check_topic_owners tm grp t; if b then check_owners tm grp ts else Some False }"

definition check_known :: "TopicManager \<Rightarrow> Group \<Rightarrow> bool" where
  "check_known tm grp \<longleftrightarrow> (\<forall>(m, md) \<in> set (g_members grp). \<forall>tp \<in> set (mm_assignment md).
     (case get_topic tm (t_topic tp) of None \<Rightarrow> False | Some t \<Rightarrow> \<not> ucast (t_partition tp) \<ge> tc_num_partitions t))"

definition debug_check_invariants :: "TopicManager \<Rightarrow> string \<Rightarrow> GroupCoordinator \<Rightarrow> bool option" where
  "debug_check_invariants tm group_id gc =
     (case map_of (gc_groups gc) group_id of None \<Rightarrow> Some True
      | Some grp \<Rightarrow>
          if g_members grp = [] then Some (g_state grp = Empty)
          else do { b \<leftarrow> check_owners tm grp (g_subscribed_topics grp); Some (b \<and> check_known tm grp) })"

end
