(* ===== verification/MessageHandler.thy ===== *)
theory MessageHandler
  imports GroupCoordinator
begin

text \<open>
  \<^verbatim>\<open>src/src/MessageHandler.cpp\<close>: the request handlers. A handler decodes the body of a request
  frame, calls the topic manager or the group coordinator, and builds the reply frame. The
  objects the handler refers to are the state \<open>Broker\<close>; what a call reads from its surroundings
  (the operating system's answers, the two clocks, a random number) is the record \<open>Ambient\<close>.
  \<open>None\<close> is undefined behaviour or a loop that does not end. Log lines are left out.
\<close>

section \<open>State\<close>

record Broker =
  bk_fs :: filesys
  bk_topic_mgr :: TopicManager
  bk_offset_store :: OffsetStore
  bk_coordinator :: "GroupCoordinator option"

record Ambient =
  am_os :: os
  am_now_ms :: i64
  am_now :: int
  am_rand :: u16

definition map_status_to_error_code :: "Status \<Rightarrow> u16" where
  "map_status_to_error_code status =
     (case code status of
        NotFound \<Rightarrow> UNKNOWN_TOPIC
      | AlreadyExists \<Rightarrow> TOPIC_ALREADY_EXISTS
      | InvalidArgument \<Rightarrow> INVALID_ARGUMENT
      | Corrupt \<Rightarrow> CORRUPT_DATA
      | OffsetOutOfRange \<Rightarrow> OFFSET_OUT_OF_RANGE
      | RecordTooLarge \<Rightarrow> RECORD_TOO_LARGE
      | IoError \<Rightarrow> INTERNAL_ERROR
      | _ \<Rightarrow> INTERNAL_ERROR)"

text \<open>The aggregate \<^verbatim>\<open>Frame{ HEADER_SIZE + body.size(), type, request_id, body }\<close>.\<close>

definition reply_frame :: "u8 \<Rightarrow> u32 \<Rightarrow> bytes \<Rightarrow> Frame" where
  "reply_frame ty request_id body =
     \<lparr> fr_length = HEADER_SIZE + of_nat (length body), fr_type = ty, fr_request_id = request_id, fr_body = body \<rparr>"

definition quoted :: "string \<Rightarrow> string" where
  "quoted s = [CHR 0x27] @ s @ [CHR 0x27]"

definition error_reply :: "Frame \<Rightarrow> u16 \<Rightarrow> string \<Rightarrow> Frame" where
  "error_reply req err msg = create_error_frame (fr_request_id req) err msg"

definition reserved_error :: "Frame \<Rightarrow> Frame" where
  "reserved_error req = error_reply req INVALID_TOPIC_NAME (''Topic name starting with '' @ quoted ''__'' @ '' is reserved'')"

definition unknown_topic_error :: "Frame \<Rightarrow> string \<Rightarrow> Frame" where
  "unknown_topic_error req name = error_reply req UNKNOWN_TOPIC (''Topic '' @ quoted name @ '' not found'')"

definition status_error :: "Frame \<Rightarrow> Status \<Rightarrow> Frame" where
  "status_error req st = error_reply req (map_status_to_error_code st) (message st)"

section \<open>Topics\<close>

definition handle_create_topic :: "Ambient \<Rightarrow> Frame \<Rightarrow> Broker \<Rightarrow> (Frame \<times> Broker) option" where
  "handle_create_topic a req b =
     (case decode_CreateTopicRequest (make_BodyReader (fr_body req)) of
        None \<Rightarrow> Some (error_reply req MALFORMED_BODY ''Malformed CREATE_TOPIC body'', b)
      | Some m \<Rightarrow>
          if ct_partitions m = 0 then Some (error_reply req INVALID_ARGUMENT ''Partitions count must be > 0'', b)
          else if is_reserved (ct_topic m) then Some (reserved_error req, b)
          else case validate_topic_name (ct_topic m) of
              Some name_err \<Rightarrow> Some (error_reply req INVALID_TOPIC_NAME (''Invalid topic name: '' @ name_err), b)
            | None \<Rightarrow> do {
                let ret_ms = (if ct_has_retention m then ct_retention_ms m else 0);
                let ret_bytes = (if ct_has_retention m then ct_retention_bytes m else 0);
                (res, tm, fs) \<leftarrow> create_topic (am_os a) (am_now_ms a) (bk_fs b) (bk_topic_mgr b) (ct_topic m)
                   (ucast (ct_partitions m)) ret_ms ret_bytes;
                let b1 = b\<lparr> bk_fs := fs, bk_topic_mgr := tm \<rparr>;
                case res of Inl st \<Rightarrow> Some (status_error req st, b1)
                | Inr _ \<Rightarrow> Some (reply_frame CREATE_TOPIC_OK (fr_request_id req) [], b1)
              })"

definition handle_produce :: "Ambient \<Rightarrow> Frame \<Rightarrow> Broker \<Rightarrow> (Frame \<times> Broker) option" where
  "handle_produce a req b =
     (case decode_ProduceRequest (make_BodyReader (fr_body req)) of
        None \<Rightarrow> Some (error_reply req MALFORMED_BODY ''Malformed PRODUCE body'', b)
      | Some m \<Rightarrow>
          if is_reserved (pr_topic m) then Some (reserved_error req, b)
          else if pr_records m = [] then Some (error_reply req INVALID_ARGUMENT ''PRODUCE batch cannot be empty'', b)
          else case get_topic (bk_topic_mgr b) (pr_topic m) of
              None \<Rightarrow> Some (unknown_topic_error req (pr_topic m), b)
            | Some t \<Rightarrow> do {
                (res, chosen, t1, fs) \<leftarrow> produce_batch (am_os a) (am_now_ms a) (bk_fs b) t (pr_partition m) (pr_records m) 0;
                let b1 = b\<lparr> bk_fs := fs, bk_topic_mgr := put_topic (bk_topic_mgr b) (pr_topic m) t1 \<rparr>;
                case res of Inl st \<Rightarrow> Some (status_error req st, b1)
                | Inr base \<Rightarrow>
                    Some (reply_frame PRODUCE_OK (fr_request_id req)
                      (encode_ProduceResponse \<lparr> ps_partition = ucast chosen, ps_base_offset = base, ps_count = of_nat (length (pr_records m)) \<rparr> []), b1)
              })"

definition fetch_wire :: "Record \<Rightarrow> FetchRecordWire" where
  "fetch_wire r = \<lparr> frw_offset = r_offset r, frw_timestamp_ms = r_timestamp_ms r, frw_key = r_key r, frw_value = r_value r \<rparr>"

definition fetch_response :: "u64 \<Rightarrow> u64 \<Rightarrow> u64 \<Rightarrow> Record list \<Rightarrow> FetchResponse" where
  "fetch_response start_offset hw earliest recs =
     \<lparr> fs_next_offset = (if recs = [] then start_offset else r_offset (last recs) + 1), fs_high_watermark = hw,
       fs_earliest_offset = earliest, fs_record_count = of_nat (length recs), fs_records = map fetch_wire recs \<rparr>"

definition handle_fetch :: "Ambient \<Rightarrow> Frame \<Rightarrow> Broker \<Rightarrow> (Frame \<times> Broker) option" where
  "handle_fetch a req b =
     (case decode_FetchRequest (make_BodyReader (fr_body req)) of
        None \<Rightarrow> Some (error_reply req MALFORMED_BODY ''Malformed FETCH body'', b)
      | Some m \<Rightarrow>
          if is_reserved (fq_topic m) then Some (reserved_error req, b)
          else if fq_max_bytes m = 0 \<or> fq_max_messages m = 0 then
            Some (error_reply req INVALID_ARGUMENT ''max_bytes and max_messages must be > 0'', b)
          else case get_topic (bk_topic_mgr b) (fq_topic m) of
              None \<Rightarrow> Some (unknown_topic_error req (fq_topic m), b)
            | Some t \<Rightarrow>
                if ucast (fq_partition m) \<ge> tc_num_partitions t then
                  Some (error_reply req INVALID_PARTITION (''Partition '' @ to_string (unat (fq_partition m)) @ '' out of range''), b)
                else do {
                  P \<leftarrow> get_partition t (ucast (fq_partition m));
                  let hw = p_next_offset P;
                  let earliest = earliest_offset P;
                  let start = fq_start_offset m;
                  if start = hw then
                    Some (reply_frame FETCH_OK (fr_request_id req) (encode_FetchResponse (fetch_response hw hw earliest []) []), b)
                  else if start > hw \<or> start < earliest then
                    Some (error_reply req OFFSET_OUT_OF_RANGE (''Start offset '' @ to_string (unat start) @ '' out of valid range ['' @
                      to_string (unat earliest) @ '', '' @ to_string (unat hw) @ '')''), b)
                  else do {
                    rr \<leftarrow> part_read (am_os a) (bk_fs b) P start (unat (fq_max_messages m)) (unat (min (fq_max_bytes m) 1048500));
                    if \<not> ok (rr_status rr) then Some (status_error req (rr_status rr), b)
                    else Some (reply_frame FETCH_OK (fr_request_id req)
                           (encode_FetchResponse (fetch_response start hw earliest (rr_records rr)) []), b)
                  }
                })"

definition handle_list_topics :: "Frame \<Rightarrow> Broker \<Rightarrow> (Frame \<times> Broker) option" where
  "handle_list_topics req b =
     (case decode_ListTopicsRequest (make_BodyReader (fr_body req)) of
        None \<Rightarrow> Some (error_reply req MALFORMED_BODY ''Malformed LIST_TOPICS body'', b)
      | Some _ \<Rightarrow>
          (let infos = map (\<lambda>t. \<lparr> ti_name = tc_name t, ti_partitions = ucast (tc_num_partitions t) \<rparr>)
                 (filter (\<lambda>t. \<not> is_reserved (tc_name t)) (list_topics (bk_topic_mgr b)))
           in Some (reply_frame TOPICS (fr_request_id req)
                (encode_ListTopicsResponse \<lparr> ls_count = of_nat (length infos), ls_topics = infos \<rparr> []), b)))"

definition describe_partition :: "Partition \<Rightarrow> PartitionOffsetWire" where
  "describe_partition P = \<lparr> po_earliest = earliest_offset P, po_next_offset = p_next_offset P,
     po_segment_count = of_nat (length (p_segments P)) \<rparr>"

definition handle_describe_topic :: "Frame \<Rightarrow> Broker \<Rightarrow> (Frame \<times> Broker) option" where
  "handle_describe_topic req b =
     (case decode_DescribeTopicRequest (make_BodyReader (fr_body req)) of
        None \<Rightarrow> Some (error_reply req MALFORMED_BODY ''Malformed DESCRIBE_TOPIC body'', b)
      | Some m \<Rightarrow>
          if is_reserved (dq_topic m) then Some (reserved_error req, b)
          else case get_topic (bk_topic_mgr b) (dq_topic m) of
              None \<Rightarrow> Some (unknown_topic_error req (dq_topic m), b)
            | Some t \<Rightarrow>
                Some (reply_frame TOPIC_DESCRIPTION (fr_request_id req) (encode_DescribeTopicResponse
                  \<lparr> ds_name = tc_name t, ds_partitions = ucast (tc_num_partitions t),
                    ds_partition_offsets = map describe_partition (tc_partitions t),
                    ds_retention_ms = tc_retention_ms t, ds_retention_bytes = tc_retention_bytes t,
                    ds_degraded = (if topic_is_degraded t then 1 else 0) \<rparr> []), b))"

section \<open>Groups\<close>

definition no_coordinator :: "Frame \<Rightarrow> Frame" where
  "no_coordinator req = error_reply req INTERNAL_ERROR ''Coordinator unavailable''"

definition tp_wire :: "TopicPartition \<Rightarrow> TopicPartitionWire" where
  "tp_wire tp = \<lparr> tp_topic = t_topic tp, tp_partition = t_partition tp \<rparr>"

definition handle_join_group :: "Ambient \<Rightarrow> Frame \<Rightarrow> Broker \<Rightarrow> (Frame \<times> Broker) option" where
  "handle_join_group a req b =
     (case bk_coordinator b of None \<Rightarrow> Some (no_coordinator req, b)
      | Some gc \<Rightarrow>
        (case decode_JoinGroupRequest (make_BodyReader (fr_body req)) of
           None \<Rightarrow> Some (error_reply req MALFORMED_BODY ''Malformed JOIN_GROUP body'', b)
         | Some m \<Rightarrow>
             (let (res, gc1) = join (bk_topic_mgr b) (am_now a) (am_rand a) (jq_group_id m) (jq_member_id m)
                    (jq_session_timeout_ms m) (jq_topics m) (jq_strategy m) gc;
                  b1 = b\<lparr> bk_coordinator := Some gc1 \<rparr>
              in if jr_error_code res \<noteq> 0 then Some (error_reply req (jr_error_code res) (message (jr_status res)), b1)
                 else Some (reply_frame JOIN_GROUP_OK (fr_request_id req) (encode_JoinGroupResponse
                   \<lparr> js_member_id = jr_member_id res, js_generation = jr_generation res,
                     js_heartbeat_interval_ms = jr_heartbeat_interval_ms res, js_count = of_nat (length (jr_assignment res)),
                     js_assignments = map tp_wire (jr_assignment res) \<rparr> []), b1))))"

text \<open>The end of the handlers whose reply has no body.\<close>

definition plain_reply :: "Frame \<Rightarrow> u8 \<Rightarrow> group_result \<Rightarrow> Frame" where
  "plain_reply req ty res =
     (if snd res \<noteq> 0 then error_reply req (snd res) (message (fst res)) else reply_frame ty (fr_request_id req) [])"

definition handle_heartbeat :: "Ambient \<Rightarrow> Frame \<Rightarrow> Broker \<Rightarrow> (Frame \<times> Broker) option" where
  "handle_heartbeat a req b =
     (case bk_coordinator b of None \<Rightarrow> Some (no_coordinator req, b)
      | Some gc \<Rightarrow>
        (case decode_HeartbeatRequest (make_BodyReader (fr_body req)) of
           None \<Rightarrow> Some (error_reply req MALFORMED_BODY ''Malformed HEARTBEAT body'', b)
         | Some m \<Rightarrow>
             (let (res, gc1) = heartbeat (am_now a) (hq_group_id m) (hq_member_id m) (hq_generation m) gc
              in Some (plain_reply req HEARTBEAT_OK res, b\<lparr> bk_coordinator := Some gc1 \<rparr>))))"

definition handle_leave_group :: "Frame \<Rightarrow> Broker \<Rightarrow> (Frame \<times> Broker) option" where
  "handle_leave_group req b =
     (case bk_coordinator b of None \<Rightarrow> Some (no_coordinator req, b)
      | Some gc \<Rightarrow>
        (case decode_LeaveGroupRequest (make_BodyReader (fr_body req)) of
           None \<Rightarrow> Some (error_reply req MALFORMED_BODY ''Malformed LEAVE_GROUP body'', b)
         | Some m \<Rightarrow>
             (let (res, gc1) = leave (bk_topic_mgr b) (lq_group_id m) (lq_member_id m) gc
              in Some (plain_reply req LEAVE_GROUP_OK res, b\<lparr> bk_coordinator := Some gc1 \<rparr>))))"

definition commit_entry :: "CommitOffsetItemWire \<Rightarrow> OffsetCommitRequestEntry" where
  "commit_entry e = \<lparr> ocr_topic = ci_topic e, ocr_partition = ci_partition e, ocr_offset = ci_offset e \<rparr>"

definition handle_commit_offset :: "Ambient \<Rightarrow> Frame \<Rightarrow> Broker \<Rightarrow> (Frame \<times> Broker) option" where
  "handle_commit_offset a req b =
     (case bk_coordinator b of None \<Rightarrow> Some (no_coordinator req, b)
      | Some gc \<Rightarrow>
        (case decode_CommitOffsetRequest (make_BodyReader (fr_body req)) of
           None \<Rightarrow> Some (error_reply req MALFORMED_BODY ''Malformed COMMIT_OFFSET body'', b)
         | Some m \<Rightarrow> do {
             (res, s, tm, fs) \<leftarrow> commit (am_os a) (am_now_ms a) (am_now a) (bk_fs b) (bk_topic_mgr b) (bk_offset_store b) gc
                (cq_group_id m) (cq_member_id m) (cq_generation m) (map commit_entry (cq_entries m));
             Some (plain_reply req COMMIT_OK res, b\<lparr> bk_fs := fs, bk_topic_mgr := tm, bk_offset_store := s \<rparr>)
           }))"

definition handle_fetch_offset :: "Frame \<Rightarrow> Broker \<Rightarrow> (Frame \<times> Broker) option" where
  "handle_fetch_offset req b =
     (case bk_coordinator b of None \<Rightarrow> Some (no_coordinator req, b)
      | Some gc \<Rightarrow>
        (case decode_FetchOffsetRequest (make_BodyReader (fr_body req)) of
           None \<Rightarrow> Some (error_reply req MALFORMED_BODY ''Malformed FETCH_OFFSET body'', b)
         | Some m \<Rightarrow>
             (let queries = map (\<lambda>q. (tp_topic q, tp_partition q)) (oq_queries m);
                  (res, offsets) = fetch_offsets (bk_offset_store b) (oq_group_id m) queries
              in if snd res \<noteq> 0 then Some (error_reply req (snd res) (message (fst res)), b)
                 else Some (reply_frame OFFSETS (fr_request_id req) (encode_FetchOffsetResponse
                   \<lparr> os_count = of_nat (length queries),
                     os_offsets = map2 (\<lambda>q off. \<lparr> oe_topic = fst q, oe_partition = snd q, oe_offset = off \<rparr>) queries offsets \<rparr> []), b))))"

definition member_wire :: "MemberDescription \<Rightarrow> MemberDescriptionWire" where
  "member_wire m = \<lparr> md_member_id = mdn_member_id m, md_session_timeout_ms = mdn_session_timeout_ms m,
     md_ms_since_heartbeat = mdn_ms_since_heartbeat m, md_count = of_nat (length (mdn_assignment m)),
     md_assignment = map tp_wire (mdn_assignment m) \<rparr>"

definition handle_describe_group :: "Ambient \<Rightarrow> Frame \<Rightarrow> Broker \<Rightarrow> (Frame \<times> Broker) option" where
  "handle_describe_group a req b =
     (case bk_coordinator b of None \<Rightarrow> Some (no_coordinator req, b)
      | Some gc \<Rightarrow>
        (case decode_DescribeGroupRequest (make_BodyReader (fr_body req)) of
           None \<Rightarrow> Some (error_reply req MALFORMED_BODY ''Malformed DESCRIBE_GROUP body'', b)
         | Some m \<Rightarrow>
             (let d = describe (am_now a) (gq_group_id m) gc
              in if gd_error_code d \<noteq> 0 then Some (error_reply req (gd_error_code d) (message (gd_status d)), b)
                 else Some (reply_frame GROUP_DESCRIPTION (fr_request_id req) (encode_DescribeGroupResponse
                   \<lparr> gs_group_id = gd_group_id d, gs_generation = gd_generation d, gs_state = gd_state d,
                     gs_strategy = gd_strategy d, gs_member_count = of_nat (length (gd_members d)),
                     gs_members = map member_wire (gd_members d) \<rparr> []), b))))"

section \<open>Dispatch\<close>

definition handle_request :: "Ambient \<Rightarrow> Frame \<Rightarrow> Broker \<Rightarrow> (Frame \<times> Broker) option" where
  "handle_request a req b =
     (let ty = fr_type req
      in if ty = PING then Some (create_pong_frame (fr_request_id req), b)
         else if ty = ECHO then Some (create_echo_reply_frame (fr_request_id req) (fr_body req), b)
         else if ty = CREATE_TOPIC then handle_create_topic a req b
         else if ty = PRODUCE then handle_produce a req b
         else if ty = FETCH then handle_fetch a req b
         else if ty = LIST_TOPICS then handle_list_topics req b
         else if ty = DESCRIBE_TOPIC then handle_describe_topic req b
         else if ty = JOIN_GROUP then handle_join_group a req b
         else if ty = HEARTBEAT then handle_heartbeat a req b
         else if ty = LEAVE_GROUP then handle_leave_group req b
         else if ty = COMMIT_OFFSET then handle_commit_offset a req b
         else if ty = FETCH_OFFSET then handle_fetch_offset req b
         else if ty = DESCRIBE_GROUP then handle_describe_group a req b
         else Some (error_reply req UNKNOWN_TYPE (''Unknown message type: 0x'' @ to_string (unat ty)), b))"

end
