(* ===== verification/GroupLaws.thy ===== *)
theory GroupLaws
  imports GroupCoordinator
begin

text \<open>
  What the group coordinator maintains: distinct members with ids it issued itself, assignments
  that are those of the group's strategy for the present members, a state that tells empty groups
  from stable ones, and the configured limits. The invariant is preserved by every operation and
  by everything that happens to topics (which are never removed and keep their partition count).
\<close>

section \<open>Member ids\<close>

definition member_name :: "string \<Rightarrow> nat \<Rightarrow> u16 \<Rightarrow> string" where
  "member_name gid n r = gid @ ''-'' @ pad0 8 (to_string n) @ ''-'' @ hex4 r"

definition issued :: "string \<Rightarrow> u64 \<Rightarrow> string \<Rightarrow> bool" where
  "issued gid c i \<longleftrightarrow> (\<exists>n r. n < unat c \<and> i = member_name gid n r)"

lemma digits_val_zeros: "digits_val 0 (replicate k CHR ''0'' @ s) = digits_val 0 s"
  by (induction k) (simp_all add: digit_val_def)

lemma length_hex4 [simp]: "length (hex4 r) = 4"
  by (simp add: hex4_def)

lemma member_name_inj: "member_name gid n r = member_name gid n' r' \<Longrightarrow> n = n'"
proof -
  assume "member_name gid n r = member_name gid n' r'"
  then have "pad0 8 (to_string n) @ ''-'' @ hex4 r = pad0 8 (to_string n') @ ''-'' @ hex4 r'"
    by (simp add: member_name_def)
  then have "pad0 8 (to_string n) = pad0 8 (to_string n')"
    by (subst (asm) append_eq_append_conv) auto
  then have "digits_val 0 (pad0 8 (to_string n)) = digits_val 0 (pad0 8 (to_string n'))" by simp
  then show "n = n'" by (simp add: pad0_def digits_val_zeros digits_val_to_string)
qed

lemma length_to_string_u64: "length (to_string (unat (c :: u64))) \<le> 20"
  by (rule length_to_string_le) (rule less_trans [OF unat_u64_lt], simp_all)

lemma generate_member_id_eq:
  assumes "validate_group_id gid"
  shows "generate_member_id gc r gid = (member_name gid (unat (gc_member_counter gc)) r, gc\<lparr> gc_member_counter := gc_member_counter gc + 1 \<rparr>)"
proof -
  have "length gid \<le> 64" using assms by (simp add: validate_group_id_def)
  then have "length (member_name gid (unat (gc_member_counter gc)) r) \<le> 127"
    using length_to_string_u64 [of "gc_member_counter gc"] by (simp add: member_name_def pad0_def)
  then show ?thesis by (simp add: generate_member_id_def member_name_def)
qed

lemma fresh_not_issued: "issued gid c i \<Longrightarrow> i \<noteq> member_name gid (unat c) r"
  by (auto simp: issued_def dest: member_name_inj)

lemma issued_mono: "issued gid c i \<Longrightarrow> unat c \<le> unat c' \<Longrightarrow> issued gid c' i"
  unfolding issued_def by (elim exE conjE, intro exI conjI) (erule (1) less_le_trans, assumption)

section \<open>The invariant\<close>

definition fair_assignment :: "TopicManager \<Rightarrow> Group \<Rightarrow> string \<Rightarrow> TopicPartition list" where
  "fair_assignment tm g m = at (run_assignor (g_strategy g) (sort (map fst (g_members g))) (topic_counts tm (g_subscribed_topics g))) m"

definition member_ok :: "CoordinatorConfig \<Rightarrow> TopicManager \<Rightarrow> u64 \<Rightarrow> string \<Rightarrow> Group \<Rightarrow> string \<Rightarrow> MemberMetadata \<Rightarrow> bool" where
  "member_ok cfg tm c gid g m md \<longleftrightarrow> mm_member_id md = m \<and> issued gid c m \<and> mm_assignment md = fair_assignment tm g m \<and>
     cc_min_session_timeout_ms cfg \<le> mm_session_timeout_ms md \<and> mm_session_timeout_ms md \<le> cc_max_session_timeout_ms cfg"

definition group_inv :: "CoordinatorConfig \<Rightarrow> TopicManager \<Rightarrow> u64 \<Rightarrow> string \<Rightarrow> Group \<Rightarrow> bool" where
  "group_inv cfg tm c gid g \<longleftrightarrow>
     g_group_id g = gid \<and> validate_group_id gid \<and> distinct (map fst (g_members g)) \<and>
     (\<forall>(m, md) \<in> set (g_members g). member_ok cfg tm c gid g m md) \<and>
     (g_state g = Empty \<longleftrightarrow> g_members g = []) \<and> length (g_members g) \<le> cc_max_members_per_group cfg \<and>
     (\<forall>t \<in> set (g_subscribed_topics g). \<not> is_reserved t \<and> get_topic tm t \<noteq> None)"

definition coord_inv :: "TopicManager \<Rightarrow> GroupCoordinator \<Rightarrow> bool" where
  "coord_inv tm gc \<longleftrightarrow> distinct (map fst (gc_groups gc)) \<and> length (gc_groups gc) \<le> cc_max_groups (gc_config gc) \<and>
     (\<forall>(gid, g) \<in> set (gc_groups gc). group_inv (gc_config gc) tm (gc_member_counter gc) gid g)"

lemma coord_inv_new: "coord_inv tm (new_GroupCoordinator cfg)"
  by (simp add: coord_inv_def new_GroupCoordinator_def)

lemma coord_invD:
  "coord_inv tm gc \<Longrightarrow> map_of (gc_groups gc) gid = Some g \<Longrightarrow> group_inv (gc_config gc) tm (gc_member_counter gc) gid g"
  unfolding coord_inv_def by (auto dest: map_of_SomeD)

lemma group_invD:
  assumes "group_inv cfg tm c gid g"
  shows "g_group_id g = gid" "validate_group_id gid" "distinct (map fst (g_members g))"
    "map_of (g_members g) m = Some md \<Longrightarrow> member_ok cfg tm c gid g m md"
    "g_state g = Empty \<longleftrightarrow> g_members g = []" "length (g_members g) \<le> cc_max_members_per_group cfg"
    "t \<in> set (g_subscribed_topics g) \<Longrightarrow> \<not> is_reserved t \<and> get_topic tm t \<noteq> None"
  using assms by (auto simp: group_inv_def dest: map_of_SomeD)

lemma group_inv_counter: "group_inv cfg tm c gid g \<Longrightarrow> unat c \<le> unat c' \<Longrightarrow> group_inv cfg tm c' gid g"
  unfolding group_inv_def member_ok_def by (auto dest: issued_mono)

section \<open>Replacing a group\<close>

lemma keys_update: "distinct (map fst al) \<Longrightarrow> distinct (map fst (AList.update k v al))"
  by (rule distinct_update)

lemma set_update_groups:
  assumes "distinct (map fst al)"
  shows "set (AList.update k v al) \<subseteq> insert (k, v) (set al)"
proof
  fix x assume "x \<in> set (AList.update k v al)"
  then have "map_of (AList.update k v al) (fst x) = Some (snd x)"
    using distinct_update [OF assms, of k v] by (metis map_of_is_SomeI prod.collapse)
  then show "x \<in> insert (k, v) (set al)"
    by (cases x) (auto simp: update_conv' split: if_splits dest: map_of_SomeD)
qed

lemma coord_inv_put:
  assumes "coord_inv tm gc" "group_inv (gc_config gc) tm (gc_member_counter gc) gid g"
    and "map_of (gc_groups gc) gid \<noteq> None \<or> length (gc_groups gc) < cc_max_groups (gc_config gc)"
  shows "coord_inv tm (put_group gc gid g)"
proof -
  have d: "distinct (map fst (gc_groups gc))" using assms(1) by (simp add: coord_inv_def)
  have "length (AList.update gid g (gc_groups gc)) \<le> cc_max_groups (gc_config gc)"
  proof (cases "gid \<in> fst ` set (gc_groups gc)")
    case True
    then have "length (AList.update gid g (gc_groups gc)) = length (gc_groups gc)"
      by (metis length_map update_keys list.set_map)
    then show ?thesis using assms(1) by (simp add: coord_inv_def)
  next
    case False
    then have "length (gc_groups gc) < cc_max_groups (gc_config gc)"
      using assms(3) by (metis map_of_eq_None_iff)
    moreover have "length (map fst (AList.update gid g (gc_groups gc))) \<le> Suc (length (gc_groups gc))"
      by (simp only: update_keys) simp
    ultimately show ?thesis by simp
  qed
  moreover have "group_inv (gc_config gc) tm (gc_member_counter gc) i h" if "(i, h) \<in> set (AList.update gid g (gc_groups gc))" for i h
    using that assms(1,2) set_update_groups [OF d, of gid g] by (auto simp: coord_inv_def)
  ultimately show ?thesis using keys_update [OF d] by (auto simp: coord_inv_def put_group_def)
qed

lemma put_group_simps [simp]:
  "gc_config (put_group gc gid g) = gc_config gc" "gc_member_counter (put_group gc gid g) = gc_member_counter gc"
  "map_of (gc_groups (put_group gc gid g)) = (map_of (gc_groups gc))(gid \<mapsto> g)"
  by (simp_all add: put_group_def update_conv')

lemma put_group_twice [simp]: "put_group (put_group gc gid g) gid g' = put_group gc gid g'"
  by (simp add: put_group_def)

section \<open>Rebalancing\<close>

definition members_ready :: "CoordinatorConfig \<Rightarrow> TopicManager \<Rightarrow> u64 \<Rightarrow> string \<Rightarrow> Group \<Rightarrow> bool" where
  "members_ready cfg tm c gid g \<longleftrightarrow>
     g_group_id g = gid \<and> validate_group_id gid \<and> distinct (map fst (g_members g)) \<and>
     (\<forall>(m, md) \<in> set (g_members g). mm_member_id md = m \<and> issued gid c m \<and>
        cc_min_session_timeout_ms cfg \<le> mm_session_timeout_ms md \<and> mm_session_timeout_ms md \<le> cc_max_session_timeout_ms cfg) \<and>
     length (g_members g) \<le> cc_max_members_per_group cfg \<and>
     (\<forall>t \<in> set (g_subscribed_topics g). \<not> is_reserved t \<and> get_topic tm t \<noteq> None)"

lemma group_inv_ready: "group_inv cfg tm c gid g \<Longrightarrow> members_ready cfg tm c gid g"
  by (auto simp: group_inv_def members_ready_def member_ok_def)

lemma rebalance_fields [simp]:
  "g_group_id (rebalance_unlocked tm g) = g_group_id g" "g_strategy (rebalance_unlocked tm g) = g_strategy g"
  "g_subscribed_topics (rebalance_unlocked tm g) = g_subscribed_topics g" "g_generation (rebalance_unlocked tm g) = g_generation g"
  "map fst (g_members (rebalance_unlocked tm g)) = map fst (g_members g)"
  "length (g_members (rebalance_unlocked tm g)) = length (g_members g)"
  by (auto simp: rebalance_unlocked_def Let_def)

lemma rebalance_inv:
  assumes "members_ready cfg tm c gid g"
  shows "group_inv cfg tm c gid (rebalance_unlocked tm g)"
proof (cases "g_members g = []")
  case True
  then show ?thesis using assms by (auto simp: rebalance_unlocked_def group_inv_def members_ready_def)
next
  case False
  have f: "fair_assignment tm (rebalance_unlocked tm g) m = fair_assignment tm g m" for m
    by (simp add: fair_assignment_def)
  have mems: "g_members (rebalance_unlocked tm g) = map (\<lambda>(m, md). (m, md\<lparr> mm_assignment := fair_assignment tm g m \<rparr>)) (g_members g)"
    and st: "g_state (rebalance_unlocked tm g) = Stable"
    using False by (simp_all add: rebalance_unlocked_def fair_assignment_def Let_def)
  have "member_ok cfg tm c gid (rebalance_unlocked tm g) m md" if "(m, md) \<in> set (g_members (rebalance_unlocked tm g))" for m md
    using that assms by (auto simp: mems member_ok_def f members_ready_def)
  then have "\<forall>(m, md) \<in> set (g_members (rebalance_unlocked tm g)). member_ok cfg tm c gid (rebalance_unlocked tm g) m md" by blast
  moreover have "g_members (rebalance_unlocked tm g) \<noteq> []" using False by (simp add: mems)
  ultimately show ?thesis using assms by (simp add: group_inv_def members_ready_def st)
qed

lemma after_removal_inv:
  assumes "members_ready cfg tm c gid g"
  shows "group_inv cfg tm c gid (after_removal tm g)"
proof -
  let ?g = "g\<lparr> g_generation := g_generation g + 1 \<rparr>"
  have "members_ready cfg tm c gid ?g" using assms by (simp add: members_ready_def)
  moreover have "after_removal tm g = rebalance_unlocked tm ?g"
    by (simp add: after_removal_def rebalance_unlocked_def Let_def)
  ultimately show ?thesis using rebalance_inv by simp
qed

lemma ready_subset:
  assumes "members_ready cfg tm c gid g" "distinct (map fst ms)" "set ms \<subseteq> set (g_members g)"
  shows "members_ready cfg tm c gid (g\<lparr> g_members := ms \<rparr>)"
proof -
  have "card (set ms) \<le> card (set (g_members g))" using assms(3) by (intro card_mono) auto
  moreover have "card (set ms) = length ms" using assms(2) by (auto simp: distinct_map intro: distinct_card)
  ultimately have "length ms \<le> length (g_members g)" using card_length [of "g_members g"] by linarith
  then show ?thesis using assms by (fastforce simp: members_ready_def)
qed

section \<open>Operations preserve the invariant\<close>

lemma leave_inv: "coord_inv tm gc \<Longrightarrow> coord_inv tm (snd (leave tm gid m gc))"
proof (unfold leave_def, split option.split, intro conjI impI allI)
  fix g assume inv: "coord_inv tm gc" and g: "map_of (gc_groups gc) gid = Some g"
  have r: "members_ready (gc_config gc) tm (gc_member_counter gc) gid g"
    by (rule group_inv_ready [OF coord_invD [OF inv g]])
  have d: "distinct (map fst (g_members g))" using r by (simp add: members_ready_def)
  have "members_ready (gc_config gc) tm (gc_member_counter gc) gid (g\<lparr> g_members := AList.delete m (g_members g) \<rparr>)"
    by (rule ready_subset [OF r distinct_delete [OF d]]) (auto simp: AList.delete_eq)
  from coord_inv_put [OF inv after_removal_inv [OF this]] g inv
  show "coord_inv tm (snd (if map_of (g_members g) m = None then (unknown_member, gc)
      else ((Status_OK, 0), put_group gc gid (after_removal tm (g\<lparr>g_members := AList.delete m (g_members g)\<rparr>)))))"
    by simp
qed simp

text \<open>Updating the times of a member.\<close>

lemma group_inv_touch:
  assumes "group_inv cfg tm c gid g" "map_of (g_members g) m = Some md"
    and "mm_member_id md' = mm_member_id md" "mm_assignment md' = mm_assignment md"
    and "cc_min_session_timeout_ms cfg \<le> mm_session_timeout_ms md'" "mm_session_timeout_ms md' \<le> cc_max_session_timeout_ms cfg"
  shows "group_inv cfg tm c gid (g\<lparr> g_members := AList.update m md' (g_members g) \<rparr>)"
proof -
  let ?g = "g\<lparr> g_members := AList.update m md' (g_members g) \<rparr>"
  note D = group_invD [OF assms(1)]
  have m: "m \<in> set (map fst (g_members g))" using assms(2) by (force dest: map_of_SomeD)
  then have keys: "map fst (AList.update m md' (g_members g)) = map fst (g_members g)" by (simp add: update_keys)
  then have f: "fair_assignment tm ?g = fair_assignment tm g" by (intro ext) (simp add: fair_assignment_def)
  have "member_ok cfg tm c gid ?g n nd" if "(n, nd) \<in> set (AList.update m md' (g_members g))" for n nd
  proof -
    have "(n, nd) = (m, md') \<or> (n, nd) \<in> set (g_members g)" using that set_update_groups [OF D(3)] by blast
    then show ?thesis
    proof
      assume "(n, nd) = (m, md')"
      then show ?thesis using D(4) [OF assms(2)] assms(3-) f by (simp add: member_ok_def)
    next
      assume "(n, nd) \<in> set (g_members g)"
      then show ?thesis using assms(1) f by (auto simp: group_inv_def member_ok_def)
    qed
  qed
  moreover have "length (AList.update m md' (g_members g)) = length (g_members g)"
    using arg_cong [OF keys, of length] by simp
  moreover have "g_members ?g = [] \<longleftrightarrow> g_members g = []" using keys by (auto simp: update_nonempty dest: arg_cong [of _ _ length])
  ultimately show ?thesis using D keys by (auto simp: group_inv_def)
qed

lemma heartbeat_inv: "coord_inv tm gc \<Longrightarrow> coord_inv tm (snd (heartbeat now gid m gen gc))"
proof (unfold heartbeat_def, split option.split, intro conjI impI allI)
  fix g assume inv: "coord_inv tm gc" and g: "map_of (gc_groups gc) gid = Some g"
  note gi = coord_invD [OF inv g]
  have "coord_inv tm (put_group gc gid (g\<lparr> g_members := AList.update m (md\<lparr> mm_last_heartbeat := now \<rparr>) (g_members g) \<rparr>))"
    if "map_of (g_members g) m = Some md" for md
    using group_invD(4) [OF gi that] g
    by (intro coord_inv_put [OF inv] group_inv_touch [OF gi that]) (simp_all add: member_ok_def)
  then show "coord_inv tm (snd (case map_of (g_members g) m of None \<Rightarrow> (unknown_member, gc)
        | Some md \<Rightarrow> if gen \<noteq> g_generation g then ((Status InvalidArgument ''Illegal generation'', ILLEGAL_GENERATION), gc)
          else ((Status_OK, 0), put_group gc gid (g\<lparr>g_members := AList.update m (md\<lparr>mm_last_heartbeat := now\<rparr>) (g_members g)\<rparr>))))"
    using inv by (simp split: option.split)
qed simp

lemma expire_group_inv:
  assumes "group_inv cfg tm c gid g"
  shows "group_inv cfg tm c gid (fst (expire_group tm now g))"
proof -
  have r: "members_ready cfg tm c gid g" by (rule group_inv_ready [OF assms])
  have "foldl (\<lambda>ms i. AList.delete i ms) ms ids = filter (\<lambda>p. fst p \<notin> set ids) ms" for ms :: "(string \<times> MemberMetadata) list" and ids
    by (induction ids arbitrary: ms) (auto simp: AList.delete_eq intro!: filter_cong)
  moreover have "members_ready cfg tm c gid (g\<lparr> g_members := filter P (g_members g) \<rparr>)" for P
    using r by (intro ready_subset [OF r]) (auto simp: members_ready_def distinct_map_filter)
  ultimately show ?thesis using after_removal_inv assms by (simp add: expire_group_def Let_def)
qed

lemma expire_groups_eq:
  "expire_groups tm now gs =
     (map (\<lambda>(gid, g). (gid, fst (expire_group tm now g))) gs, \<Sum>(gid, g) \<leftarrow> gs. snd (expire_group tm now g))"
  by (induction gs) (auto simp: split_beta)

lemma expire_members_inv: "coord_inv tm gc \<Longrightarrow> coord_inv tm (snd (expire_members tm now gc))"
proof -
  assume inv: "coord_inv tm gc"
  have "fst \<circ> (\<lambda>(gid :: string, g). (gid, fst (expire_group tm now g))) = fst" by auto
  then show ?thesis using inv
    by (auto simp: expire_members_def expire_groups_eq coord_inv_def intro: expire_group_inv)
qed

lemma check_topics_None: "check_topics tm ts = None \<Longrightarrow> \<forall>t \<in> set ts. \<not> is_reserved t \<and> get_topic tm t \<noteq> None"
  by (induction ts) (auto split: if_splits)

lemma coord_inv_counter:
  assumes "coord_inv tm gc" "gc_member_counter gc \<noteq> - 1"
  shows "coord_inv tm (gc\<lparr> gc_member_counter := gc_member_counter gc + 1 \<rparr>)"
proof -
  have "unat (gc_member_counter gc) \<le> unat (gc_member_counter gc + 1)"
    using assms(2) unatSuc [of "gc_member_counter gc"] by (simp add: add.commute eq_neg_iff_add_eq_0)
  then show ?thesis using assms(1) by (auto simp: coord_inv_def intro: group_inv_counter)
qed

lemma update_new: "k \<notin> fst ` set al \<Longrightarrow> AList.update k v al = al @ [(k, v)]"
  by (induction al) auto

text \<open>A new member under a fresh id.\<close>

lemma ready_new_member:
  assumes "members_ready cfg tm c gid g" "length (g_members g) < cc_max_members_per_group cfg" "c \<noteq> - 1"
    and "cc_min_session_timeout_ms cfg \<le> mm_session_timeout_ms md" "mm_session_timeout_ms md \<le> cc_max_session_timeout_ms cfg"
    and "mm_member_id md = member_name gid (unat c) r"
  shows "member_name gid (unat c) r \<notin> set (map fst (g_members g)) \<and>
    members_ready cfg tm (c + 1) gid (g\<lparr> g_members := AList.update (member_name gid (unat c) r) md (g_members g), g_generation := gen \<rparr>)"
proof -
  let ?i = "member_name gid (unat c) r"
  have u: "unat (c + 1) = Suc (unat c)"
    using assms(3) unatSuc [of c] by (simp add: add.commute eq_neg_iff_add_eq_0)
  have old: "mm_member_id nd = n \<and> issued gid c n \<and> cc_min_session_timeout_ms cfg \<le> mm_session_timeout_ms nd \<and>
      mm_session_timeout_ms nd \<le> cc_max_session_timeout_ms cfg" if "(n, nd) \<in> set (g_members g)" for n nd
    using that assms(1) by (auto simp: members_ready_def)
  have fresh: "?i \<notin> set (map fst (g_members g))" using old fresh_not_issued by fastforce
  then have upd: "AList.update ?i md (g_members g) = g_members g @ [(?i, md)]" by (intro update_new) simp
  have "issued gid (c + 1) ?i" unfolding issued_def u by blast
  moreover have "issued gid (c + 1) n" if "(n, nd) \<in> set (g_members g)" for n nd
    using old [OF that] u by (auto intro: issued_mono)
  ultimately show ?thesis
    using assms fresh old by (auto simp: upd members_ready_def)
qed

lemma join_group_inv:
  assumes inv: "coord_inv tm gc" and g: "group_inv (gc_config gc) tm (gc_member_counter gc) gid g" "map_of (gc_groups gc) gid = Some g"
    and c: "gc_member_counter gc \<noteq> - 1" and ts: "\<forall>t \<in> set topics. \<not> is_reserved t \<and> get_topic tm t \<noteq> None"
    and tmo: "cc_min_session_timeout_ms (gc_config gc) \<le> timeout" "timeout \<le> cc_max_session_timeout_ms (gc_config gc)"
  shows "coord_inv tm (snd (join_group tm now r gid m timeout topics strategy g gc))"
proof -
  define g1 where "g1 = (if g_members g = [] then g\<lparr> g_strategy := strategy, g_subscribed_topics := topics \<rparr> else g)"
  let ?gc1 = "put_group gc gid g1"
  have g1: "group_inv (gc_config gc) tm (gc_member_counter gc) gid g1"
    using g(1) ts by (auto simp: group_inv_def g1_def)
  have inv1: "coord_inv tm ?gc1" by (rule coord_inv_put [OF inv g1]) (simp add: g)
  have v: "validate_group_id gid" by (rule group_invD(2) [OF g(1)])
  have new: "coord_inv tm (put_group (?gc1\<lparr> gc_member_counter := gc_member_counter gc + 1 \<rparr>) gid
      (rebalance_unlocked tm (g1\<lparr> g_members := AList.update (member_name gid (unat (gc_member_counter gc)) r) md (g_members g1),
         g_generation := gen \<rparr>)))"
    if "length (g_members g1) < cc_max_members_per_group (gc_config gc)" "mm_session_timeout_ms md = timeout"
      "mm_member_id md = member_name gid (unat (gc_member_counter gc)) r" for md gen
  proof (rule coord_inv_put)
    show "coord_inv tm (?gc1\<lparr> gc_member_counter := gc_member_counter gc + 1 \<rparr>)"
      using coord_inv_counter [OF inv1] c by simp
    show "group_inv (gc_config (?gc1\<lparr> gc_member_counter := gc_member_counter gc + 1 \<rparr>)) tm
        (gc_member_counter (?gc1\<lparr> gc_member_counter := gc_member_counter gc + 1 \<rparr>)) gid
      (rebalance_unlocked tm (g1\<lparr> g_members := AList.update (member_name gid (unat (gc_member_counter gc)) r) md (g_members g1),
         g_generation := gen \<rparr>))"
      using ready_new_member [OF group_inv_ready [OF g1] that(1) c] tmo that by (intro rebalance_inv) simp
    show "map_of (gc_groups (?gc1\<lparr> gc_member_counter := gc_member_counter gc + 1 \<rparr>)) gid \<noteq> None \<or>
        length (gc_groups (?gc1\<lparr> gc_member_counter := gc_member_counter gc + 1 \<rparr>))
          < cc_max_groups (gc_config (?gc1\<lparr> gc_member_counter := gc_member_counter gc + 1 \<rparr>))" by simp
  qed
  have old: "coord_inv tm (put_group gc gid (g1\<lparr> g_members :=
      AList.update m (md\<lparr> mm_last_heartbeat := now, mm_session_timeout_ms := timeout \<rparr>) (g_members g1) \<rparr>))"
    if "map_of (g_members g1) m = Some md" for md
    using tmo g by (intro coord_inv_put [OF inv] group_inv_touch [OF g1 that]) simp_all
  show ?thesis
    unfolding join_group_def Let_def generate_member_id_eq [OF v] prod.case g1_def [symmetric] put_group_simps put_group_twice
    by (simp add: inv inv1 new old split: option.split)
qed

lemma join_inv:
  assumes "coord_inv tm gc" "gc_member_counter gc \<noteq> - 1"
  shows "coord_inv tm (snd (join tm now r gid m timeout topics strategy gc))"
proof -
  let ?g = "new_group gid (strategy_of strategy) topics"
  have j: "coord_inv tm (snd (join_group tm now r gid m timeout topics (strategy_of strategy) g gc'))"
    if "coord_inv tm gc'" "map_of (gc_groups gc') gid = Some g" "gc_member_counter gc' \<noteq> - 1"
      "check_topics tm topics = None" "\<not> timeout < cc_min_session_timeout_ms (gc_config gc')" "\<not> cc_max_session_timeout_ms (gc_config gc') < timeout" for g gc'
    using that check_topics_None by (intro join_group_inv [OF _ coord_invD]) (auto simp: not_less)
  have n: "coord_inv tm (put_group gc gid ?g)"
    if "validate_group_id gid" "check_topics tm topics = None" "\<not> length (gc_groups gc) \<ge> cc_max_groups (gc_config gc)"
    using that check_topics_None by (intro coord_inv_put [OF assms(1)]) (auto simp: group_inv_def new_group_def)
  show ?thesis
    using assms unfolding join_def by (auto simp: Let_def intro!: j n split: option.split)
qed

section \<open>Exclusive ownership\<close>

interpretation chosen: assignor "run_assignor s" for s
  by unfold_locales (simp add: run_assignor_def round_robin.assign_all range.assign_all)

lemma topic_counts_fst: "map fst (topic_counts tm ts) = filter (\<lambda>t. get_topic tm t \<noteq> None) ts"
  by (induction ts) (auto simp: topic_counts_def map_filter_simps split: option.split)

lemma topic_counts_mem: "(name, n) \<in> set (topic_counts tm ts) \<longleftrightarrow>
    name \<in> set ts \<and> (\<exists>t. get_topic tm name = Some t \<and> n = ucast (tc_num_partitions t))"
  by (auto simp: topic_counts_def map_filter_def intro!: rev_image_eqI)

lemma count_matching: "length (filter (\<lambda>tp. t_topic tp = name \<and> t_partition tp = p) xs) = count_list xs (TopicPartition name p)"
  by (induction xs) (auto simp: TopicPartition.expand)

lemma mset_sum_list: "mset xs = mset ys \<Longrightarrow> (\<Sum>x \<leftarrow> xs. f x :: nat) = (\<Sum>x \<leftarrow> ys. f x)"
  by (metis mset_map sum_mset_sum_list)

lemma owner_count_flatten:
  assumes "group_inv cfg tm c gid g" "g_members g \<noteq> []"
  shows "owner_count g name p = count_list (flatten (topic_counts tm (g_subscribed_topics g))) (TopicPartition name p)"
proof -
  let ?ms = "sort (map fst (g_members g))"
  let ?r = "run_assignor (g_strategy g) ?ms (topic_counts tm (g_subscribed_topics g))"
  have a: "mm_assignment md = at ?r m" if "(m, md) \<in> set (g_members g)" for m md
    using that assms(1) by (auto simp: group_inv_def member_ok_def fair_assignment_def)
  have "owner_count g name p = (\<Sum>(m, md) \<leftarrow> g_members g. count_list (at ?r m) (TopicPartition name p))"
    unfolding owner_count_def count_matching by (intro arg_cong [of _ _ sum_list] map_cong) (auto simp: a)
  also have "\<dots> = (\<Sum>m \<leftarrow> map fst (g_members g). count_list (at ?r m) (TopicPartition name p))"
    by (simp add: case_prod_unfold o_def)
  also have "\<dots> = (\<Sum>m \<leftarrow> ?ms. count_list (at ?r m) (TopicPartition name p))"
    by (rule mset_sum_list) simp
  also have "\<dots> = count_list (flatten (topic_counts tm (g_subscribed_topics g))) (TopicPartition name p)"
  proof (rule chosen.owners)
    show "distinct ?ms" using group_invD(3) [OF assms(1)] by simp
    show "?ms \<noteq> []" using assms(2) by (metis length_0_conv length_map length_sort)
  qed
  finally show ?thesis .
qed


lemma owner_unique:
  assumes "group_inv cfg tm c gid g" "g_members g \<noteq> []" "distinct (g_subscribed_topics g)" "name \<in> set (g_subscribed_topics g)"
    and "get_topic tm name = Some t" "unat (tc_num_partitions t) < 65536" "p < unat (tc_num_partitions t)"
  shows "owner_count g name (of_nat p) = 1"
  unfolding owner_count_flatten [OF assms(1,2)]
proof (rule flatten_once)
  show "distinct (map fst (topic_counts tm (g_subscribed_topics g)))" using assms(3) by (simp add: topic_counts_fst)
  show "(name, ucast (tc_num_partitions t)) \<in> set (topic_counts tm (g_subscribed_topics g))"
    using assms(4,5) by (simp add: topic_counts_mem)
  show "p < unat (ucast (tc_num_partitions t) :: u16)" using assms(6,7) by (simp add: ucast_u16_small)
qed

lemma check_known_holds:
  assumes "group_inv cfg tm c gid g" "\<And>name t. get_topic tm name = Some t \<Longrightarrow> unat (tc_num_partitions t) < 65536"
  shows "check_known tm g"
proof -
  have k: "\<exists>t. get_topic tm (t_topic tp) = Some t \<and> unat (t_partition tp) < unat (tc_num_partitions t)"
    if "(m, md) \<in> set (g_members g)" "tp \<in> set (mm_assignment md)" for m md tp
  proof -
    let ?tps = "topic_counts tm (g_subscribed_topics g)"
    have "tp \<in> set (at (run_assignor (g_strategy g) (sort (map fst (g_members g))) ?tps) m)"
      using that assms(1) by (auto simp: group_inv_def member_ok_def fair_assignment_def)
    moreover have "m \<in> set (sort (map fst (g_members g)))" using that(1) by force
    moreover have "distinct (sort (map fst (g_members g)))" using group_invD(3) [OF assms(1)] by simp
    ultimately have "tp \<in> set (flatten ?tps)" using chosen.only_listed by blast
    then obtain n where "(t_topic tp, n) \<in> set ?tps" "unat (t_partition tp) < unat n" using flatten_mem by blast
    then show ?thesis using assms(2) by (auto simp: topic_counts_mem ucast_u16_small)
  qed
  have "case get_topic tm (t_topic tp) of None \<Rightarrow> False | Some t \<Rightarrow> \<not> ucast (t_partition tp) \<ge> tc_num_partitions t"
    if m: "(m, md) \<in> set (g_members g)" "tp \<in> set (mm_assignment md)" for m md tp
  proof -
    obtain t where "get_topic tm (t_topic tp) = Some t" "unat (t_partition tp) < unat (tc_num_partitions t)"
      using k [OF m] by blast
    then show ?thesis by (simp add: not_le word_less_nat_alt)
  qed
  then show ?thesis unfolding check_known_def by blast
qed

lemma debug_check_holds:
  assumes inv: "coord_inv tm gc" and parts: "\<And>name t. get_topic tm name = Some t \<Longrightarrow> unat (tc_num_partitions t) < 65536"
    and dist: "\<And>g. map_of (gc_groups gc) gid = Some g \<Longrightarrow> distinct (g_subscribed_topics g)"
  shows "debug_check_invariants tm gid gc = Some True"
proof (cases "map_of (gc_groups gc) gid")
  case None
  then show ?thesis by (simp add: debug_check_invariants_def)
next
  case (Some g)
  note gi = coord_invD [OF inv Some]
  have "check_topic_owners tm g name = Some True" if n: "name \<in> set (g_subscribed_topics g)" "g_members g \<noteq> []" for name
  proof -
    obtain t where t: "get_topic tm name = Some t" using group_invD(7) [OF gi n(1)] by auto
    have "\<forall>p \<in> set [0..<unat (tc_num_partitions t)]. owner_count g name (of_nat p) = 1"
      using owner_unique [OF gi n(2) dist [OF Some] n(1) t parts [OF t]] by simp
    then show ?thesis using parts [OF t] t by (auto simp: check_topic_owners_def Let_def min_def)
  qed
  then have "g_members g \<noteq> [] \<Longrightarrow> set ts \<subseteq> set (g_subscribed_topics g) \<Longrightarrow> check_owners tm g ts = Some True" for ts
    by (induction ts) auto
  then show ?thesis
    using Some group_invD(5) [OF gi] check_known_holds [OF gi parts] by (simp add: debug_check_invariants_def)
qed

section \<open>Topics only grow\<close>

definition tm_grows :: "TopicManager \<Rightarrow> TopicManager \<Rightarrow> bool" where
  "tm_grows tm tm' \<longleftrightarrow> (\<forall>name t. get_topic tm name = Some t \<longrightarrow>
     (\<exists>t'. get_topic tm' name = Some t' \<and> tc_num_partitions t' = tc_num_partitions t))"

lemma tm_grows_refl [simp]: "tm_grows tm tm"
  by (simp add: tm_grows_def)

lemma coord_inv_grows:
  assumes "coord_inv tm gc" "tm_grows tm tm'"
  shows "coord_inv tm' gc"
proof -
  have "topic_counts tm' ts = topic_counts tm ts" if "\<forall>t \<in> set ts. get_topic tm t \<noteq> None" for ts
    using that
  proof (induction ts)
    case (Cons t ts)
    then obtain x where x: "get_topic tm t = Some x" by auto
    then obtain y where "get_topic tm' t = Some y" "tc_num_partitions y = tc_num_partitions x"
      using assms(2) by (auto simp: tm_grows_def)
    then show ?case using Cons x by (simp add: topic_counts_def map_filter_simps)
  qed (simp add: topic_counts_def map_filter_simps)
  then have "group_inv cfg tm' c gid g" if "group_inv cfg tm c gid g" for cfg c gid g
    using that assms(2) unfolding group_inv_def member_ok_def fair_assignment_def by (fastforce simp: tm_grows_def)
  then show ?thesis using assms(1) by (auto simp: coord_inv_def)
qed

lemma put_topic_grows:
  assumes "get_topic tm name = Some t" "tc_num_partitions t' = tc_num_partitions t"
  shows "tm_grows tm (put_topic tm name t')"
  using assms by (auto simp: tm_grows_def put_topic_def get_topic_def update_conv')

lemma put_partition_num [simp]: "tc_num_partitions (put_partition t p P) = tc_num_partitions t"
  by (simp add: put_partition_def tc_num_partitions_def)

lemma create_topic_grows:
  "create_topic w now_ms fs tm name parts rms rbytes = Some (res, tm', fs') \<Longrightarrow> tm_grows tm tm'"
  unfolding create_topic_def
  by (auto simp: Let_def split_beta tm_grows_def get_topic_def update_conv' bind_eq_Some_conv split: option.splits if_splits)

lemma offsets_commit_grows: "offsets_commit w now_ms fs tm s gid items = Some (st, s', tm', fs') \<Longrightarrow> tm_grows tm tm'"
  unfolding offsets_commit_def
  by (clarsimp simp: Let_def bind_eq_Some_conv split: if_splits prod.splits) (auto split: sum.splits intro: put_topic_grows)

lemma commit_grows: "commit w now_ms now fs tm s gc gid m gen es = Some (res, s', tm', fs') \<Longrightarrow> tm_grows tm tm'"
  unfolding commit_def
  by (auto simp: Let_def bind_eq_Some_conv split: if_splits option.splits dest: offsets_commit_grows)

end
