(* ===== verification/GroupFencing.thy ===== *)
theory GroupFencing
  imports GroupLaws
begin

text \<open>
  What the group coordinator promises to consumers, from the invariant: a commit is accepted only
  from the owner of the partition in the present generation, a change of membership fences off
  everybody else, and the reaper removes exactly the members that were silent for too long.
\<close>

section \<open>Commits are fenced\<close>

lemma check_entries_None:
  "check_entries tm es = None \<Longrightarrow> e \<in> set es \<Longrightarrow>
     \<not> is_reserved (ocr_topic e) \<and> (\<exists>t P. get_topic tm (ocr_topic e) = Some t \<and> get_partition t (ucast (ocr_partition e)) = Some P)"
  by (induction es) (auto split: if_splits option.splits)

lemma check_assigned_None:
  "check_assigned m tps es = None \<Longrightarrow> e \<in> set es \<Longrightarrow> TopicPartition (ocr_topic e) (ocr_partition e) \<in> set tps"
  by (induction es) (auto split: if_splits simp: TopicPartition.expand, metis TopicPartition.collapse)

lemma check_bounds_None:
  "check_bounds tm es = Some None \<Longrightarrow> e \<in> set es \<Longrightarrow>
     \<exists>t P. get_topic tm (ocr_topic e) = Some t \<and> get_partition t (ucast (ocr_partition e)) = Some P \<and> ocr_offset e \<le> p_next_offset P"
  by (induction es) (auto simp: bind_eq_Some_conv split: if_splits)

lemma check_entries_error: "check_entries tm es = Some r \<Longrightarrow> snd r \<noteq> 0"
  by (induction es) (auto split: if_splits option.splits simp: error_code_defs)

lemma check_member_error: "check_member gc gid m gen es = Some r \<Longrightarrow> snd r \<noteq> 0"
proof -
  have "check_assigned m tps es = Some r \<Longrightarrow> snd r \<noteq> 0" for tps
    by (induction es) (auto split: if_splits simp: error_code_defs)
  then show "check_member gc gid m gen es = Some r \<Longrightarrow> snd r \<noteq> 0"
    by (auto simp: check_member_def Let_def error_code_defs split: if_splits option.splits)
qed

lemma check_bounds_error: "check_bounds tm es = Some (Some r) \<Longrightarrow> snd r \<noteq> 0"
  by (induction es) (auto simp: bind_eq_Some_conv error_code_defs split: if_splits)

lemmas commit_check_errors = check_entries_error check_member_error check_bounds_error

lemma commit_accepted:
  assumes "commit w now_ms now fs tm s gc gid m gen es = Some ((st, 0), s', tm', fs')"
  shows "check_entries tm es = None \<and> check_member gc gid m gen es = None \<and> check_bounds tm es = Some None"
proof (cases "check_entries tm es")
  case (Some r)
  then show ?thesis using assms check_entries_error [OF Some] by (auto simp: commit_def)
next
  case e: None
  show ?thesis
  proof (cases "check_member gc gid m gen es")
    case (Some r)
    then show ?thesis using assms e check_member_error [OF Some] by (auto simp: commit_def)
  next
    case None
    obtain b where b: "check_bounds tm es = Some b" using assms e None by (auto simp: commit_def bind_eq_Some_conv)
    have "b = None"
    proof (rule ccontr)
      assume "b \<noteq> None"
      then obtain r where r: "b = Some r" by blast
      have "r = (st, 0)" using assms unfolding commit_def e None b r option.case bind.bind_lunit by simp
      then show False using check_bounds_error b r by fastforce
    qed
    then show ?thesis using e None b by simp
  qed
qed

lemma flatten_distinct:
  assumes "distinct (map fst tps)"
  shows "distinct (flatten tps)"
proof -
  have "count_list (flatten tps) tp = 1" if "tp \<in> set (flatten tps)" for tp
  proof -
    obtain n where "(t_topic tp, n) \<in> set tps" "unat (t_partition tp) < unat n" using flatten_mem [OF \<open>tp \<in> _\<close>] by blast
    from flatten_once [OF assms this] show ?thesis by simp
  qed
  then show ?thesis by (simp add: distinct_count_atmost_1 count_mset count_list_0_iff)
qed

lemma assignment_exclusive:
  assumes inv: "group_inv cfg tm c gid g" and d: "distinct (g_subscribed_topics g)"
    and a: "map_of (g_members g) m = Some md" "tp \<in> set (mm_assignment md)"
    and b: "map_of (g_members g) n = Some nd" "tp \<in> set (mm_assignment nd)"
  shows "n = m"
proof -
  let ?ms = "sort (map fst (g_members g))" and ?tps = "topic_counts tm (g_subscribed_topics g)"
  have mem: "k \<in> set ?ms" "tp \<in> set (at (run_assignor (g_strategy g) ?ms ?tps) k)"
    if "map_of (g_members g) k = Some kd" "tp \<in> set (mm_assignment kd)" for k kd
    using that(2) map_of_SomeD [OF that(1)] group_invD(4) [OF inv that(1)] by (force simp: member_ok_def fair_assignment_def)+
  have ds: "distinct ?ms" using group_invD(3) [OF inv] by simp
  have tp: "tp \<in> set (flatten ?tps)" by (rule chosen.only_listed [OF ds mem [OF a]])
  have df: "distinct (flatten ?tps)" using d by (intro flatten_distinct) (simp add: topic_counts_fst)
  have "?ms \<noteq> []" using mem(1) [OF a] by (metis empty_iff list.set(1))
  from chosen.unique_owner [OF ds this df tp, of "g_strategy g"] show ?thesis
    by (rule ex1E) (metis mem [OF a] mem [OF b])
qed


text \<open>The committed partition belongs to the member, and to it alone, and has the offset.\<close>

definition entry_fenced :: "TopicManager \<Rightarrow> Group \<Rightarrow> string \<Rightarrow> MemberMetadata \<Rightarrow> OffsetCommitRequestEntry \<Rightarrow> bool" where
  "entry_fenced tm g m md e \<longleftrightarrow>
     TopicPartition (ocr_topic e) (ocr_partition e) \<in> set (mm_assignment md) \<and> \<not> is_reserved (ocr_topic e) \<and>
     (\<exists>t P. get_topic tm (ocr_topic e) = Some t \<and> get_partition t (ucast (ocr_partition e)) = Some P \<and> ocr_offset e \<le> p_next_offset P) \<and>
     (distinct (g_subscribed_topics g) \<longrightarrow> (\<forall>n nd. map_of (g_members g) n = Some nd \<longrightarrow>
        TopicPartition (ocr_topic e) (ocr_partition e) \<in> set (mm_assignment nd) \<longrightarrow> n = m))"

lemma commit_accepted_fenced:
  assumes inv: "coord_inv tm gc" and "m \<noteq> [] \<or> gen \<noteq> 0xFFFFFFFF"
    and c: "check_entries tm es = None" "check_member gc gid m gen es = None" "check_bounds tm es = Some None"
  shows "\<exists>g md. map_of (gc_groups gc) gid = Some g \<and> map_of (g_members g) m = Some md \<and> gen = g_generation g \<and>
      (\<forall>e \<in> set es. entry_fenced tm g m md e)"
proof -
  obtain g md where g: "map_of (gc_groups gc) gid = Some g" "map_of (g_members g) m = Some md" "gen = g_generation g"
    and a: "check_assigned m (mm_assignment md) es = None"
    using c(2) assms(2) by (auto simp: check_member_def Let_def split: if_splits option.splits)
  have "entry_fenced tm g m md e" if e: "e \<in> set es" for e
    unfolding entry_fenced_def
  proof (intro conjI impI allI)
    show "TopicPartition (ocr_topic e) (ocr_partition e) \<in> set (mm_assignment md)" by (rule check_assigned_None [OF a e])
    show "\<not> is_reserved (ocr_topic e)" using check_entries_None [OF c(1) e] by blast
    show "\<exists>t P. get_topic tm (ocr_topic e) = Some t \<and> get_partition t (ucast (ocr_partition e)) = Some P \<and> ocr_offset e \<le> p_next_offset P"
      by (rule check_bounds_None [OF c(3) e])
    fix n nd assume d: "distinct (g_subscribed_topics g)" and n: "map_of (g_members g) n = Some nd"
      "TopicPartition (ocr_topic e) (ocr_partition e) \<in> set (mm_assignment nd)"
    show "n = m" by (rule assignment_exclusive [OF coord_invD [OF inv g(1)] d g(2) check_assigned_None [OF a e] n])
  qed
  then show ?thesis using g by blast
qed

lemma commit_rejected:
  assumes "commit w now_ms now fs tm s gc gid m gen es = Some ((st, err), s', tm', fs')" "err \<noteq> 0" "err \<noteq> INTERNAL_ERROR"
  shows "s' = s \<and> tm' = tm \<and> fs' = fs"
proof (cases "check_entries tm es")
  case e: None
  show ?thesis
  proof (cases "check_member gc gid m gen es")
    case None
    obtain b where b: "check_bounds tm es = Some b" using assms(1) e None by (auto simp: commit_def bind_eq_Some_conv)
    show ?thesis
    proof (cases b)
      case n: None
      have "err = 0 \<or> err = INTERNAL_ERROR"
        using assms(1) unfolding commit_def e None b n option.case bind.bind_lunit Let_def
        by (clarsimp simp: bind_eq_Some_conv split: if_splits)
      then show ?thesis using assms(2,3) by simp
    qed (use assms e None b in \<open>auto simp: commit_def\<close>)
  qed (use assms e in \<open>auto simp: commit_def\<close>)
next
  case (Some r)
  show ?thesis using assms(1) unfolding commit_def Some option.case by simp
qed

text \<open>
  C4. Commits are fenced. When a commit by a group member is accepted, that member is in the
  group with the group's present generation, every committed partition is assigned to it and (for
  a group without repeated topics) to no other member, no committed offset is beyond the end of
  its partition, and the topics are not reserved. A commit that fails one of these checks changes
  nothing.
\<close>

theorem commit_is_fenced:
  assumes "coord_inv tm gc" "m \<noteq> [] \<or> gen \<noteq> 0xFFFFFFFF"
    and "commit w now_ms now fs tm s gc gid m gen es = Some ((st, err), s', tm', fs')"
  shows "(err = 0 \<longrightarrow> (\<exists>g md. map_of (gc_groups gc) gid = Some g \<and> map_of (g_members g) m = Some md \<and> gen = g_generation g \<and>
      (\<forall>e \<in> set es. entry_fenced tm g m md e))) \<and>
    (err \<noteq> 0 \<and> err \<noteq> INTERNAL_ERROR \<longrightarrow> s' = s \<and> tm' = tm \<and> fs' = fs)"
proof (intro conjI impI)
  assume "err = 0"
  then have "check_entries tm es = None \<and> check_member gc gid m gen es = None \<and> check_bounds tm es = Some None"
    using commit_accepted assms(3) by simp
  then show "\<exists>g md. map_of (gc_groups gc) gid = Some g \<and> map_of (g_members g) m = Some md \<and> gen = g_generation g \<and>
      (\<forall>e \<in> set es. entry_fenced tm g m md e)"
    using commit_accepted_fenced [OF assms(1,2)] by simp
next
  assume "err \<noteq> 0 \<and> err \<noteq> INTERNAL_ERROR"
  then have "s' = s \<and> tm' = tm \<and> fs' = fs" using commit_rejected [OF assms(3)] by blast
  then show "s' = s" "tm' = tm" "fs' = fs" by blast+
qed


definition sample_tm :: TopicManager where
  "sample_tm = \<lparr> tm_config = default_StorageConfig,
     tm_topics = [(''a'', make_Topic ''a'' 1 [''data'', ''a''] default_StorageConfig 0 0)] \<rparr>"

definition sample_coord :: GroupCoordinator where
  "sample_coord = snd (join sample_tm 0 0xBEEF ''g'' [] 5000 [''a''] 0 (new_GroupCoordinator default_CoordinatorConfig))"

lemma sample_coord_inv: "coord_inv sample_tm sample_coord"
  unfolding sample_coord_def by (rule join_inv [OF coord_inv_new]) (simp add: new_GroupCoordinator_def)


lemma sample_topic: "get_topic sample_tm ''a'' = Some (make_Topic ''a'' 1 [''data'', ''a''] default_StorageConfig 0 0)"
  by (simp add: sample_tm_def get_topic_def)

lemma sample_name: "member_name ''g'' (Suc 0) 0xBEEF = ''g-00000001-beef''"
proof -
  have "char_of (49 :: nat) = CHR ''1''" "char_of (98 :: nat) = CHR ''b''" "char_of (101 :: nat) = CHR ''e''" "char_of (102 :: nat) = CHR ''f''"
    by code_simp+
  moreover have "replicate 7 c = [c, c, c, c, c, c, c]" for c :: char by (simp add: numeral_eq_Suc)
  ultimately show ?thesis
    by (simp add: member_name_def pad0_def to_string.simps digit_def hex4_def hex_digit_def)
qed

lemma sample_facts:
  "validate_group_id ''g''" "\<not> is_reserved ''a''"
  "topic_counts sample_tm [''a''] = [(''a'', 1)]"
  by code_simp
     (simp_all add: is_reserved_def topic_counts_def map_filter_simps sample_topic tc_num_partitions_def make_Topic_def)
lemma sample_assign: "at (range_assign [m] [(''a'', 1)]) m = [TopicPartition ''a'' 0]"
  by (simp add: range_assign_def range_topic_def range_member_def at_push_back)

lemma sample_coord_eq: "gc_groups sample_coord = [(''g'', \<lparr> g_group_id = ''g'', g_generation = 1, g_strategy = Range,
    g_subscribed_topics = [''a''], g_state = Stable, g_members = [(''g-00000001-beef'', \<lparr> mm_member_id = ''g-00000001-beef'',
      mm_session_timeout_ms = 5000, mm_last_heartbeat = 0, mm_assignment = [TopicPartition ''a'' 0] \<rparr>)] \<rparr>)]"
  by (simp add: sample_coord_def join_def new_GroupCoordinator_def default_CoordinatorConfig_def sample_facts sample_topic sample_name sample_assign join_group_def
      new_group_def put_group_def Let_def generate_member_id_eq rebalance_unlocked_def run_assignor_def strategy_of_def)


theorem commit_is_fenced_witness:
  "commit ideal_os 0 0 \<lparr> fs_files = [], fs_dirs = [] \<rparr> sample_tm new_OffsetStore sample_coord ''g'' ''g-00000001-beef'' 7
     [\<lparr> ocr_topic = ''a'', ocr_partition = 0, ocr_offset = 0 \<rparr>] =
   Some ((Status InvalidArgument ''Illegal generation (expected 1, got 7)'', ILLEGAL_GENERATION), new_OffsetStore, sample_tm, \<lparr> fs_files = [], fs_dirs = [] \<rparr>)"
proof -
  let ?e = "\<lparr> ocr_topic = ''a'', ocr_partition = 0, ocr_offset = 0 \<rparr>"
  have p: "get_partition (make_Topic ''a'' 1 [''data'', ''a''] default_StorageConfig 0 0) 0 \<noteq> None"
    by (simp add: get_partition_def make_Topic_def)
  have d: "digit (Suc 0) = CHR ''1''" "digit 7 = CHR ''7''" by code_simp+
  obtain s' tm' fs' where c: "commit ideal_os 0 0 \<lparr> fs_files = [], fs_dirs = [] \<rparr> sample_tm new_OffsetStore sample_coord ''g'' ''g-00000001-beef'' 7 [?e] =
      Some ((Status InvalidArgument ''Illegal generation (expected 1, got 7)'', ILLEGAL_GENERATION), s', tm', fs')"
    using p by (simp add: commit_def check_member_def sample_coord_eq sample_topic sample_facts Let_def to_string.simps d)
  have "ILLEGAL_GENERATION \<noteq> 0 \<and> ILLEGAL_GENERATION \<noteq> INTERNAL_ERROR" by (simp add: error_code_defs)
  then show ?thesis
    using c commit_is_fenced [OF sample_coord_inv _ c] by simp
qed

section \<open>Generations\<close>

lemma commit_stale:
  assumes "map_of (gc_groups gc) gid = Some g" "gen \<noteq> g_generation g" "m \<noteq> [] \<or> gen \<noteq> 0xFFFFFFFF"
  shows "\<exists>r. commit w now_ms now fs tm s gc gid m gen es = Some (r, s, tm, fs) \<and> snd r \<noteq> 0"
proof (cases "check_entries tm es")
  case (Some r)
  then show ?thesis using check_entries_error [OF Some] by (simp add: commit_def)
next
  case None
  obtain r where r: "check_member gc gid m gen es = Some r"
    using assms by (cases "map_of (g_members g) m") (auto simp: check_member_def Let_def)
  then show ?thesis using None check_member_error [OF r] by (simp add: commit_def)
qed

lemma heartbeat_stale:
  assumes "map_of (gc_groups gc) gid = Some g" "gen \<noteq> g_generation g"
  shows "\<exists>r. heartbeat now gid m gen gc = (r, gc) \<and> snd r \<noteq> 0"
  using assms by (auto simp: heartbeat_def unknown_member_def error_code_defs split: option.split)

lemma after_removal_generation: "g_generation (after_removal tm g) = g_generation g + 1"
  by (simp add: after_removal_def Let_def)

lemma join_generation:
  assumes g: "map_of (gc_groups gc) gid = Some g" and e: "jr_error_code (fst (join tm now r gid [] timeout topics strategy gc)) = 0"
  shows "\<exists>g'. map_of (gc_groups (snd (join tm now r gid [] timeout topics strategy gc))) gid = Some g' \<and> g_generation g' = g_generation g + 1"
proof -
  have ie: "INVALID_ARGUMENT \<noteq> 0" "check_topics tm topics = Some (st, err) \<Longrightarrow> err \<noteq> 0" for st err
    by (simp add: error_code_defs) (induction topics; auto simp: error_code_defs split: if_splits)
  have v: "validate_group_id gid" using e ie by (auto simp: join_def join_error_def split: if_splits)
  have "join tm now r gid [] timeout topics strategy gc = join_group tm now r gid [] timeout topics (strategy_of strategy) g gc"
    using e ie g by (auto simp: join_def join_error_def split: if_splits option.splits)
  then show ?thesis
    using e ie unfolding join_group_def Let_def generate_member_id_eq [OF v] prod.case
    by (simp add: join_error_def split: if_splits)
qed

lemma leave_generation:
  assumes "map_of (gc_groups gc) gid = Some g" "snd (fst (leave tm gid n gc)) = 0"
  shows "\<exists>g'. map_of (gc_groups (snd (leave tm gid n gc))) gid = Some g' \<and> g_generation g' = g_generation g + 1"
  using assms by (auto simp: leave_def unknown_member_def error_code_defs after_removal_generation split: if_splits)

lemma map_of_expire:
  "map_of (gc_groups (snd (expire_members tm now gc))) gid = map_option (\<lambda>g. fst (expire_group tm now g)) (map_of (gc_groups gc) gid)"
  by (simp add: expire_members_def expire_groups_eq map_of_map)

lemma expire_generation:
  assumes "map_of (gc_groups gc) gid = Some g" "\<exists>(n, nd) \<in> set (g_members g). is_expired now nd"
  shows "\<exists>g'. map_of (gc_groups (snd (expire_members tm now gc))) gid = Some g' \<and> g_generation g' = g_generation g + 1"
proof -
  have "map fst (filter (\<lambda>(m, md). is_expired now md) (g_members g)) \<noteq> []" using assms(2) by (auto simp: filter_empty_conv)
  then show ?thesis using assms(1) by (simp add: map_of_expire expire_group_def Let_def after_removal_generation)
qed

text \<open>
  C11. A change of membership fences off everybody who has not heard of it. After a member
  joined, a member left, or the reaper expired one, a commit or heartbeat that carries the
  group's former generation is refused and changes nothing.
\<close>

theorem membership_change_fences_stale:
  assumes "map_of (gc_groups gc) gid = Some g"
    and "(\<exists>now r timeout topics strategy. gc' = snd (join tm now r gid [] timeout topics strategy gc) \<and>
            jr_error_code (fst (join tm now r gid [] timeout topics strategy gc)) = 0) \<or>
         (\<exists>n. gc' = snd (leave tm gid n gc) \<and> snd (fst (leave tm gid n gc)) = 0) \<or>
         (\<exists>now. gc' = snd (expire_members tm now gc) \<and> (\<exists>(n, nd) \<in> set (g_members g). is_expired now nd))"
    and "m \<noteq> [] \<or> g_generation g \<noteq> 0xFFFFFFFF"
  shows "(\<exists>r. commit w now_ms now fs tm s gc' gid m (g_generation g) es = Some (r, s, tm, fs) \<and> snd r \<noteq> 0) \<and>
    (\<exists>r. heartbeat now gid m (g_generation g) gc' = (r, gc') \<and> snd r \<noteq> 0)"
proof -
  have "\<exists>g'. map_of (gc_groups gc') gid = Some g' \<and> g_generation g' = g_generation g + 1"
    using assms(2) by (elim disjE exE conjE)
      (simp_all add: join_generation [OF assms(1)] leave_generation [OF assms(1)] expire_generation [OF assms(1)])
  then obtain g' where g': "map_of (gc_groups gc') gid = Some g'" "g_generation g \<noteq> g_generation g'" by auto
  show ?thesis using commit_stale [OF g' assms(3)] heartbeat_stale [OF g'] by blast
qed

theorem membership_change_fences_stale_witness:
  "\<exists>r. heartbeat 0 ''g'' ''g-00000001-beef'' 1 (snd (leave sample_tm ''g'' ''g-00000001-beef'' sample_coord)) =
     (r, snd (leave sample_tm ''g'' ''g-00000001-beef'' sample_coord)) \<and> snd r \<noteq> 0"
proof -
  let ?m = "''g-00000001-beef''"
  obtain g where g: "map_of (gc_groups sample_coord) ''g'' = Some g" "g_generation g = 1" by (simp add: sample_coord_eq)
  have l: "snd (fst (leave sample_tm ''g'' ?m sample_coord)) = 0" by (simp add: leave_def sample_coord_eq)
  have "\<exists>r. heartbeat 0 ''g'' ?m (g_generation g) (snd (leave sample_tm ''g'' ?m sample_coord)) =
     (r, snd (leave sample_tm ''g'' ?m sample_coord)) \<and> snd r \<noteq> 0"
    by (rule membership_change_fences_stale [OF g(1), THEN conjunct2]) (use l in blast, simp)
  then show ?thesis by (simp only: g(2))
qed


section \<open>Expiry\<close>

lemma less_div_iff_int: "0 < c \<Longrightarrow> k < d div c \<longleftrightarrow> (k + 1) * c \<le> d" for c k d :: int
proof
  assume c: "0 < c" and "k < d div c"
  then have "(k + 1) * c \<le> d div c * c" by (intro mult_right_mono) linarith+
  also have "\<dots> \<le> d" using c div_mult_mod_eq [of d c] pos_mod_sign [of c d] by linarith
  finally show "(k + 1) * c \<le> d" .
next
  assume c: "0 < c" and "(k + 1) * c \<le> d"
  then have "(k + 1) * c div c \<le> d div c" by (intro zdiv_mono1)
  then show "k < d div c" using c by simp
qed

lemma is_expired_iff:
  "is_expired now md \<longleftrightarrow> mm_last_heartbeat md + (int (unat (mm_session_timeout_ms md)) + 1) * 1000000 \<le> now"
proof -
  have neg: "\<not> int n < - (- d div 1000000)" "\<not> (int n + 1) * 1000000 \<le> d" if "d < 0" for d n
  proof -
    have "- d div 1000000 \<ge> 0" using that by (simp add: pos_imp_zdiv_nonneg_iff)
    then show "\<not> int n < - (- d div 1000000)" by linarith
    have "(int n + 1) * 1000000 \<ge> 0" by simp
    then show "\<not> (int n + 1) * 1000000 \<le> d" using that by linarith
  qed
  show ?thesis
  proof (cases "now - mm_last_heartbeat md \<ge> 0")
    case True
    then show ?thesis by (simp add: is_expired_def duration_ms_def less_div_iff_int le_diff_eq add.commute)
  next
    case False
    then show ?thesis
      using neg [of "now - mm_last_heartbeat md" "unat (mm_session_timeout_ms md)"]
      by (simp only: is_expired_def duration_ms_def if_False not_le le_diff_eq add.commute) simp
  qed
qed

lemma expire_group_members:
  assumes "distinct (map fst (g_members g))"
  shows "map fst (g_members (fst (expire_group tm now g))) = map fst (filter (\<lambda>(m, md). \<not> is_expired now md) (g_members g))"
proof -
  let ?ids = "map fst (filter (\<lambda>(m, md). is_expired now md) (g_members g))"
  have del: "foldl (\<lambda>ms i. AList.delete i ms) ms ids = filter (\<lambda>p. fst p \<notin> set ids) ms" for ms :: "(string \<times> MemberMetadata) list" and ids
    by (induction ids arbitrary: ms) (auto simp: AList.delete_eq intro!: filter_cong)
  have "md = md'" if "(m, md) \<in> set (g_members g)" "(m, md') \<in> set (g_members g)" for m md md'
    using that assms by (metis eq_key_imp_eq_value)
  then have f: "filter (\<lambda>p. fst p \<notin> set ?ids) (g_members g) = filter (\<lambda>(m, md). \<not> is_expired now md) (g_members g)"
    by (intro filter_cong) (auto simp: image_iff, blast)
  have keys: "map fst (g_members (after_removal tm h)) = map fst (g_members h)" for h
    by (simp add: after_removal_def Let_def)
  show ?thesis
  proof (cases "?ids = []")
    case True
    then have "filter (\<lambda>(m, md). \<not> is_expired now md) (g_members g) = g_members g"
      by (auto simp: filter_id_conv filter_empty_conv)
    then show ?thesis using True by (simp add: expire_group_def Let_def)
  next
    case False
    then show ?thesis by (simp only: expire_group_def Let_def if_False fst_conv keys del f) simp
  qed
qed

text \<open>
  C25. The reaper is exact. A pass at time \<open>now\<close> (in nanoseconds) removes from a group the
  members whose last heartbeat is at least one millisecond more than their session timeout ago,
  and nobody else; the generation changes exactly when somebody was removed.
\<close>

theorem reaper_removes_exactly_the_silent:
  assumes "coord_inv tm gc" "map_of (gc_groups gc) gid = Some g"
  shows "\<exists>g'. map_of (gc_groups (snd (expire_members tm now gc))) gid = Some g' \<and>
    map fst (g_members g') = map fst (filter (\<lambda>(m, md).
      now < mm_last_heartbeat md + (int (unat (mm_session_timeout_ms md)) + 1) * 1000000) (g_members g)) \<and>
    (g_generation g' = g_generation g \<longleftrightarrow> (\<forall>(m, md) \<in> set (g_members g).
      now < mm_last_heartbeat md + (int (unat (mm_session_timeout_ms md)) + 1) * 1000000))"
proof -
  let ?g = "fst (expire_group tm now g)"
  have "map_of (gc_groups (snd (expire_members tm now gc))) gid = Some ?g" using assms(2) by (simp add: map_of_expire)
  moreover have "g_generation ?g = g_generation g \<longleftrightarrow> (\<forall>(m, md) \<in> set (g_members g). \<not> is_expired now md)"
    by (auto simp: expire_group_def Let_def after_removal_generation filter_empty_conv)
  ultimately show ?thesis
    using expire_group_members [OF group_invD(3) [OF coord_invD [OF assms]], of tm now]
    by (simp add: is_expired_iff not_le)
qed

theorem reaper_removes_exactly_the_silent_witness:
  "\<exists>g'. map_of (gc_groups (snd (expire_members sample_tm 5001000000 sample_coord))) ''g'' = Some g' \<and> g_members g' = [] \<and> g_generation g' \<noteq> 1"
proof -
  obtain g where g: "map_of (gc_groups sample_coord) ''g'' = Some g" "g_generation g = 1"
    "g_members g = [(''g-00000001-beef'', \<lparr> mm_member_id = ''g-00000001-beef'',
      mm_session_timeout_ms = 5000, mm_last_heartbeat = 0, mm_assignment = [TopicPartition ''a'' 0] \<rparr>)]"
    by (simp add: sample_coord_eq)
  from reaper_removes_exactly_the_silent [OF sample_coord_inv g(1), of 5001000000] show ?thesis
    by (simp add: g(2,3))
qed


end
