(* ===== verification/BrokerLaws.thy ===== *)
theory BrokerLaws
  imports MessageHandler GroupFencing
begin

text \<open>
  The broker as a state machine: any request handled at any time, with any answers of the
  operating system, and the reaper's passes. The coordinator's invariant holds in every
  reachable state, and every request that is handled gets exactly one reply with its request id.
\<close>

section \<open>Steps\<close>

text \<open>The member counter has 64 bits; a step that would issue the last id is left out.\<close>

inductive broker_step :: "Broker \<Rightarrow> Broker \<Rightarrow> bool" where
  request: "handle_request a req b = Some (resp, b') \<Longrightarrow>
    \<forall>gc. bk_coordinator b = Some gc \<longrightarrow> gc_member_counter gc \<noteq> - 1 \<Longrightarrow> broker_step b b'"
| reaper: "bk_coordinator b = Some gc \<Longrightarrow>
    broker_step b (b\<lparr> bk_coordinator := Some (snd (expire_members (bk_topic_mgr b) now gc)) \<rparr>)"

inductive broker_reachable :: "Broker \<Rightarrow> bool" where
  start: "bk_coordinator b = Some (new_GroupCoordinator cfg) \<Longrightarrow> broker_reachable b"
| step: "broker_reachable b \<Longrightarrow> broker_step b b' \<Longrightarrow> broker_reachable b'"

definition broker_inv :: "Broker \<Rightarrow> bool" where
  "broker_inv b \<longleftrightarrow> (\<forall>gc. bk_coordinator b = Some gc \<longrightarrow> coord_inv (bk_topic_mgr b) gc)"

lemma broker_inv_grows:
  "broker_inv b \<Longrightarrow> tm_grows (bk_topic_mgr b) tm \<Longrightarrow> bk_topic_mgr b' = tm \<Longrightarrow> bk_coordinator b' = bk_coordinator b \<Longrightarrow> broker_inv b'"
  by (auto simp: broker_inv_def intro: coord_inv_grows)

section \<open>The handlers\<close>

lemma choose_partition_num [simp]: "length (tc_partitions (snd (choose_partition t part key))) = length (tc_partitions t)"
  by (simp add: choose_partition_def split_beta)

lemma produce_batch_num:
  "produce_batch w now_ms fs t part recs out = Some (res, chosen, t', fs') \<Longrightarrow> tc_num_partitions t' = tc_num_partitions t"
  by (auto simp: produce_batch_def Let_def split_beta bind_eq_Some_conv tc_num_partitions_def put_partition_def split: if_splits)

lemma handle_create_topic_inv:
  "handle_create_topic a req b = Some (resp, b') \<Longrightarrow> broker_inv b \<Longrightarrow> broker_inv b'"
  by (clarsimp simp: handle_create_topic_def Let_def bind_eq_Some_conv split: option.splits if_split_asm)
     (auto split: sum.splits dest!: create_topic_grows intro: broker_inv_grows)

lemma handle_produce_inv:
  assumes "handle_produce a req b = Some (resp, b')" "broker_inv b"
  shows "broker_inv b'"
  using assms
  by (clarsimp simp: handle_produce_def Let_def bind_eq_Some_conv split: option.splits if_split_asm)
     (auto split: sum.splits dest!: produce_batch_num intro: broker_inv_grows [OF _ put_topic_grows])

lemma handle_fetch_same: "handle_fetch a req b = Some (resp, b') \<Longrightarrow> b' = b"
  by (auto simp: handle_fetch_def Let_def bind_eq_Some_conv split: option.splits if_splits)

lemma handle_reads_same:
  "handle_list_topics req b = Some (resp, b') \<Longrightarrow> b' = b"
  "handle_describe_topic req b = Some (resp, b') \<Longrightarrow> b' = b"
  "handle_fetch_offset req b = Some (resp, b') \<Longrightarrow> b' = b"
  "handle_describe_group a req b = Some (resp, b') \<Longrightarrow> b' = b"
  by (auto simp: handle_list_topics_def handle_describe_topic_def handle_fetch_offset_def handle_describe_group_def Let_def split_beta
      split: option.splits if_splits)

lemma handle_join_group_inv:
  "handle_join_group a req b = Some (resp, b') \<Longrightarrow> broker_inv b \<Longrightarrow>
     \<forall>gc. bk_coordinator b = Some gc \<longrightarrow> gc_member_counter gc \<noteq> - 1 \<Longrightarrow> broker_inv b'"
  by (auto simp: handle_join_group_def Let_def split_beta broker_inv_def split: option.splits if_splits intro: join_inv)

lemma handle_heartbeat_inv: "handle_heartbeat a req b = Some (resp, b') \<Longrightarrow> broker_inv b \<Longrightarrow> broker_inv b'"
  by (auto simp: handle_heartbeat_def Let_def split_beta broker_inv_def split: option.splits intro: heartbeat_inv)

lemma handle_leave_group_inv: "handle_leave_group req b = Some (resp, b') \<Longrightarrow> broker_inv b \<Longrightarrow> broker_inv b'"
  by (auto simp: handle_leave_group_def Let_def split_beta broker_inv_def split: option.splits intro: leave_inv)

lemma handle_commit_offset_inv: "handle_commit_offset a req b = Some (resp, b') \<Longrightarrow> broker_inv b \<Longrightarrow> broker_inv b'"
  by (auto simp: handle_commit_offset_def bind_eq_Some_conv split: option.splits dest!: commit_grows intro: broker_inv_grows)

lemma handle_request_inv:
  assumes "handle_request a req b = Some (resp, b')" "broker_inv b" "\<forall>gc. bk_coordinator b = Some gc \<longrightarrow> gc_member_counter gc \<noteq> - 1"
  shows "broker_inv b'"
  using assms(1,2) unfolding handle_request_def Let_def
  by (auto split: if_splits
      dest: handle_fetch_same handle_reads_same
      intro: handle_create_topic_inv [OF _ assms(2)] handle_produce_inv [OF _ assms(2)] handle_join_group_inv [OF _ assms(2,3)]
        handle_heartbeat_inv [OF _ assms(2)] handle_leave_group_inv [OF _ assms(2)] handle_commit_offset_inv [OF _ assms(2)])

lemma broker_reachable_inv: "broker_reachable b \<Longrightarrow> broker_inv b"
proof (induction rule: broker_reachable.induct)
  case (start b cfg)
  then show ?case by (simp add: broker_inv_def coord_inv_new)
next
  case (step b b')
  from step.hyps(2) show ?case
  proof cases
    case (request a req resp)
    then show ?thesis using handle_request_inv step.IH by blast
  next
    case (reaper gc now)
    then show ?thesis using step.IH by (simp add: broker_inv_def expire_members_inv)
  qed
qed


section \<open>Replies\<close>

definition reply_ok :: "Frame \<Rightarrow> Frame \<Rightarrow> bool" where
  "reply_ok req resp \<longleftrightarrow> fr_request_id resp = fr_request_id req \<and>
     fr_length resp = HEADER_SIZE + of_nat (length (fr_body resp)) \<and>
     (fr_type resp = fr_type req + 0x80 \<or> fr_type resp = MSG_ERROR \<and> length (fr_body resp) \<ge> 2)"

lemma reply_ok_error [simp]: "reply_ok req (error_reply req err msg)"
  by (simp add: reply_ok_def error_reply_def create_error_frame_def Let_def fc_write_u16_def)

lemma reply_ok_errors [simp]:
  "reply_ok req (reserved_error req)" "reply_ok req (unknown_topic_error req name)" "reply_ok req (status_error req st)"
  "reply_ok req (no_coordinator req)"
  by (simp_all add: reserved_error_def unknown_topic_error_def status_error_def no_coordinator_def)

lemma reply_ok_frame [simp]: "ty = fr_type req + 0x80 \<Longrightarrow> reply_ok req (reply_frame ty (fr_request_id req) body)"
  by (simp add: reply_ok_def reply_frame_def)

lemma reply_ok_plain [simp]: "ty = fr_type req + 0x80 \<Longrightarrow> reply_ok req (plain_reply req ty res)"
  by (simp add: plain_reply_def)

lemma reply_create_topic: "handle_create_topic a req b = Some (resp, b') \<Longrightarrow> fr_type req = CREATE_TOPIC \<Longrightarrow> reply_ok req resp"
  by (clarsimp simp: handle_create_topic_def Let_def bind_eq_Some_conv split: option.splits if_split_asm)
     (auto split: sum.splits simp: message_type_defs)

lemma reply_produce: "handle_produce a req b = Some (resp, b') \<Longrightarrow> fr_type req = PRODUCE \<Longrightarrow> reply_ok req resp"
  by (clarsimp simp: handle_produce_def Let_def bind_eq_Some_conv split: option.splits if_split_asm)
     (auto split: sum.splits simp: message_type_defs)

lemma reply_fetch: "handle_fetch a req b = Some (resp, b') \<Longrightarrow> fr_type req = FETCH \<Longrightarrow> reply_ok req resp"
  by (auto simp: handle_fetch_def Let_def bind_eq_Some_conv message_type_defs split: option.splits if_splits)

lemma reply_topics:
  "handle_list_topics req b = Some (resp, b') \<Longrightarrow> fr_type req = LIST_TOPICS \<Longrightarrow> reply_ok req resp"
  "handle_describe_topic req b = Some (resp, b') \<Longrightarrow> fr_type req = DESCRIBE_TOPIC \<Longrightarrow> reply_ok req resp"
  by (auto simp: handle_list_topics_def handle_describe_topic_def Let_def message_type_defs split: option.splits if_splits)

lemma reply_join_group: "handle_join_group a req b = Some (resp, b') \<Longrightarrow> fr_type req = JOIN_GROUP \<Longrightarrow> reply_ok req resp"
  by (auto simp: handle_join_group_def Let_def split_beta message_type_defs split: option.splits if_splits)

lemma reply_members:
  "handle_heartbeat a req b = Some (resp, b') \<Longrightarrow> fr_type req = HEARTBEAT \<Longrightarrow> reply_ok req resp"
  "handle_leave_group req b = Some (resp, b') \<Longrightarrow> fr_type req = LEAVE_GROUP \<Longrightarrow> reply_ok req resp"
  by (auto simp: handle_heartbeat_def handle_leave_group_def Let_def split_beta message_type_defs split: option.splits)

lemma reply_offsets:
  "handle_commit_offset a req b = Some (resp, b') \<Longrightarrow> fr_type req = COMMIT_OFFSET \<Longrightarrow> reply_ok req resp"
  "handle_fetch_offset req b = Some (resp, b') \<Longrightarrow> fr_type req = FETCH_OFFSET \<Longrightarrow> reply_ok req resp"
  "handle_describe_group a req b = Some (resp, b') \<Longrightarrow> fr_type req = DESCRIBE_GROUP \<Longrightarrow> reply_ok req resp"
  by (auto simp: handle_commit_offset_def handle_fetch_offset_def handle_describe_group_def bind_eq_Some_conv Let_def split_beta
      message_type_defs split: option.splits if_splits)

lemmas handler_replies = reply_create_topic reply_produce reply_fetch reply_topics reply_join_group reply_members reply_offsets

lemma handle_request_reply: "handle_request a req b = Some (resp, b') \<Longrightarrow> reply_ok req resp"
  unfolding handle_request_def Let_def
  by (auto split: if_splits intro: handler_replies)
    (simp_all add: reply_ok_def create_pong_frame_def create_echo_reply_frame_def default_Frame_def message_type_defs)

text \<open>
  C24. Every request gets one reply of the right type. The reply carries the request's id, its
  length field is the length of its body plus the header, and its type is the request's type with
  the top bit set or an error frame with an error code.
\<close>

theorem replies_match_requests:
  assumes "handle_request a req b = Some (resp, b')"
  shows "fr_request_id resp = fr_request_id req \<and> fr_length resp = HEADER_SIZE + of_nat (length (fr_body resp)) \<and>
    (fr_type resp = fr_type req + 0x80 \<or> fr_type resp = MSG_ERROR \<and> length (fr_body resp) \<ge> 2)"
  using handle_request_reply [OF assms] by (simp add: reply_ok_def)

theorem replies_match_requests_witness:
  "fr_type (create_echo_reply_frame 9 [1, 2]) = ECHO + 0x80 \<or> fr_type (create_echo_reply_frame 9 [1, 2]) = MSG_ERROR"
proof -
  let ?a = "\<lparr> am_os = ideal_os, am_now_ms = 0, am_now = 0, am_rand = 0 \<rparr>"
  let ?b = "\<lparr> bk_fs = \<lparr> fs_files = [], fs_dirs = [] \<rparr>, bk_topic_mgr = sample_tm, bk_offset_store = new_OffsetStore, bk_coordinator = None \<rparr>"
  have h: "handle_request ?a \<lparr> fr_length = 7, fr_type = ECHO, fr_request_id = 9, fr_body = [1, 2] \<rparr> ?b = Some (create_echo_reply_frame 9 [1, 2], ?b)"
    by (simp add: handle_request_def message_type_defs)
  from replies_match_requests [OF h] show ?thesis by auto
qed
text \<open>
  C3. Exclusive ownership is an invariant of the broker. In every state the broker reaches by
  handling requests (of any kind, in any order, with any answers of the operating system) and by
  passes of the reaper, the coordinator's own consistency check succeeds for every group without
  repeated topics: each partition of each subscribed topic has exactly one owner. Groups and
  members stay within the configured limits.
\<close>

theorem ownership_invariant:
  assumes "broker_reachable b" "bk_coordinator b = Some gc"
    and "\<forall>name t. get_topic (bk_topic_mgr b) name = Some t \<longrightarrow> unat (tc_num_partitions t) < 65536"
    and "\<forall>g. map_of (gc_groups gc) gid = Some g \<longrightarrow> distinct (g_subscribed_topics g)"
  shows "debug_check_invariants (bk_topic_mgr b) gid gc = Some True \<and>
    length (gc_groups gc) \<le> cc_max_groups (gc_config gc) \<and>
    (\<forall>g. map_of (gc_groups gc) gid = Some g \<longrightarrow> length (g_members g) \<le> cc_max_members_per_group (gc_config gc))"
proof -
  have inv: "coord_inv (bk_topic_mgr b) gc" using broker_reachable_inv [OF assms(1)] assms(2) by (simp add: broker_inv_def)
  then show ?thesis
    using debug_check_holds [OF inv, of gid] assms(3,4) group_invD(6) [OF coord_invD [OF inv]]
    by (auto simp: coord_inv_def)
qed

text \<open>A broker that handled one request to join a group.\<close>

definition sample_join :: JoinGroupRequest where
  "sample_join = \<lparr> jq_group_id = ''g'', jq_member_id = [], jq_session_timeout_ms = 5000, jq_strategy = 0, jq_topic_count = 1, jq_topics = [''a''] \<rparr>"

definition sample_broker :: Broker where
  "sample_broker = \<lparr> bk_fs = \<lparr> fs_files = [], fs_dirs = [] \<rparr>, bk_topic_mgr = sample_tm, bk_offset_store = new_OffsetStore,
     bk_coordinator = Some sample_coord \<rparr>"

lemma sample_broker_reachable: "broker_reachable sample_broker"
proof -
  let ?a = "\<lparr> am_os = ideal_os, am_now_ms = 0, am_now = 0, am_rand = 0xBEEF \<rparr>"
  let ?b = "sample_broker\<lparr> bk_coordinator := Some (new_GroupCoordinator default_CoordinatorConfig) \<rparr>"
  let ?req = "reply_frame JOIN_GROUP 1 (encode_JoinGroupRequest sample_join [])"
  have d: "decode_JoinGroupRequest (make_BodyReader (encode_JoinGroupRequest sample_join [])) = Some sample_join"
    by (rule m_join.roundtrip) (simp add: valid_JoinGroupRequest_def sample_join_def)
  have "\<exists>resp. handle_join_group ?a ?req ?b = Some (resp, sample_broker)"
    by (simp add: handle_join_group_def sample_broker_def reply_frame_def d Let_def split_beta sample_coord_def)
       (simp add: sample_join_def)
  then have "\<exists>resp. handle_request ?a ?req ?b = Some (resp, sample_broker)"
    by (simp add: handle_request_def Let_def reply_frame_def message_type_defs)
  then show ?thesis
    by (elim exE, intro broker_reachable.step [OF broker_reachable.start broker_step.request, of ?b])
       (simp_all add: new_GroupCoordinator_def)
qed

theorem ownership_invariant_witness:
  "debug_check_invariants sample_tm ''g'' sample_coord = Some True"
proof -
  have n: "tc_num_partitions (make_Topic ''a'' 1 [''data'', ''a''] default_StorageConfig 0 0) = 1"
    by (simp add: tc_num_partitions_def make_Topic_def)
  have "debug_check_invariants (bk_topic_mgr sample_broker) ''g'' sample_coord = Some True"
    by (rule ownership_invariant [OF sample_broker_reachable, THEN conjunct1])
       (auto simp: sample_broker_def sample_tm_def get_topic_def sample_coord_eq n split: if_splits)
  then show ?thesis by (simp add: sample_broker_def)
qed

end
