(* ===== verification/TopicLaws.thy ===== *)
theory TopicLaws
  imports TopicManager
begin

text \<open>
  What \<^verbatim>\<open>TopicManager::create_topic\<close> leaves behind: partitions that represent empty logs, in directories of
  their own, and a metadata file from which a restart reads the same settings.
\<close>

section \<open>Numbers in text\<close>

lemma to_string_scan [simp]:
  "dropWhile is_blank (to_string n) = to_string n" "hd (to_string n) \<noteq> CHR ''-''" "hd (to_string n) \<noteq> CHR ''+''"
  "takeWhile is_digit (to_string n) = to_string n"
proof -
  have d: "is_digit (hd (to_string n))" by (rule to_string_digits [of _ n]) simp
  then show "hd (to_string n) \<noteq> CHR ''-''" "hd (to_string n) \<noteq> CHR ''+''" using digit_not_blank by auto
  show "dropWhile is_blank (to_string n) = to_string n" using digit_not_blank [OF d] by (cases "to_string n") auto
  show "takeWhile is_digit (to_string n) = to_string n" using to_string_digits by (simp add: takeWhile_eq_all_conv)
qed

lemma stoul_to_string: "n < 2 ^ 32 \<Longrightarrow> stoul (to_string n) = Some (of_nat n, length (to_string n))"
  by (simp add: stoul_def Let_def digits_val_to_string)

lemma stoull_to_string: "n < 2 ^ 64 \<Longrightarrow> stoull (to_string n) = Some (of_nat n)"
  by (simp add: stoull_def Let_def digits_val_to_string)

lemma stoul_unat: "\<exists>k. stoul (to_string (unat (x :: u32))) = Some (x, k)"
  using stoul_to_string [of "unat x"] by auto

lemma stoull_unat: "stoull (to_string (unat (x :: u64))) = Some x"
  using stoull_to_string [of "unat x"] by simp

lemma to_string_inj: "to_string m = to_string n \<Longrightarrow> m = n"
  by (metis digits_val_to_string)

section \<open>Metadata\<close>

lemma split_lines_NL: "NL \<notin> set l \<Longrightarrow> split_lines acc (l @ NL # rest) = (acc @ l) # split_lines [] rest"
  by (induction l arbitrary: acc) auto

lemma NL_not_digit: "NL \<notin> set (to_string n)" "NL \<notin> set (to_string_int i)"
proof -
  have d: "NL \<notin> set (to_string n)" for n
  proof
    assume "NL \<in> set (to_string n)"
    then show False using to_string_digits [of NL n] by (simp add: NL_def is_digit_def)
  qed
  then show "NL \<notin> set (to_string n)" "NL \<notin> set (to_string_int i)"
    by (auto simp: to_string_int_def) (simp_all add: NL_def)
qed

lemma meta_line_values:
  "meta_line (parts, rms, rb) (''partitions='' @ to_string (unat n)) = (n, rms, rb)"
  "meta_line (parts, rms, rb) (''created_ms='' @ txt) = (parts, rms, rb)"
  "meta_line (parts, rms, rb) (''retention_ms='' @ to_string (unat m)) = (parts, m, rb)"
  "meta_line (parts, rms, rb) (''retention_bytes='' @ to_string (unat b)) = (parts, rms, b)"
  using stoul_unat [of n] by (auto simp: meta_line_def Let_def stoull_unat)

lemma meta_text_lines:
  "split_lines [] (meta_text t now) =
     [''partitions='' @ to_string (unat (tc_num_partitions t)), ''created_ms='' @ to_string_int (sint now),
      ''retention_ms='' @ to_string (unat (tc_retention_ms t)), ''retention_bytes='' @ to_string (unat (tc_retention_bytes t))]"
proof -
  have l: "split_lines [] ((key @ val) @ NL # rest) = (key @ val) # split_lines [] rest" if "NL \<notin> set key" "NL \<notin> set val" for key val rest
    using split_lines_NL [of "key @ val" "[]" rest] that by simp
  have k: "NL \<notin> set ''partitions=''" "NL \<notin> set ''created_ms=''" "NL \<notin> set ''retention_ms=''" "NL \<notin> set ''retention_bytes=''"
    by (simp_all add: NL_def)
  have e: "meta_text t now = (''partitions='' @ to_string (unat (tc_num_partitions t))) @ NL #
      ((''created_ms='' @ to_string_int (sint now)) @ NL # ((''retention_ms='' @ to_string (unat (tc_retention_ms t))) @ NL #
      ((''retention_bytes='' @ to_string (unat (tc_retention_bytes t))) @ NL # [])))"
    by (simp add: meta_text_def)
  show ?thesis
    unfolding e l [OF k(1) NL_not_digit(1)] l [OF k(2) NL_not_digit(2)] l [OF k(3) NL_not_digit(1)] l [OF k(4) NL_not_digit(1)] by simp
qed

lemma metadata_roundtrip:
  assumes w: "reliable w" and n: "tc_num_partitions t \<noteq> 0" and save: "save_topic_metadata w now fs t = (st, fs')"
  shows "ok st" "load_topic_metadata w fs' tm (tc_dir t) out = (Status_OK, tc_num_partitions t, tc_retention_ms t, tc_retention_bytes t)"
proof -
  have c: "os_CreateFileW w f p" for f p using w by (simp add: reliable_def)
  have s: "st = Status_OK" "fs' = put_file fs (meta_path (tc_dir t)) \<lparr> f_data = bytes_of_chars (meta_text t now), f_synced = 0 \<rparr>"
    using save by (auto simp: save_topic_metadata_def c Let_def)
  then show "ok st" by simp
  show "load_topic_metadata w fs' tm (tc_dir t) out = (Status_OK, tc_num_partitions t, tc_retention_ms t, tc_retention_bytes t)"
    using n by (simp add: load_topic_metadata_def c s(2) Let_def meta_text_lines meta_line_values [simplified])
qed

section \<open>Fresh partitions\<close>

text \<open>Nothing changes outside the given directories, but they and the directories above them may be made.\<close>

definition grown :: "path set \<Rightarrow> filesys \<Rightarrow> filesys \<Rightarrow> bool" where
  "grown D fs fs' \<longleftrightarrow>
     (\<forall>dir x. dir \<notin> D \<longrightarrow> get_file fs' (dir @ [x]) = get_file fs (dir @ [x]) \<and> fexists fs' (dir @ [x]) = fexists fs (dir @ [x])) \<and>
     set (fs_dirs fs) \<subseteq> set (fs_dirs fs') \<and> (\<forall>q \<in> set (fs_dirs fs'). q \<in> set (fs_dirs fs) \<or> (\<exists>d \<in> D. \<exists>n. q = take n d))"

lemma grown_refl [simp]: "grown D fs fs"
  by (simp add: grown_def)

lemma grown_trans: "grown D fs fs1 \<Longrightarrow> grown E fs1 fs2 \<Longrightarrow> grown (D \<union> E) fs fs2"
  unfolding grown_def by (simp add: subset_iff) blast

lemma grown_create_directories: "grown {d} fs (create_directories fs d)"
  by (auto simp: grown_def create_directories_def get_file_def fexists_def simp del: upt_Suc)

lemma grown_put_file: "grown {d} fs (put_file fs (d @ [x]) f)"
  by (auto simp: grown_def put_file_def get_file_def fexists_def update_conv)

lemma same_outside_grown: "same_outside {log_path s, index_path s} fs fs' \<Longrightarrow> grown {m_partition_dir s} fs fs'"
  by (auto simp: grown_def same_outside_def seg_paths)

lemma part_rep_grown:
  assumes rep: "part_rep fs P rss" and g: "grown D fs fs'" and out: "p_dir P \<notin> D" "\<forall>d \<in> D. length d \<le> length (p_dir P)"
  shows "part_rep fs' P rss"
proof -
  have segs: "segs_rep fs (p_dir P) (unat (earliest_offset P)) (p_segments P) rss" and ready: "dir_ready fs (p_dir P)"
    using rep by (simp_all add: part_rep_def)
  have "segs_rep fs' (p_dir P) (unat (earliest_offset P)) (p_segments P) rss"
    by (rule segs_rep_get_file_cong [OF segs])
       (use segs_rep_distinct(2) [OF segs] g out in \<open>simp add: grown_def seg_paths\<close>)
  moreover have "dir_ready fs' (p_dir P)"
  proof -
    have "p_dir P @ [x] \<noteq> take n d" if "d \<in> D" for x n d
    proof
      assume "p_dir P @ [x] = take n d"
      then have "length (p_dir P @ [x]) \<le> length d" by simp
      then show False using out(2) that by fastforce
    qed
    then show ?thesis using ready g unfolding dir_ready_def grown_def by blast
  qed
  ultimately show ?thesis using rep g out by (simp add: part_rep_def only_files_def grown_def)
qed

abbreviation no_files :: "filesys \<Rightarrow> path \<Rightarrow> bool" where
  "no_files fs dir \<equiv> \<forall>x. \<not> fexists fs (dir @ [x]) \<and> dir @ [x] \<notin> set (fs_dirs fs)"

lemma no_files_grown:
  assumes "no_files fs dir" "grown D fs fs'" "dir \<notin> D" "\<forall>d \<in> D. length d \<le> length dir"
  shows "no_files fs' dir"
proof -
  have "dir @ [x] \<noteq> take n d" if "d \<in> D" for x n d
  proof
    assume "dir @ [x] = take n d"
    then have "length (dir @ [x]) \<le> length d" by simp
    then show False using assms(4) that by fastforce
  qed
  then show ?thesis using assms(1-3) unfolding grown_def by blast
qed

lemma find_base_offsets_none: "\<forall>x. \<not> fexists fs (dir @ [x]) \<Longrightarrow> find_base_offsets fs dir = [0]"
proof -
  assume n: "\<forall>x. \<not> fexists fs (dir @ [x])"
  have "p \<notin> set (map fst (fs_files fs))" if "p \<noteq> []" "butlast p = dir" for p
  proof
    assume "p \<in> set (map fst (fs_files fs))"
    then have "fexists fs p" by (force simp: fexists_def map_of_eq_None_iff)
    then show False using n that append_butlast_last_id [OF that(1)] by metis
  qed
  then have "dir_files fs dir = []" by (auto simp: dir_files_def filter_empty_conv)
  then show ?thesis by (simp add: find_base_offsets_def)
qed

lemma open_fresh_partition:
  assumes w: "reliable w" and no: "no_files fs dir"
  shows "\<exists>P fs'. open_and_recover w fs (make_Partition i dir cfg) = Some (Status_OK, P, fs') \<and>
    part_rep fs' P [[]] \<and> part_meta P [[]] \<and> p_dir P = dir \<and> p_config P = cfg \<and> p_id P = i \<and>
    p_next_offset P = 0 \<and> earliest_offset P = 0 \<and> grown {dir} fs fs'"
proof -
  let ?fs0 = "create_directories fs dir" and ?P = "make_Partition i dir cfg"
  have ready: "dir_ready ?fs0 dir" using no by (intro dir_ready_create) simp
  have only: "only_files ?fs0 dir {} {}" using no by (simp add: only_files_def)
  obtain s fs1 where s: "seg_open w ?fs0 (make_LogSegment 0 dir (index_interval_bytes cfg)) = Some (Status_OK, s, fs1)"
      "seg_rep fs1 s []" "m_base_offset s = 0" "m_partition_dir s = dir" "\<not> m_is_sealed s"
      "same_outside {log_path s, index_path s} ?fs0 fs1" "\<not> fexists ?fs0 (sealed_path s)"
    using seg_open_fresh [OF w ready only, of 0 "index_interval_bytes cfg"] by auto
  have "\<exists>s' fs'. recover_and_rebuild_index w fs1 s = Some (Status_OK, m_base_offset s + of_nat (length ([] :: Record list)), s', fs') \<and>
      seg_rep fs' s' [] \<and> seg_meta s' [] \<and> same_seg s s' \<and> m_is_sealed s' = m_is_sealed s \<and> same_outside {log_path s, index_path s} fs1 fs'"
    by (rule recover_rep [OF w, where tail = "[]"])
       (use s(2) in \<open>simp_all add: seg_rep_def seg_opened_def records_ok_def offsets_from_def first_record_def\<close>)
  then obtain s' fs2 where s': "recover_and_rebuild_index w fs1 s = Some (Status_OK, 0, s', fs2)" "seg_rep fs2 s' []" "seg_meta s' []"
      "same_seg s s'" "\<not> m_is_sealed s'" "same_outside {log_path s, index_path s} fs1 fs2"
    using s(3,5) by auto
  define P where "P = ?P\<lparr> p_next_offset := 0, p_segments := [s'] \<rparr>"
  have out: "same_outside {log_path s, index_path s} ?fs0 fs2" using same_outside_trans [OF s(6) s'(6)] by simp
  have b: "m_base_offset s' = 0" "m_partition_dir s' = dir" using s' s by (simp_all add: same_seg_def)
  have "open_and_recover w fs ?P = Some (Status_OK, P, fs2)"
    using s(1) s'(1) no b(1) by (simp add: open_and_recover_def make_Partition_def P_def Let_def find_base_offsets_none)
  moreover have "only_files fs2 dir {0} {}"
    using only_files_frame [of ?fs0 s "{}" "{}" fs2 "{0}" "{}"] only s(3,4) same_outside_mono [OF out]
      same_outsideD(2) [OF out, of "sealed_path s"] by (simp add: seg_paths)
  moreover have "dir_ready fs2 dir" using ready out by (simp add: same_outside_def dir_ready_def)
  moreover have "grown {dir} fs fs2"
    using grown_trans [OF grown_create_directories same_outside_grown [OF out]] s(4) by simp
  ultimately show ?thesis
    using s' out b s(4) by (intro exI [of _ P] exI [of _ fs2])
      (simp add: part_rep_def part_meta_def P_def make_Partition_def earliest_offset_def)
qed


section \<open>Fresh topics\<close>

text \<open>A partition that has been opened on an empty directory.\<close>

definition empty_part :: "filesys \<Rightarrow> Partition \<Rightarrow> Partition \<Rightarrow> bool" where
  "empty_part fs P0 P \<longleftrightarrow> part_rep fs P [[]] \<and> part_meta P [[]] \<and> p_dir P = p_dir P0 \<and> p_config P = p_config P0 \<and> p_id P = p_id P0 \<and>
     p_next_offset P = 0 \<and> earliest_offset P = 0"

lemma empty_part_grown:
  "empty_part fs P0 P \<Longrightarrow> grown D fs fs' \<Longrightarrow> p_dir P0 \<notin> D \<Longrightarrow> \<forall>d \<in> D. length d \<le> length (p_dir P0) \<Longrightarrow> empty_part fs' P0 P"
  by (auto simp: empty_part_def intro: part_rep_grown)

lemma open_partitions_fresh:
  assumes w: "reliable w"
  shows "\<forall>P \<in> set ps. P = make_Partition (p_id P) (p_dir P) cfg \<and> length (p_dir P) = L \<and> no_files fs (p_dir P) \<Longrightarrow>
    distinct (map p_dir ps) \<Longrightarrow>
    \<exists>ps' fs'. open_partitions w fs ps = Some (Status_OK, ps', fs') \<and> list_all2 (empty_part fs') ps ps' \<and> grown (p_dir ` set ps) fs fs'"
proof (induction ps arbitrary: fs)
  case (Cons P ps)
  have P: "P = make_Partition (p_id P) (p_dir P) cfg" "no_files fs (p_dir P)" "length (p_dir P) = L" using Cons.prems(1) by auto
  obtain P1 fs1 where o: "open_and_recover w fs P = Some (Status_OK, P1, fs1)" "empty_part fs1 P P1" "grown {p_dir P} fs fs1"
    using open_fresh_partition [OF w P(2), of "p_id P" cfg] unfolding P(1) [symmetric]
    by (auto simp: empty_part_def) (metis P(1) make_Partition_def Partition.select_convs(3))
  have "\<forall>Q \<in> set ps. Q = make_Partition (p_id Q) (p_dir Q) cfg \<and> length (p_dir Q) = L \<and> no_files fs1 (p_dir Q)"
  proof (intro ballI conjI)
    fix Q
    assume Q: "Q \<in> set ps"
    then show "Q = make_Partition (p_id Q) (p_dir Q) cfg" "length (p_dir Q) = L" using Cons.prems(1) by auto
    have "p_dir Q \<noteq> p_dir P" using Q Cons.prems(2) by (auto simp: image_iff)
    then show "no_files fs1 (p_dir Q)" using no_files_grown [OF _ o(3), of "p_dir Q"] Q Cons.prems(1) P(3) by simp
  qed
  then obtain ps' fs' where r: "open_partitions w fs1 ps = Some (Status_OK, ps', fs')" "list_all2 (empty_part fs') ps ps'"
      "grown (p_dir ` set ps) fs1 fs'"
    using Cons.IH [of fs1] Cons.prems(2) by auto
  have "empty_part fs' P P1"
    by (rule empty_part_grown [OF o(2) r(3)]) (use Cons.prems P(3) in auto)
  then show ?case using o(1) r grown_trans [OF o(3) r(3)] by simp
qed simp

lemma fresh_topic:
  assumes w: "reliable w" and no: "\<forall>i < unat n. no_files fs (dir @ [to_string i])"
    and t0_def: "t0 = make_Topic name n dir cfg rms rb"
  shows "\<exists>t fs'. topic_open_and_recover w fs t0 = Some (Status_OK, t, fs') \<and>
    tc_name t = name \<and> tc_dir t = dir \<and> tc_retention_ms t = rms \<and> tc_retention_bytes t = rb \<and>
    length (tc_partitions t) = unat n \<and>
    (\<forall>i < unat n. empty_part fs' (make_Partition (of_nat i) (dir @ [to_string i]) cfg) (tc_partitions t ! i)) \<and>
    grown (insert dir ((\<lambda>i. dir @ [to_string i]) ` {..<unat n})) fs fs'"
proof -
  let ?fs0 = "create_directories fs dir" and ?ps = "map (\<lambda>i. make_Partition (of_nat i) (dir @ [to_string i]) cfg) [0..<unat n]"
  have t0: "tc_dir t0 = dir" "tc_partitions t0 = ?ps" by (simp_all add: t0_def make_Topic_def)
  have sel: "p_id (make_Partition i d c) = i" "p_dir (make_Partition i d c) = d" "p_config (make_Partition i d c) = c" for i d c
    by (simp_all add: make_Partition_def)
  have "no_files ?fs0 (dir @ [to_string i])" if "i < unat n" for i
    by (rule no_files_grown [OF _ grown_create_directories]) (use no that in simp_all)
  then have "\<forall>P \<in> set ?ps. P = make_Partition (p_id P) (p_dir P) cfg \<and> length (p_dir P) = Suc (length dir) \<and> no_files ?fs0 (p_dir P)"
    by (auto simp: sel)
  moreover have "distinct (map p_dir ?ps)" by (auto simp: distinct_map inj_on_def sel o_def dest: to_string_inj)
  ultimately obtain ps' fs' where o: "open_partitions w ?fs0 ?ps = Some (Status_OK, ps', fs')" "list_all2 (empty_part fs') ?ps ps'"
      "grown (p_dir ` set ?ps) ?fs0 fs'"
    using open_partitions_fresh [OF w, of ?ps cfg "Suc (length dir)" ?fs0] by blast
  have "p_dir ` set ?ps = (\<lambda>i. dir @ [to_string i]) ` {..<unat n}" by (auto simp: sel image_iff atLeast0LessThan)
  then have g: "grown (insert dir ((\<lambda>i. dir @ [to_string i]) ` {..<unat n})) fs fs'"
    using grown_trans [OF grown_create_directories o(3)] by simp
  have "topic_open_and_recover w fs t0 = Some (Status_OK, t0\<lparr> tc_partitions := ps' \<rparr>, fs')"
    using o(1) by (simp add: topic_open_and_recover_def t0 Let_def)
  then show ?thesis using o(2) g by (auto simp: list_all2_conv_all_nth t0_def make_Topic_def)
qed


lemma create_topic_fresh:
  assumes "reliable w" "validate_topic_name name = None" "1 \<le> n" "n \<le> 64" "get_topic tm name = None"
    and dir: "dir = base_path tm @ [name]" "\<not> fs_exists fs (meta_path dir)" "\<forall>i < unat n. no_files fs (dir @ [to_string i])"
  shows "\<exists>t tm' fs'. create_topic w now fs tm name n rms rb = Some (Inr t, tm', fs') \<and>
    get_topic tm' name = Some t \<and> (\<forall>other. other \<noteq> name \<longrightarrow> get_topic tm' other = get_topic tm other) \<and>
    tc_name t = name \<and> tc_num_partitions t = n \<and>
    (\<forall>p < n. \<exists>P. get_partition t p = Some P \<and> part_rep fs' P [[]] \<and> p_next_offset P = 0 \<and> p_dir P = dir @ [to_string (unat p)]) \<and>
    (\<forall>Q rss. part_rep fs Q rss \<and> length (p_dir Q) > length dir \<and> butlast (p_dir Q) \<noteq> dir \<longrightarrow> part_rep fs' Q rss) \<and>
    load_topic_metadata w fs' tm' dir out =
      (Status_OK, n, (if rms = 0 then default_retention_ms (tm_config tm) else rms), (if rb = 0 then default_retention_bytes (tm_config tm) else rb)) \<and>
    fexists fs' (meta_path dir) \<and> f_synced (get_file fs' (meta_path dir)) = 0 \<and>
    grown (insert dir ((\<lambda>i. dir @ [to_string i]) ` {..<unat n})) fs fs'"
proof -
  let ?rms = "if rms = 0 then default_retention_ms (tm_config tm) else rms"
  let ?rb = "if rb = 0 then default_retention_bytes (tm_config tm) else rb"
  let ?D = "insert dir ((\<lambda>i. dir @ [to_string i]) ` {..<unat n})"
  have rb: "(if rb = 0 \<and> default_retention_bytes (tm_config tm) > 0 then default_retention_bytes (tm_config tm) else rb) = ?rb"
    by (auto simp: word_neq_0_conv [symmetric])
  obtain t fs1 where t: "topic_open_and_recover w fs (make_Topic name n dir (tm_config tm) ?rms ?rb) = Some (Status_OK, t, fs1)"
      "tc_name t = name" "tc_dir t = dir" "tc_retention_ms t = ?rms" "tc_retention_bytes t = ?rb" "length (tc_partitions t) = unat n"
      "\<forall>i < unat n. empty_part fs1 (make_Partition (of_nat i) (dir @ [to_string i]) (tm_config tm)) (tc_partitions t ! i)" "grown ?D fs fs1"
    using fresh_topic [OF assms(1) dir(3) refl, of name "tm_config tm" ?rms ?rb] by blast
  have ts: "tc_num_partitions t = n" using t(6) by (simp add: tc_num_partitions_def)
  obtain st fs2 where s: "save_topic_metadata w now fs1 t = (st, fs2)" by fastforce
  have "n \<noteq> 0" using assms(3) by auto
  note m = metadata_roundtrip [OF assms(1) _ s, unfolded ts t(3,4,5), OF this]
  have g: "grown {dir} fs1 fs2" using s t(3) by (auto simp: save_topic_metadata_def meta_path_def Let_def grown_put_file split: if_splits)
  have s': "fexists fs2 (meta_path dir)" "f_synced (get_file fs2 (meta_path dir)) = 0"
    using s m(1) t(3) by (auto simp: save_topic_metadata_def Let_def split: if_splits)
  have gg: "grown ?D fs fs2" using grown_trans [OF t(8) g] by (simp add: insert_absorb)
  let ?tm = "tm\<lparr> tm_topics := AList.update name t (tm_topics tm) \<rparr>"
  have c: "create_topic w now fs tm name n rms rb = Some (Inr t, ?tm, fs2)"
    using assms(2-5) dir(2) t(1) s m(1) unfolding create_topic_def dir(1) [symmetric] rb
    by (simp add: Let_def not_less word_le_nat_alt word_less_nat_alt)
  have p: "\<exists>P. get_partition t p = Some P \<and> part_rep fs2 P [[]] \<and> p_next_offset P = 0 \<and> p_dir P = dir @ [to_string (unat p)]" if "p < n" for p
  proof -
    have i: "unat p < unat n" using that by (simp add: word_less_nat_alt)
    then have "empty_part fs2 (make_Partition p (dir @ [to_string (unat p)]) (tm_config tm)) (tc_partitions t ! unat p)"
      using empty_part_grown [OF t(7) [rule_format, OF i] g] by (simp add: make_Partition_def)
    then show ?thesis using i t(6) by (simp add: empty_part_def get_partition_def make_Partition_def)
  qed
  have q: "part_rep fs2 Q rss" if "part_rep fs Q rss" "length (p_dir Q) > length dir" "butlast (p_dir Q) \<noteq> dir" for Q rss
  proof (rule part_rep_grown [OF that(1) grown_trans [OF t(8) g]])
    show "p_dir Q \<notin> ?D \<union> {dir}" "\<forall>d \<in> ?D \<union> {dir}. length d \<le> length (p_dir Q)" using that(2,3) by auto
  qed
  show ?thesis using c p q m(2) ts t(2) s' gg by (intro exI [of _ t] exI [of _ ?tm] exI [of _ fs2]) (simp add: get_topic_def update_conv)
qed

section \<open>Property\<close>

text \<open>
  C37. Creating a topic with a valid new name and a permitted number of partitions, where nothing is in the way on
  disk, succeeds. The topic is registered and no other one changes. Each partition represents the empty log
  from offset 0 in a directory of its own; the logs of partitions of other topics are kept; and the metadata
  file holds what a restart needs: the partition count and the retention settings, with the defaults in place of zeros.
\<close>

theorem created_topic_is_ready:
  assumes "reliable w" "validate_topic_name name = None" "1 \<le> n" "n \<le> 64" "get_topic tm name = None"
    and dir: "dir = base_path tm @ [name]" "\<not> fs_exists fs (meta_path dir)" "\<forall>i < unat n. no_files fs (dir @ [to_string i])"
  shows "\<exists>t tm' fs'. create_topic w now fs tm name n rms rb = Some (Inr t, tm', fs') \<and>
    get_topic tm' name = Some t \<and> (\<forall>other. other \<noteq> name \<longrightarrow> get_topic tm' other = get_topic tm other) \<and>
    tc_name t = name \<and> tc_num_partitions t = n \<and>
    (\<forall>p < n. \<exists>P. get_partition t p = Some P \<and> part_rep fs' P [[]] \<and> p_next_offset P = 0 \<and> p_dir P = dir @ [to_string (unat p)]) \<and>
    (\<forall>Q rss. part_rep fs Q rss \<and> length (p_dir Q) > length dir \<and> butlast (p_dir Q) \<noteq> dir \<longrightarrow> part_rep fs' Q rss) \<and>
    load_topic_metadata w fs' tm' dir out =
      (Status_OK, n, (if rms = 0 then default_retention_ms (tm_config tm) else rms), (if rb = 0 then default_retention_bytes (tm_config tm) else rb))"
  using create_topic_fresh [OF assms, of now rms rb out] by blast

theorem created_topic_is_ready_witness:
  "\<exists>t tm' fs'. create_topic ideal_os 0 \<lparr> fs_files = [], fs_dirs = [] \<rparr> (make_TopicManager default_StorageConfig) ''orders'' 2 0 0 = Some (Inr t, tm', fs') \<and>
     get_topic tm' ''orders'' = Some t \<and> tc_num_partitions t = 2 \<and>
     load_topic_metadata ideal_os fs' tm' [''./data'', ''orders''] (0, 0, 0) = (Status_OK, 2, DEFAULT_RETENTION_MS, DEFAULT_RETENTION_BYTES)"
proof -
  have v: "validate_topic_name ''orders'' = None"
    by (simp add: validate_topic_name_def is_alnum_def to_upper_def reserved_names_def)
  have "base_path (make_TopicManager default_StorageConfig) = [''./data'']" by (simp add: base_path_def make_TopicManager_def default_StorageConfig_def)
  then have d: "[''./data'', ''orders''] = base_path (make_TopicManager default_StorageConfig) @ [''orders'']" by simp
  let ?fs = "\<lparr> fs_files = [], fs_dirs = [] \<rparr>" and ?tm = "make_TopicManager default_StorageConfig"
  have h: "get_topic ?tm ''orders'' = None" "\<not> fs_exists ?fs (meta_path [''./data'', ''orders''])"
      "\<forall>i < unat (2 :: u32). no_files ?fs ([''./data'', ''orders''] @ [to_string i])"
    by (simp_all add: get_topic_def make_TopicManager_def fs_exists_def fexists_def)
  have c: "tm_config ?tm = default_StorageConfig" "default_retention_ms default_StorageConfig = DEFAULT_RETENTION_MS"
      "default_retention_bytes default_StorageConfig = DEFAULT_RETENTION_BYTES"
    by (simp_all add: make_TopicManager_def default_StorageConfig_def)
  have two: "1 \<le> (2 :: u32)" "(2 :: u32) \<le> 64" by simp_all
  show ?thesis
    using created_topic_is_ready [OF reliable_ideal_os v two h(1) d h(2,3), of 0 0 0 "(0, 0, 0)"] unfolding c by simp blast
qed

end
