(* ===== verification/OffsetLaws.thy ===== *)
theory OffsetLaws
  imports OffsetStore TopicLaws
begin

text \<open>
  Committed offsets: keys and values decode to what was encoded, the cache is the replay of the
  internal topic's log, a commit extends both, and the cache is rebuilt from the log after any
  crash. A commit under a name that the key format cannot express makes the next start fail.
\<close>

section \<open>Keys and values\<close>

lemma find_char_append: "c \<notin> set s \<Longrightarrow> find_char c (s @ c # t) = Some (length s)"
proof -
  assume "c \<notin> set s"
  then have "takeWhile (\<lambda>d. d \<noteq> c) s = s" by (auto simp: takeWhile_eq_all_conv)
  then show ?thesis using \<open>c \<notin> set s\<close> by (simp add: find_char_def takeWhile_append2 takeWhile_tail)
qed

definition plain_name :: "string \<Rightarrow> bool" where
  "plain_name s \<longleftrightarrow> s \<noteq> [] \<and> CHR ''|'' \<notin> set s"

lemma parse_make_key:
  assumes "plain_name g" "plain_name t"
  shows "parse_key (make_key g t p) = Some (g, t, p)"
proof -
  have "unat p < 2 ^ 32" by (rule less_trans [OF unat_u16_lt]) simp
  note st = stoul_to_string [OF this]
  have u: "unat (of_nat (unat p) :: u32) = unat p" by (rule unat_of_nat_u32) (rule less_trans [OF unat_u16_lt], simp)
  have "(ucast (of_nat (unat p) :: u32) :: u16) = p"
    by (rule word_unat_eq_iff [THEN iffD2]) (simp add: ucast_u16_small u)
  moreover have "\<not> 65535 < unat p" using unat_u16_lt [of p] by linarith
  ultimately show ?thesis
    using assms find_char_append [of "CHR ''|''" g "t @ ''|'' @ to_string (unat p)"] find_char_append [of "CHR ''|''" t "to_string (unat p)"]
    by (simp add: parse_key_def make_key_def plain_name_def Let_def st u)
qed

lemma decode_encode_value: "decode_value (encode_value off ts) = \<lparr> oen_offset = off, oen_timestamp_ms = ts \<rparr>"
proof -
  have "drop 4 (be32 a @ t) = t" "drop 8 (be32 a @ be32 b @ t) = t" "drop 12 (be32 a @ be32 b @ be32 c @ t) = t" for a b c t
    by (simp_all add: drop_append)
  moreover have "fc_read_u32 (be32 v) = v" for v using fc_read_be(1) [of v "[]"] by simp
  ultimately show ?thesis
    by (simp add: decode_value_def encode_value_def Let_def low_u32 u64_join)
qed

lemma length_encode_value [simp]: "length (encode_value off ts) = 16"
  by (simp add: encode_value_def)

section \<open>The cache is the replay of the log\<close>

definition loadable :: "Record \<Rightarrow> bool" where
  "loadable r \<longleftrightarrow> parse_key (chars_of_bytes (r_key r)) \<noteq> None \<and> length (r_value r) = 16"

definition replay :: "(string \<times> OffsetEntry) list \<Rightarrow> Record list \<Rightarrow> (string \<times> OffsetEntry) list" where
  "replay = foldl (\<lambda>cache r. AList.update (chars_of_bytes (r_key r)) (decode_value (r_value r)) cache)"

lemma replay_append: "replay c (xs @ ys) = replay (replay c xs) ys"
  by (simp add: replay_def)

lemma load_records_ok:
  "\<forall>r \<in> set rs. loadable r \<Longrightarrow> rs \<noteq> [] \<Longrightarrow> load_records rs cache off = Inr (replay cache rs, r_offset (last rs) + 1)"
proof (induction rs arbitrary: cache off)
  case (Cons r rs)
  then show ?case by (cases rs) (auto simp: loadable_def replay_def Let_def)
qed simp

lemma load_records_bad:
  assumes "\<not> loadable r" "r \<in> set rs"
  shows "\<exists>st c. load_records rs cache off = Inl (st, c) \<and> code st = Corrupt"
  using assms(2)
proof (induction rs arbitrary: cache off)
  case (Cons x xs)
  then show ?case using assms(1) by (auto simp: loadable_def Let_def)
qed simp

lemma part_rep_offset:
  assumes "part_rep fs P rss" "j < length (concat rss)"
  shows "unat (r_offset (concat rss ! j)) = unat (earliest_offset P) + j"
  using assms segs_rep_offsets by (auto simp: part_rep_def)

text \<open>One read of the loading loop, from offset \<open>s\<close>.\<close>

lemma load_read:
  assumes w: "reliable w" and rep: "part_rep fs P rss" and s: "earliest_offset P \<le> s" "s < p_next_offset P"
  defines "xs \<equiv> drop (unat s - unat (earliest_offset P)) (concat rss)"
  obtains n where "part_read w fs P s 1000 (1024 * 1024) = Some \<lparr> rr_records = take n xs, rr_status = Status_OK \<rparr>"
    "0 < n" "n \<le> length xs" "xs \<noteq> []" "unat (r_offset (last (take n xs)) + 1) = unat s + n"
proof -
  have len: "length xs = unat (p_next_offset P) - unat s" "unat s < unat (p_next_offset P)" "unat (earliest_offset P) \<le> unat s"
    using rep s by (auto simp: xs_def part_rep_def word_le_nat_alt word_less_nat_alt)
  then have ne: "xs \<noteq> []" by auto
  obtain m where m: "take_limit 1000 (1024 * 1024) 0 0 xs = take m xs" "0 < m" using take_limit_prefix ne by blast
  define n where "n = min m (length xs)"
  have n: "take m xs = take n xs" "0 < n" "n \<le> length xs" using m(2) ne by (auto simp: n_def min_def)
  have rd: "part_read w fs P s 1000 (1024 * 1024) = Some \<lparr> rr_records = take n xs, rr_status = Status_OK \<rparr>"
    using part_read_range [OF w rep, of s 1000 "1024 * 1024"] s m(1) n(1) by (simp add: xs_def)
  have "last (take n xs) = xs ! (n - 1)" using n(2,3) ne by (subst last_conv_nth) (auto simp: min_def)
  also have "\<dots> = concat rss ! (unat s - unat (earliest_offset P) + (n - 1))" using n(2,3) by (simp add: xs_def)
  finally have "unat (r_offset (last (take n xs))) = unat s + (n - 1)"
    using part_rep_offset [OF rep, of "unat s - unat (earliest_offset P) + (n - 1)"] len n(2,3)
    by (simp add: xs_def)
  moreover have "unat s + n < 18446744073709551616" using n(3) len unat_u64_lt [of "p_next_offset P"] by linarith
  ultimately have "unat (r_offset (last (take n xs)) + 1) = unat s + n"
    using n(2) by (subst unat_add_small_u64) simp_all
  with rd n ne show ?thesis by (intro that)
qed

lemma load_loop_from:
  assumes w: "reliable w" and rep: "part_rep fs P rss" and ld: "\<forall>r \<in> set (concat rss). loadable r"
    and s: "earliest_offset P \<le> s" "s \<le> p_next_offset P"
  shows "load_loop w fs P (p_next_offset P) s cache =
    Some (Status_OK, replay cache (drop (unat s - unat (earliest_offset P)) (concat rss)))"
  using s
proof (induction "unat (p_next_offset P) - unat s" arbitrary: s cache rule: less_induct)
  case less
  let ?xs = "drop (unat s - unat (earliest_offset P)) (concat rss)"
  show ?case
  proof (cases "s < p_next_offset P")
    case False
    then have "s = p_next_offset P" using less.prems by simp
    then have "length (concat rss) = unat s - unat (earliest_offset P)" using rep by (simp add: part_rep_def)
    then show ?thesis using False by (subst load_loop.simps) (simp add: replay_def)
  next
    case True
    obtain n where n: "part_read w fs P s 1000 (1024 * 1024) = Some \<lparr> rr_records = take n ?xs, rr_status = Status_OK \<rparr>"
        "0 < n" "n \<le> length ?xs" "?xs \<noteq> []" "unat (r_offset (last (take n ?xs)) + 1) = unat s + n"
      by (rule load_read [OF w rep less.prems(1) True])
    define s' where "s' = r_offset (last (take n ?xs)) + 1"
    have s': "unat s' = unat s + n" using n(5) by (simp add: s'_def)
    have len: "length ?xs = unat (p_next_offset P) - unat s" using rep less.prems by (auto simp: part_rep_def word_le_nat_alt)
    have u: "unat (earliest_offset P) \<le> unat s" "unat s < unat (p_next_offset P)"
      using less.prems True by (simp_all add: word_le_nat_alt word_less_nat_alt)
    have "load_records (take n ?xs) cache s = Inr (replay cache (take n ?xs), s')"
      unfolding s'_def using ld n(2,4) by (intro load_records_ok) (auto dest!: in_set_takeD in_set_dropD)
    then have "load_loop w fs P (p_next_offset P) s cache = load_loop w fs P (p_next_offset P) s' (replay cache (take n ?xs))"
      using True n(1,2,4) by (subst load_loop.simps) simp
    also have "\<dots> = Some (Status_OK, replay (replay cache (take n ?xs)) (drop (unat s' - unat (earliest_offset P)) (concat rss)))"
      using s' u n(2,3) len by (intro less.hyps) (simp_all add: word_le_nat_alt)
    also have "drop (unat s' - unat (earliest_offset P)) (concat rss) = drop n ?xs" using s' u(1) by (simp add: add.commute)
    finally show ?thesis by (simp only: replay_append [symmetric] append_take_drop_id)
  qed
qed

text \<open>A record that does not parse stops the loading, whatever surrounds it.\<close>

lemma load_loop_bad:
  assumes w: "reliable w" and rep: "part_rep fs P rss" and s: "earliest_offset P \<le> s" "s \<le> p_next_offset P"
    and bad: "r \<in> set (drop (unat s - unat (earliest_offset P)) (concat rss))" "\<not> loadable r"
  shows "\<exists>st c. load_loop w fs P (p_next_offset P) s cache = Some (st, c) \<and> code st = Corrupt"
  using s bad(1)
proof (induction "unat (p_next_offset P) - unat s" arbitrary: s cache rule: less_induct)
  case less
  let ?xs = "drop (unat s - unat (earliest_offset P)) (concat rss)"
  have len: "length ?xs = unat (p_next_offset P) - unat s" using rep less.prems(1,2) by (auto simp: part_rep_def word_le_nat_alt)
  have True: "s < p_next_offset P"
    using less.prems len by (cases "s = p_next_offset P") (auto simp: less_le)
  obtain n where n: "part_read w fs P s 1000 (1024 * 1024) = Some \<lparr> rr_records = take n ?xs, rr_status = Status_OK \<rparr>"
      "0 < n" "n \<le> length ?xs" "?xs \<noteq> []" "unat (r_offset (last (take n ?xs)) + 1) = unat s + n"
    by (rule load_read [OF w rep less.prems(1) True])
  show ?case
  proof (cases "\<exists>x \<in> set (take n ?xs). \<not> loadable x")
    case bad: True
    then obtain st c where "load_records (take n ?xs) cache s = Inl (st, c)" "code st = Corrupt" using load_records_bad by meson
    then show ?thesis using True n(1,2,4) by (subst load_loop.simps) simp
  next
    case False
    define s' where "s' = r_offset (last (take n ?xs)) + 1"
    have s': "unat s' = unat s + n" using n(5) by (simp add: s'_def)
    have u: "unat (earliest_offset P) \<le> unat s" "unat s < unat (p_next_offset P)"
      using less.prems True by (simp_all add: word_le_nat_alt word_less_nat_alt)
    have "load_records (take n ?xs) cache s = Inr (replay cache (take n ?xs), s')"
      unfolding s'_def using False n(2,4) by (intro load_records_ok) auto
    then have l: "load_loop w fs P (p_next_offset P) s cache = load_loop w fs P (p_next_offset P) s' (replay cache (take n ?xs))"
      using True n(1,2,4) by (subst load_loop.simps) simp
    have d: "drop (unat s' - unat (earliest_offset P)) (concat rss) = drop n ?xs" using s' u(1) by (simp add: add.commute)
    have "r \<in> set (take n ?xs @ drop n ?xs)" using less.prems(3) by (simp only: append_take_drop_id)
    then have "r \<in> set (drop n ?xs)" using False bad(2) by (auto simp del: append_take_drop_id)
    then have "r \<in> set (drop (unat s' - unat (earliest_offset P)) (concat rss))" by (simp only: d)
    then show ?thesis unfolding l
      using s' u n(2,3) len by (intro less.hyps) (simp_all add: word_le_nat_alt)
  qed
qed

section \<open>Committing\<close>

definition store_rep :: "filesys \<Rightarrow> TopicManager \<Rightarrow> OffsetStore \<Rightarrow> Partition \<Rightarrow> Record list list \<Rightarrow> bool" where
  "store_rep fs tm s P rss \<longleftrightarrow> ofs_has_partition s \<and>
     (\<exists>t. get_topic tm INTERNAL_OFFSETS_TOPIC = Some t \<and> get_partition t 0 = Some P) \<and>
     part_rep fs P rss \<and> part_synced fs P \<and> map_of (ofs_cache s) = map_of (replay [] (concat rss))"

definition key_fits :: "string \<Rightarrow> OffsetCommitItem list \<Rightarrow> bool" where
  "key_fits gid items \<longleftrightarrow> (\<forall>item \<in> set items. length gid + length (oci_topic item) \<le> 1000000)"

lemma length_make_key: "length (make_key g t p) \<le> length g + length t + 7"
proof -
  have "unat p < 10 ^ 5" by (rule less_le_trans [OF unat_u16_lt]) simp
  then have "length (to_string (unat p)) \<le> 5" by (intro length_to_string_le) simp_all
  then show ?thesis by (simp add: make_key_def)
qed

lemma commit_batch_fits: "key_fits gid items \<Longrightarrow> batch_fits (commit_batch gid items)"
proof -
  assume a: "key_fits gid items"
  have "28 + length (make_key gid (oci_topic i) (oci_partition i)) + 16 \<le> 1048576" if "i \<in> set items" for i
    using a that length_make_key [of gid "oci_topic i" "oci_partition i"] by (fastforce simp: key_fits_def)
  then show ?thesis by (auto simp: batch_fits_def commit_batch_def)
qed

lemma replay_commit:
  "map_of c = map_of c' \<Longrightarrow>
     map_of (replay c (batch_records ts off (commit_batch gid items))) = map_of (cache_items gid items c')"
proof (induction items arbitrary: c c' off)
  case (Cons i items)
  show ?case
    using Cons.IH [of "AList.update (make_key gid (oci_topic i) (oci_partition i)) \<lparr> oen_offset = oci_offset i, oen_timestamp_ms = oci_timestamp_ms i \<rparr> c"
        "AList.update (make_key gid (oci_topic i) (oci_partition i)) \<lparr> oen_offset = oci_offset i, oen_timestamp_ms = oci_timestamp_ms i \<rparr> c'" "off + 1"] Cons.prems
    by (simp add: commit_batch_def cache_items_def replay_def decode_encode_value update_conv')
qed (simp add: commit_batch_def cache_items_def replay_def)

lemma get_put_topic [simp]: "get_topic (put_topic tm name t) name' = (if name' = name then Some t else get_topic tm name')"
  by (simp add: get_topic_def put_topic_def update_conv')

lemma get_put_partition: "get_partition t p = Some P \<Longrightarrow> get_partition (put_partition t p Q) p = Some Q"
  by (auto simp: get_partition_def put_partition_def split: if_splits)

lemma offsets_commit_ok:
  assumes w: "reliable w" and rep: "store_rep fs tm s P rss" and ne: "items \<noteq> []" and fits: "key_fits gid items"
    and nxt: "unat (p_next_offset P) + length items < 2 ^ 64"
  shows "\<exists>s' tm' fs' P' rss'. offsets_commit w now_ms fs tm s gid items = Some (Status_OK, s', tm', fs') \<and>
    store_rep fs' tm' s' P' rss' \<and> same_part P P' \<and> ofs_cache s' = cache_items gid items (ofs_cache s) \<and>
    concat rss' = concat rss @ batch_records now_ms (p_next_offset P) (commit_batch gid items)"
proof -
  obtain t where t: "get_topic tm INTERNAL_OFFSETS_TOPIC = Some t" "get_partition t 0 = Some P"
    and r: "ofs_has_partition s" "part_rep fs P rss" "map_of (ofs_cache s) = map_of (replay [] (concat rss))"
    using rep by (auto simp: store_rep_def)
  have "commit_batch gid items \<noteq> []" "length (commit_batch gid items) = length items" using ne by (simp_all add: commit_batch_def)
  then obtain P' fs' rss' where a: "append_batch w now_ms fs P (commit_batch gid items) = Some (Inr (p_next_offset P), P', fs')"
      "part_rep fs' P' rss'" "concat rss' = concat rss @ batch_records now_ms (p_next_offset P) (commit_batch gid items)" "same_part P P'"
    using append_batch_ok [OF w r(2) commit_batch_fits [OF fits], of now_ms] nxt by auto
  let ?s = "s\<lparr> ofs_cache := cache_items gid items (ofs_cache s) \<rparr>"
  let ?tm = "put_topic tm INTERNAL_OFFSETS_TOPIC (put_partition t 0 P')"
  have "offsets_commit w now_ms fs tm s gid items = Some (Status_OK, ?s, ?tm, part_flush w fs' P')"
    using ne r(1) t a(1) by (simp add: offsets_commit_def)
  moreover have "store_rep (part_flush w fs' P') ?tm ?s P' rss'"
    using r t a replay_commit [of "replay [] (concat rss)" "ofs_cache s" now_ms "p_next_offset P" gid items]
      part_rep_flush [OF a(2), of w "p_segments P'"] part_synced_flush [OF w a(2)]
    by (simp add: store_rep_def get_put_partition part_flush_def replay_append)
  ultimately show ?thesis using a by fastforce
qed

text \<open>The committed value wins, other keys keep theirs.\<close>

lemma map_of_cache_items:
  "map_of (cache_items gid items c) k =
     (case find (\<lambda>i. make_key gid (oci_topic i) (oci_partition i) = k) (rev items) of
        Some i \<Rightarrow> Some \<lparr> oen_offset = oci_offset i, oen_timestamp_ms = oci_timestamp_ms i \<rparr> | None \<Rightarrow> map_of c k)"
  by (induction items arbitrary: c rule: rev_induct) (simp_all add: cache_items_def update_conv')

lemma make_key_inj: "plain_name g \<Longrightarrow> plain_name t \<Longrightarrow> plain_name g' \<Longrightarrow> plain_name t' \<Longrightarrow>
    make_key g t p = make_key g' t' p' \<longleftrightarrow> g = g' \<and> t = t' \<and> p = p'"
  by (metis parse_make_key option.inject prod.inject)

lemma loadable_commit:
  assumes "plain_name gid" "\<forall>i \<in> set items. plain_name (oci_topic i)" "r \<in> set (batch_records ts off (commit_batch gid items))"
  shows "loadable r"
  using assms(2,3)
  by (induction items arbitrary: off) (auto simp: commit_batch_def loadable_def parse_make_key [OF assms(1)])

text \<open>Loading at start.\<close>

lemma offsets_recover_ok:
  assumes "reliable w" "part_rep fs P rss" "\<forall>r \<in> set (concat rss). loadable r"
    and "get_topic tm INTERNAL_OFFSETS_TOPIC = Some t" "get_partition t 0 = Some P"
  shows "offsets_open_and_recover w now_ms fs tm s =
    Some (Status_OK, s\<lparr> ofs_has_partition := True, ofs_cache := replay [] (concat rss) \<rparr>, tm, fs)"
proof -
  have "earliest_offset P \<le> p_next_offset P" using assms(2) by (simp add: part_rep_def word_le_nat_alt)
  then have "load_loop w fs P (p_next_offset P) (earliest_offset P) [] = Some (Status_OK, replay [] (concat rss))"
    using load_loop_from [OF assms(1-3), of "earliest_offset P" "[]"] by simp
  then show ?thesis using assms(4,5) by (simp add: offsets_open_and_recover_def)
qed

end
