(* ===== verification/OffsetDurability.thy ===== *)
theory OffsetDurability
  imports OffsetLaws GroupFencing
begin

text \<open>
  The offset store seen by consumers: what a commit makes readable, that no crash loses an
  acknowledged commit, and the commits that the recovery cannot read back.
\<close>

section \<open>A sample store\<close>

definition offsets_tm :: TopicManager where
  "offsets_tm = \<lparr> tm_config = default_StorageConfig,
     tm_topics = [(INTERNAL_OFFSETS_TOPIC, (make_Topic INTERNAL_OFFSETS_TOPIC 1 [''data''] default_StorageConfig 0 0)\<lparr> tc_partitions := [sample_part] \<rparr>),
       (''a'', make_Topic ''a'' 1 [''data'', ''a''] default_StorageConfig 0 0)] \<rparr>"

lemma offsets_tm_topics:
  "get_topic offsets_tm INTERNAL_OFFSETS_TOPIC =
     Some ((make_Topic INTERNAL_OFFSETS_TOPIC 1 [''data''] default_StorageConfig 0 0)\<lparr> tc_partitions := [sample_part] \<rparr>)"
  "get_topic offsets_tm ''a'' = Some (make_Topic ''a'' 1 [''data'', ''a''] default_StorageConfig 0 0)"
  by (simp_all add: offsets_tm_def get_topic_def INTERNAL_OFFSETS_TOPIC_def)

lemma sample_store_rep: "store_rep (sample_fs []) offsets_tm (new_OffsetStore\<lparr> ofs_has_partition := True \<rparr>) sample_part [[]]"
proof -
  have "part_synced (sample_fs []) sample_part"
    by (simp add: part_synced_def seg_synced_def sample_fs_def get_file_def seg_paths sample_seg_def make_LogSegment_def Let_def empty_file_def)
  then show ?thesis
    using sample_part_rep by (simp add: store_rep_def offsets_tm_topics get_partition_def new_OffsetStore_def replay_def)
qed

definition sample_item :: OffsetCommitItem where
  "sample_item = \<lparr> oci_topic = ''a'', oci_partition = 0, oci_offset = 5, oci_timestamp_ms = 0 \<rparr>"

lemma sample_item_ok: "key_fits ''g'' [sample_item]" "plain_name ''g''" "plain_name ''a''" "oci_topic sample_item = ''a''"
  "unat (p_next_offset sample_part) + length [sample_item] < 2 ^ 64"
  by (simp_all add: key_fits_def sample_item_def plain_name_def)

section \<open>Reading back\<close>

text \<open>
  A commit is readable at once, and only it. After a commit of a batch, a group's offset
  for a topic and partition is the last one the batch has for them, and the former one where the
  batch has none; other groups' offsets do not change. (Names are non-empty and have no bar.)
\<close>

lemma commit_then_get:
  assumes "reliable w" "store_rep fs tm s P rss" "items \<noteq> []" "key_fits gid items" "unat (p_next_offset P) + length items < 2 ^ 64"
    and "plain_name gid" "\<forall>i \<in> set items. plain_name (oci_topic i)" "plain_name g" "plain_name t"
  shows "\<exists>s' tm' fs'. offsets_commit w now_ms fs tm s gid items = Some (Status_OK, s', tm', fs') \<and>
    offsets_get s' g t p =
      (if g = gid then case find (\<lambda>i. oci_topic i = t \<and> oci_partition i = p) (rev items) of
         Some i \<Rightarrow> oci_offset i | None \<Rightarrow> offsets_get s gid t p
       else offsets_get s g t p)"
proof -
  obtain s' tm' fs' where c: "offsets_commit w now_ms fs tm s gid items = Some (Status_OK, s', tm', fs')"
      "ofs_cache s' = cache_items gid items (ofs_cache s)"
    using offsets_commit_ok [OF assms(1-5), of now_ms] by blast
  have "find (\<lambda>i. make_key gid (oci_topic i) (oci_partition i) = make_key g t p) (rev items) =
      (if g = gid then find (\<lambda>i. oci_topic i = t \<and> oci_partition i = p) (rev items) else None)"
    using assms(6-9) make_key_inj by (auto simp: find_None_iff intro!: find_cong)
  then have "offsets_get s' g t p =
      (if g = gid then case find (\<lambda>i. oci_topic i = t \<and> oci_partition i = p) (rev items) of
         Some i \<Rightarrow> oci_offset i | None \<Rightarrow> offsets_get s gid t p
       else offsets_get s g t p)"
    by (simp add: offsets_get_def c(2) map_of_cache_items split: option.split)
  then show ?thesis using c(1) by blast
qed

section \<open>Durability\<close>

text \<open>
  C6. No crash loses an acknowledged commit. When the store's commit has returned, then after
  every crash the partition of the internal topic reopens, and the store that is started on it
  answers every query as the store before the crash did. This does not depend on
  \<^verbatim>\<open>sync_on_append\<close>.
\<close>

theorem committed_offsets_survive_crash:
  assumes w: "reliable w" and rep: "store_rep fs tm s P rss" and ld: "\<forall>r \<in> set (concat rss). loadable r"
    and it: "items \<noteq> []" "key_fits gid items" "unat (p_next_offset P) + length items < 2 ^ 64"
    and names: "plain_name gid" "\<forall>i \<in> set items. plain_name (oci_topic i)"
  shows "\<exists>s' tm' fs'. offsets_commit w now_ms fs tm s gid items = Some (Status_OK, s', tm', fs') \<and>
    (\<forall>fs2. crashed fs' fs2 \<longrightarrow> (\<exists>P3 fs3.
       open_and_recover w fs2 (make_Partition (p_id P) (p_dir P) (p_config P)) = Some (Status_OK, P3, fs3) \<and>
       (\<forall>tm3 t3 s0. get_topic tm3 INTERNAL_OFFSETS_TOPIC = Some t3 \<and> get_partition t3 0 = Some P3 \<longrightarrow>
         (\<exists>s3. offsets_open_and_recover w now3 fs3 tm3 s0 = Some (Status_OK, s3, tm3, fs3) \<and>
           (\<forall>g t p. offsets_get s3 g t p = offsets_get s' g t p)))))"
proof -
  obtain s' tm' fs' P' rss' where c: "offsets_commit w now_ms fs tm s gid items = Some (Status_OK, s', tm', fs')"
      "store_rep fs' tm' s' P' rss'" "same_part P P'"
      "concat rss' = concat rss @ batch_records now_ms (p_next_offset P) (commit_batch gid items)"
    using offsets_commit_ok [OF w rep it, of now_ms] by blast
  have r: "part_rep fs' P' rss'" "part_synced fs' P'" "map_of (ofs_cache s') = map_of (replay [] (concat rss'))"
    using c(2) by (auto simp: store_rep_def)
  have ss: "sealed_synced fs' P'" using r(2) by (auto simp: sealed_synced_def part_synced_def dest: in_set_butlastD)
  have ld': "\<forall>r \<in> set (concat rss'). loadable r" unfolding c(4) using ld loadable_commit [OF names] by auto
  have "\<exists>P3 fs3. open_and_recover w fs2 (make_Partition (p_id P) (p_dir P) (p_config P)) = Some (Status_OK, P3, fs3) \<and>
       (\<forall>tm3 t3 s0. get_topic tm3 INTERNAL_OFFSETS_TOPIC = Some t3 \<and> get_partition t3 0 = Some P3 \<longrightarrow>
         (\<exists>s3. offsets_open_and_recover w now3 fs3 tm3 s0 = Some (Status_OK, s3, tm3, fs3) \<and>
           (\<forall>g t p. offsets_get s3 g t p = offsets_get s' g t p)))" if cr: "crashed fs' fs2" for fs2
  proof -
    obtain k P3 fs3 where o: "open_and_recover w fs2 (make_Partition (p_id P') (p_dir P') (p_config P')) = Some (Status_OK, P3, fs3)"
        "k = length (last rss')" "part_rep fs3 P3 (butlast rss' @ [take k (last rss')])"
      using reopen_crashed [OF w r(1) ss cr] r(2) by blast
    have rep3: "part_rep fs3 P3 rss'" using o(2,3) part_rep_nonempty [OF r(1)] by simp
    have "\<exists>s3. offsets_open_and_recover w now3 fs3 tm3 s0 = Some (Status_OK, s3, tm3, fs3) \<and>
        (\<forall>g t p. offsets_get s3 g t p = offsets_get s' g t p)"
      if t3: "get_topic tm3 INTERNAL_OFFSETS_TOPIC = Some t3" "get_partition t3 0 = Some P3" for tm3 t3 s0
      using offsets_recover_ok [OF w rep3 ld' t3, of now3 s0] r(3) by (simp add: offsets_get_def)
    then show ?thesis using o(1) c(3) by (auto simp: same_part_def)
  qed
  then show ?thesis using c(1) by blast
qed

theorem committed_offsets_survive_crash_witness:
  "\<exists>s' tm' fs'. offsets_commit ideal_os 0 (sample_fs []) offsets_tm (new_OffsetStore\<lparr> ofs_has_partition := True \<rparr>) ''g'' [sample_item] =
       Some (Status_OK, s', tm', fs') \<and>
     (\<exists>P3 fs3. open_and_recover ideal_os (worst_crash fs') (make_Partition (p_id sample_part) (p_dir sample_part) (p_config sample_part)) =
       Some (Status_OK, P3, fs3))"
proof -
  have "\<exists>s' tm' fs'. offsets_commit ideal_os 0 (sample_fs []) offsets_tm (new_OffsetStore\<lparr> ofs_has_partition := True \<rparr>) ''g'' [sample_item] =
       Some (Status_OK, s', tm', fs') \<and>
    (\<forall>fs2. crashed fs' fs2 \<longrightarrow> (\<exists>P3 fs3.
       open_and_recover ideal_os fs2 (make_Partition (p_id sample_part) (p_dir sample_part) (p_config sample_part)) = Some (Status_OK, P3, fs3) \<and>
       (\<forall>tm3 t3 s0. get_topic tm3 INTERNAL_OFFSETS_TOPIC = Some t3 \<and> get_partition t3 0 = Some P3 \<longrightarrow>
         (\<exists>s3. offsets_open_and_recover ideal_os 0 fs3 tm3 s0 = Some (Status_OK, s3, tm3, fs3) \<and>
           (\<forall>g t p. offsets_get s3 g t p = offsets_get s' g t p)))))"
    by (rule committed_offsets_survive_crash [OF reliable_ideal_os sample_store_rep _ _ sample_item_ok(1,5,2)]) (simp_all add: sample_item_ok)
  then show ?thesis using crashed_worst_crash by blast
qed

section \<open>Poisoned keys\<close>

lemma stoul_not_all:
  assumes "stoul s = Some (v, n)" "c \<in> set s" "\<not> is_digit c" "\<not> is_blank c" "c \<noteq> CHR ''-''" "c \<noteq> CHR ''+''"
  shows "n \<noteq> length s"
proof -
  define s1 where "s1 = dropWhile is_blank s"
  define s2 where "s2 = (if s1 \<noteq> [] \<and> (hd s1 = CHR ''-'' \<or> hd s1 = CHR ''+'') then tl s1 else s1)"
  have n: "n = length s - length s2 + length (takeWhile is_digit s2)"
    using assms(1) by (auto simp: stoul_def Let_def s1_def s2_def split: if_splits)
  have "c \<in> set s1" using assms(2,4) unfolding s1_def
    by (metis UnE set_append set_takeWhileD takeWhile_dropWhile_id)
  then have c2: "c \<in> set s2" using assms(5,6) by (cases s1) (auto simp: s2_def)
  have "length s2 \<le> length s" using length_dropWhile_le [of is_blank s] by (auto simp: s2_def s1_def)
  moreover have "length (takeWhile is_digit s2) < length s2"
    using c2 assms(3) by (metis length_takeWhile_le nat_less_le set_takeWhileD takeWhile_eq_all_conv takeWhile_eq_take take_all_iff order_refl)
  ultimately show ?thesis using n c2 by auto
qed

lemma parse_key_poisoned:
  assumes "\<not> plain_name gid"
  shows "parse_key (make_key gid t p) = None"
proof (cases "gid = []")
  case True
  then show ?thesis
    using find_char_append [of "CHR ''|''" "[]" "t @ ''|'' @ to_string (unat p)"]
    by (auto simp: parse_key_def make_key_def Let_def bind_eq_None_conv split: option.split)
next
  case False
  then have "CHR ''|'' \<in> set gid" using assms by (simp add: plain_name_def)
  then obtain a b where ab: "gid = a @ CHR ''|'' # b" "CHR ''|'' \<notin> set a" by (meson split_list_first)
  define rest where "rest = b @ ''|'' @ t @ ''|'' @ to_string (unat p)"
  obtain c d where cd: "rest = c @ CHR ''|'' # d" "CHR ''|'' \<notin> set c"
    using split_list_first [of "CHR ''|''" rest] by (auto simp: rest_def)
  have "count_list rest (CHR ''|'') \<ge> 2" by (simp add: rest_def count_list_append)
  then have d: "CHR ''|'' \<in> set d"
    using cd(2) count_list_0_iff [of d "CHR ''|''"] by (auto simp: cd(1) count_list_append)
  have key: "make_key gid t p = a @ CHR ''|'' # c @ CHR ''|'' # d" using cd(1) by (simp add: make_key_def ab rest_def)
  have "stoul d = Some (v, n) \<Longrightarrow> n \<noteq> length d" for v n
    using stoul_not_all [OF _ d] by (simp add: is_digit_def is_blank_def)
  then show ?thesis
    using find_char_append [OF ab(2), of "c @ CHR ''|'' # d"] find_char_append [OF cd(2), of d]
    by (cases "stoul d") (auto simp: parse_key_def key Let_def)
qed

text \<open>
  C27. A commit can make the next start fail. A commit without a group (empty member id,
  generation \<^verbatim>\<open>0xFFFFFFFF\<close>) is accepted for any group id that is not in use, also for the empty
  one and for one with a bar in it. Its key cannot be parsed, so once it is in the log the store
  that is started on the reopened partition stops with \<^verbatim>\<open>Corrupt\<close>.
\<close>

theorem standalone_commit_poisons_restart:
  assumes w: "reliable w" and rep: "store_rep fs tm s P rss" and gid: "\<not> plain_name gid" "length gid \<le> 65535" "map_of (gc_groups gc) gid = None"
    and e: "\<not> is_reserved (ocr_topic e)" "get_topic tm (ocr_topic e) = Some te" "get_partition te (ucast (ocr_partition e)) = Some Pe"
      "ocr_offset e \<le> p_next_offset Pe" "length (ocr_topic e) \<le> 249" and nxt: "unat (p_next_offset P) + 1 < 2 ^ 64"
  shows "\<exists>s' tm' fs'. commit w now_ms now fs tm s gc gid [] 0xFFFFFFFF [e] = Some ((Status_OK, 0), s', tm', fs') \<and>
    (\<forall>fs2. crashed fs' fs2 \<longrightarrow> (\<exists>P3 fs3.
       open_and_recover w fs2 (make_Partition (p_id P) (p_dir P) (p_config P)) = Some (Status_OK, P3, fs3) \<and>
       (\<forall>tm3 t3 s0. get_topic tm3 INTERNAL_OFFSETS_TOPIC = Some t3 \<and> get_partition t3 0 = Some P3 \<longrightarrow>
         (\<exists>st s3. offsets_open_and_recover w now3 fs3 tm3 s0 = Some (st, s3, tm3, fs3) \<and> code st = Corrupt))))"
proof -
  define items where "items = [\<lparr> oci_topic = ocr_topic e, oci_partition = ocr_partition e, oci_offset = ocr_offset e,
                   oci_timestamp_ms = of_int (duration_ms now) \<rparr>]"
  have it: "items \<noteq> []" "key_fits gid items" "unat (p_next_offset P) + length items < 2 ^ 64"
    using gid(2) e(5) nxt by (simp_all add: items_def key_fits_def)
  obtain s' tm' fs' P' rss' where c: "offsets_commit w now_ms fs tm s gid items = Some (Status_OK, s', tm', fs')"
      "store_rep fs' tm' s' P' rss'" "same_part P P'"
      "concat rss' = concat rss @ batch_records now_ms (p_next_offset P) (commit_batch gid items)"
    using offsets_commit_ok [OF w rep it, of now_ms] by blast
  have "commit w now_ms now fs tm s gc gid [] 0xFFFFFFFF [e] = Some ((Status_OK, 0), s', tm', fs')"
    using e(1-3) gid(3) c(1) leD [OF e(4)] by (simp add: commit_def check_member_def items_def)
  moreover have r: "part_rep fs' P' rss'" "part_synced fs' P'" using c(2) by (auto simp: store_rep_def)
  have ss: "sealed_synced fs' P'" using r(2) by (auto simp: sealed_synced_def part_synced_def dest: in_set_butlastD)
  let ?x = "hd (batch_records now_ms (p_next_offset P) (commit_batch gid items))"
  have x: "?x \<in> set (concat rss')" "\<not> loadable ?x"
    unfolding c(4) by (simp_all add: items_def commit_batch_def loadable_def parse_key_poisoned [OF gid(1)])
  have "\<exists>P3 fs3. open_and_recover w fs2 (make_Partition (p_id P) (p_dir P) (p_config P)) = Some (Status_OK, P3, fs3) \<and>
       (\<forall>tm3 t3 s0. get_topic tm3 INTERNAL_OFFSETS_TOPIC = Some t3 \<and> get_partition t3 0 = Some P3 \<longrightarrow>
         (\<exists>st s3. offsets_open_and_recover w now3 fs3 tm3 s0 = Some (st, s3, tm3, fs3) \<and> code st = Corrupt))"
    if cr: "crashed fs' fs2" for fs2
  proof -
    obtain k P3 fs3 where o: "open_and_recover w fs2 (make_Partition (p_id P') (p_dir P') (p_config P')) = Some (Status_OK, P3, fs3)"
        "k = length (last rss')" "part_rep fs3 P3 (butlast rss' @ [take k (last rss')])"
      using reopen_crashed [OF w r(1) ss cr] r(2) by blast
    have rep3: "part_rep fs3 P3 rss'" using o(2,3) part_rep_nonempty [OF r(1)] by simp
    have le: "earliest_offset P3 \<le> p_next_offset P3" using rep3 by (simp add: part_rep_def word_le_nat_alt)
    have "\<exists>st c. load_loop w fs3 P3 (p_next_offset P3) (earliest_offset P3) [] = Some (st, c) \<and> code st = Corrupt"
      by (rule load_loop_bad [OF w rep3 _ le _ x(2)]) (use x(1) in simp_all)
    then have "\<exists>st s3. offsets_open_and_recover w now3 fs3 tm3 s0 = Some (st, s3, tm3, fs3) \<and> code st = Corrupt"
      if "get_topic tm3 INTERNAL_OFFSETS_TOPIC = Some t3" "get_partition t3 0 = Some P3" for tm3 t3 s0
      using that by (auto simp: offsets_open_and_recover_def)
    then show ?thesis using o(1) c(3) by (auto simp: same_part_def)
  qed
  ultimately show ?thesis by blast
qed

theorem standalone_commit_poisons_restart_witness:
  "\<exists>s' tm' fs'. commit ideal_os 0 0 (sample_fs []) offsets_tm (new_OffsetStore\<lparr> ofs_has_partition := True \<rparr>)
       (new_GroupCoordinator default_CoordinatorConfig) ''a|b'' [] 0xFFFFFFFF [\<lparr> ocr_topic = ''a'', ocr_partition = 0, ocr_offset = 0 \<rparr>] =
       Some ((Status_OK, 0), s', tm', fs') \<and>
     (\<exists>P3 fs3. open_and_recover ideal_os (worst_crash fs') (make_Partition (p_id sample_part) (p_dir sample_part) (p_config sample_part)) =
       Some (Status_OK, P3, fs3))"
proof -
  let ?e = "\<lparr> ocr_topic = ''a'', ocr_partition = 0, ocr_offset = 0 \<rparr>"
  have "\<exists>s' tm' fs'. commit ideal_os 0 0 (sample_fs []) offsets_tm (new_OffsetStore\<lparr> ofs_has_partition := True \<rparr>)
       (new_GroupCoordinator default_CoordinatorConfig) ''a|b'' [] 0xFFFFFFFF [?e] = Some ((Status_OK, 0), s', tm', fs') \<and>
    (\<forall>fs2. crashed fs' fs2 \<longrightarrow> (\<exists>P3 fs3.
       open_and_recover ideal_os fs2 (make_Partition (p_id sample_part) (p_dir sample_part) (p_config sample_part)) = Some (Status_OK, P3, fs3) \<and>
       (\<forall>tm3 t3 s0. get_topic tm3 INTERNAL_OFFSETS_TOPIC = Some t3 \<and> get_partition t3 0 = Some P3 \<longrightarrow>
         (\<exists>st s3. offsets_open_and_recover ideal_os 0 fs3 tm3 s0 = Some (st, s3, tm3, fs3) \<and> code st = Corrupt))))"
  proof (rule standalone_commit_poisons_restart [OF reliable_ideal_os sample_store_rep])
    show "get_topic offsets_tm (ocr_topic ?e) = Some (make_Topic ''a'' 1 [''data'', ''a''] default_StorageConfig 0 0)"
      by (simp add: offsets_tm_topics)
    show "get_partition (make_Topic ''a'' 1 [''data'', ''a''] default_StorageConfig 0 0) (ucast (ocr_partition ?e)) =
        Some (make_Partition 0 [''data'', ''a'', to_string 0] default_StorageConfig)"
      by (simp add: get_partition_def make_Topic_def)
  qed (simp_all add: plain_name_def new_GroupCoordinator_def is_reserved_def)
  then show ?thesis using crashed_worst_crash by blast
qed

end
