(* ===== verification/ThreadPool.thy ===== *)
theory ThreadPool
  imports MessageHandler
begin

text \<open>
  \<^verbatim>\<open>src/include/streamforge/TaskQueue.hpp\<close> and \<^verbatim>\<open>src/src/ThreadPool.cpp\<close>: the queue of requests,
  the queue of finished replies and the worker threads between them. Each queue method runs under
  the queue's mutex and is one step. A worker is where its loop stands: waiting in \<^verbatim>\<open>pop\<close>, handling a
  task, or gone. The wait of a condition variable is the value \<open>PopBlocked\<close>; a worker's call of
  \<^verbatim>\<open>handle_request\<close> is one step on the objects the handler refers to.
\<close>

section \<open>Queues\<close>

record Task =
  tk_conn_id :: u64
  tk_request :: Frame

record Completion =
  cm_conn_id :: u64
  cm_response_bytes :: bytes
  cm_close_after_send :: bool

record TaskQueue =
  tq_queue :: "Task list"
  tq_stop :: bool

definition new_TaskQueue :: TaskQueue where
  "new_TaskQueue = \<lparr> tq_queue = [], tq_stop = False \<rparr>"

definition tq_push :: "Task \<Rightarrow> TaskQueue \<Rightarrow> TaskQueue" where
  "tq_push task q = q\<lparr> tq_queue := tq_queue q @ [task] \<rparr>"

datatype pop_result = PopBlocked | PopStopped | Popped Task

definition tq_pop :: "TaskQueue \<Rightarrow> pop_result \<times> TaskQueue" where
  "tq_pop q =
     (if \<not> (tq_stop q \<or> tq_queue q \<noteq> []) then (PopBlocked, q)
      else if tq_stop q \<and> tq_queue q = [] then (PopStopped, q)
      else (Popped (hd (tq_queue q)), q\<lparr> tq_queue := tl (tq_queue q) \<rparr>))"

definition tq_stop_queue :: "TaskQueue \<Rightarrow> TaskQueue" where
  "tq_stop_queue q = q\<lparr> tq_stop := True \<rparr>"

definition tq_size :: "TaskQueue \<Rightarrow> nat" where
  "tq_size q = length (tq_queue q)"

type_synonym CompletionQueue = "Completion list"

definition cq_push :: "Completion \<Rightarrow> CompletionQueue \<Rightarrow> CompletionQueue" where
  "cq_push cpl q = q @ [cpl]"

fun cq_pop_all :: "CompletionQueue \<Rightarrow> Completion list \<times> CompletionQueue" where
  "cq_pop_all [] = ([], [])"
| "cq_pop_all (cpl # q) = (let (result, q') = cq_pop_all q in (cpl # result, q'))"

definition cq_size :: "CompletionQueue \<Rightarrow> nat" where
  "cq_size q = length q"

section \<open>The pool\<close>

datatype Worker = AtPop | Handling Task | Exited

record ThreadPool =
  pl_task_queue :: TaskQueue
  pl_workers :: "Worker list"
  pl_stopped :: bool

definition make_ThreadPool :: "nat \<Rightarrow> ThreadPool" where
  "make_ThreadPool num_workers = \<lparr> pl_task_queue = new_TaskQueue, pl_workers = replicate num_workers AtPop, pl_stopped = False \<rparr>"

definition enqueue :: "Task \<Rightarrow> ThreadPool \<Rightarrow> ThreadPool" where
  "enqueue task pool = (if \<not> pl_stopped pool then pool\<lparr> pl_task_queue := tq_push task (pl_task_queue pool) \<rparr> else pool)"

text \<open>
  \<^verbatim>\<open>stop_and_join\<close> up to the first \<^verbatim>\<open>join\<close>. The joins return once \<open>pool_joined\<close> holds; then the
  threads are dropped.
\<close>

definition stop_pool :: "ThreadPool \<Rightarrow> ThreadPool" where
  "stop_pool pool =
     (if \<not> pl_stopped pool then pool\<lparr> pl_stopped := True, pl_task_queue := tq_stop_queue (pl_task_queue pool) \<rparr> else pool)"

definition pool_joined :: "ThreadPool \<Rightarrow> bool" where
  "pool_joined pool \<longleftrightarrow> list_all (\<lambda>w. w = Exited) (pl_workers pool)"

text \<open>One worker: the call of \<^verbatim>\<open>pop\<close> at the head of its loop, and the rest of the loop body.\<close>

definition worker_take :: "nat \<Rightarrow> ThreadPool \<Rightarrow> ThreadPool" where
  "worker_take i pool =
     (case tq_pop (pl_task_queue pool) of
        (PopBlocked, q) \<Rightarrow> pool
      | (PopStopped, q) \<Rightarrow> pool\<lparr> pl_task_queue := q, pl_workers := (pl_workers pool)[i := Exited] \<rparr>
      | (Popped task, q) \<Rightarrow> pool\<lparr> pl_task_queue := q, pl_workers := (pl_workers pool)[i := Handling task] \<rparr>)"

definition worker_finish ::
  "Ambient \<Rightarrow> nat \<Rightarrow> Task \<Rightarrow> ThreadPool \<Rightarrow> CompletionQueue \<Rightarrow> Broker \<Rightarrow> (ThreadPool \<times> CompletionQueue \<times> Broker) option" where
  "worker_finish a i task pool comp_queue b = do {
     (resp, b') \<leftarrow> handle_request a (tk_request task) b;
     encoded_resp \<leftarrow> frame_encode resp;
     Some (pool\<lparr> pl_workers := (pl_workers pool)[i := AtPop] \<rparr>,
       cq_push \<lparr> cm_conn_id = tk_conn_id task, cm_response_bytes = encoded_resp, cm_close_after_send = False \<rparr> comp_queue, b')
   }"

section \<open>Laws\<close>

lemma cq_pop_all_eq [simp]: "cq_pop_all q = (q, [])"
  by (induction q) simp_all

text \<open>The tasks a pool has accepted and not finished, by connection.\<close>

definition handled_by :: "Worker \<Rightarrow> Task list" where
  "handled_by w = (case w of Handling t \<Rightarrow> [t] | _ \<Rightarrow> [])"

definition pool_tasks :: "u64 \<Rightarrow> ThreadPool \<Rightarrow> Task list" where
  "pool_tasks c pool =
     filter (\<lambda>t. tk_conn_id t = c) (concat (map handled_by (pl_workers pool)) @ tq_queue (pl_task_queue pool))"

lemma handled_by_simps [simp]: "handled_by AtPop = []" "handled_by Exited = []" "handled_by (Handling t) = [t]"
  by (simp_all add: handled_by_def)

lemma pool_tasks_new [simp]: "pool_tasks c (make_ThreadPool n) = []"
  by (induction n) (auto simp: pool_tasks_def make_ThreadPool_def new_TaskQueue_def)

lemma pool_tasks_enqueue:
  "\<not> pl_stopped pool \<Longrightarrow> pool_tasks c (enqueue task pool) = pool_tasks c pool @ (if tk_conn_id task = c then [task] else [])"
  by (simp add: pool_tasks_def enqueue_def tq_push_def)

lemma pool_tasks_stop [simp]: "pool_tasks c (stop_pool pool) = pool_tasks c pool"
  by (simp add: pool_tasks_def stop_pool_def tq_stop_queue_def)

lemma mset_handled_update:
  "i < length ws \<Longrightarrow> mset (concat (map handled_by (ws[i := w]))) + mset (handled_by (ws ! i)) =
     mset (concat (map handled_by ws)) + mset (handled_by w)"
proof (induction ws arbitrary: i)
  case (Cons v ws)
  then show ?case by (cases i) (simp_all add: ac_simps)
qed simp

lemma mset_pool_tasks_take:
  assumes "i < length (pl_workers pool)" "pl_workers pool ! i = AtPop"
  shows "mset (pool_tasks c (worker_take i pool)) = mset (pool_tasks c pool)"
proof (cases "tq_queue (pl_task_queue pool)")
  case Nil
  then show ?thesis using mset_handled_update [OF assms(1), of Exited] assms(2)
    by (auto simp: worker_take_def tq_pop_def pool_tasks_def mset_filter [symmetric] simp del: mset_filter
        intro: arg_cong [where f = "filter_mset _"]) (simp add: mset_filter)
next
  case (Cons t ts)
  then show ?thesis using mset_handled_update [OF assms(1), of "Handling t"] assms(2)
    by (simp add: worker_take_def tq_pop_def pool_tasks_def)
qed

lemma mset_pool_tasks_finish:
  assumes "i < length (pl_workers pool)" "pl_workers pool ! i = Handling task"
  shows "mset (pool_tasks c (pool\<lparr> pl_workers := (pl_workers pool)[i := AtPop] \<rparr>)) + mset (filter (\<lambda>t. tk_conn_id t = c) [task]) =
    mset (pool_tasks c pool)"
proof -
  have "mset (concat (map handled_by (pl_workers pool))) = add_mset task (mset (concat (map handled_by ((pl_workers pool)[i := AtPop]))))"
    using mset_handled_update [OF assms(1), of AtPop] assms(2) by simp
  then show ?thesis by (simp add: pool_tasks_def)
qed

end
