(* ===== verification/TcpServer.thy ===== *)
theory TcpServer
  imports ThreadPool FrameAssembler "HOL-Library.Signed_Division"
begin

text \<open>
  \<^verbatim>\<open>src/src/TcpServer.cpp\<close> with \<^verbatim>\<open>ConnectionState.hpp\<close> and \<^verbatim>\<open>ServerConfig.hpp\<close>: the thread that owns
  the sockets. What the sockets answer (the results of \<^verbatim>\<open>send\<close>, \<^verbatim>\<open>recv\<close>, \<^verbatim>\<open>accept\<close> and \<^verbatim>\<open>WSAPoll\<close>) is an
  argument of each definition. The socket of a connection is the list of the bytes that \<^verbatim>\<open>send\<close>
  has taken. Time is in nanoseconds. The order of \<^verbatim>\<open>m_connections\<close> is the order of its list. The
  wakeup channel only ends the wait of \<^verbatim>\<open>WSAPoll\<close> and has no state here; log lines are left out.
\<close>

section \<open>State\<close>

record ServerConfig =
  sf_host :: string
  sf_port :: u16
  sf_workers :: nat
  sf_max_connections :: nat
  sf_read_stall_timeout_sec :: u32
  sf_max_output_buffer_bytes :: nat
  sf_max_input_buffer_bytes :: nat
  sf_group_min_session_ms :: u32
  sf_group_max_session_ms :: u32
  sf_reaper_interval_ms :: u32

text \<open>The default number of workers depends on \<^verbatim>\<open>hardware_concurrency\<close>, an argument.\<close>

definition default_ServerConfig :: "nat \<Rightarrow> ServerConfig" where
  "default_ServerConfig hardware_concurrency =
     \<lparr> sf_host = ''127.0.0.1'', sf_port = 9092, sf_workers = max 2 hardware_concurrency, sf_max_connections = 1024,
        sf_read_stall_timeout_sec = 30, sf_max_output_buffer_bytes = 8 * 1024 * 1024, sf_max_input_buffer_bytes = 2 * 1024 * 1024,
        sf_group_min_session_ms = 1000, sf_group_max_session_ms = 60000, sf_reaper_interval_ms = 500 \<rparr>"

record ConnectionState =
  cs_conn_id :: u64
  cs_socket :: bytes
  cs_peer_ip :: string
  cs_peer_port :: u16
  cs_assembler :: FrameAssembler
  cs_pending_requests :: "Frame list"
  cs_in_flight :: bool
  cs_output_buffer :: bytes
  cs_output_offset :: nat
  cs_close_after_send :: bool
  cs_last_read_time :: int
  cs_has_active_read_stall :: bool

record TcpServer =
  sv_config :: ServerConfig
  sv_broker :: Broker
  sv_listening :: bool
  sv_comp_queue :: CompletionQueue
  sv_thread_pool :: ThreadPool
  sv_shutdown_requested :: bool
  sv_running :: bool
  sv_next_conn_id :: u64
  sv_connections :: "(u64 \<times> ConnectionState) list"

definition make_TcpServer :: "ServerConfig \<Rightarrow> Broker \<Rightarrow> TcpServer" where
  "make_TcpServer config b =
     \<lparr> sv_config = config, sv_broker = b, sv_listening = False, sv_comp_queue = [], sv_thread_pool = make_ThreadPool (sf_workers config),
        sv_shutdown_requested = False, sv_running = False, sv_next_conn_id = 1, sv_connections = [] \<rparr>"

definition active_connections :: "TcpServer \<Rightarrow> nat" where
  "active_connections sv = length (sv_connections sv)"

text \<open>\<^verbatim>\<open>start\<close> up to the call of the event loop (the listener could be created; otherwise it throws).\<close>

definition start_server :: "TcpServer \<Rightarrow> TcpServer" where
  "start_server sv = sv\<lparr> sv_listening := True, sv_running := True, sv_shutdown_requested := False \<rparr>"

definition request_stop :: "TcpServer \<Rightarrow> TcpServer" where
  "request_stop sv = sv\<lparr> sv_shutdown_requested := True \<rparr>"

text \<open>One pass of \<^verbatim>\<open>reaper_loop\<close> after its wait.\<close>

definition reaper_pass :: "int \<Rightarrow> TcpServer \<Rightarrow> TcpServer" where
  "reaper_pass now sv =
     (if sv_shutdown_requested sv then sv
      else case bk_coordinator (sv_broker sv) of
        None \<Rightarrow> sv
      | Some gc \<Rightarrow> sv\<lparr> sv_broker := (sv_broker sv)\<lparr> bk_coordinator := Some (snd (expire_members (bk_topic_mgr (sv_broker sv)) now gc)) \<rparr> \<rparr>)"

section \<open>Connections\<close>

definition find_conn :: "TcpServer \<Rightarrow> u64 \<Rightarrow> ConnectionState option" where
  "find_conn sv conn_id = map_of (sv_connections sv) conn_id"

definition put_conn :: "ConnectionState \<Rightarrow> TcpServer \<Rightarrow> TcpServer" where
  "put_conn conn sv = sv\<lparr> sv_connections := AList.update (cs_conn_id conn) conn (sv_connections sv) \<rparr>"

definition close_connection :: "u64 \<Rightarrow> TcpServer \<Rightarrow> TcpServer" where
  "close_connection conn_id sv = sv\<lparr> sv_connections := AList.delete conn_id (sv_connections sv) \<rparr>"

definition submit :: "u64 \<Rightarrow> Frame \<Rightarrow> TcpServer \<Rightarrow> TcpServer" where
  "submit conn_id req sv = sv\<lparr> sv_thread_pool := enqueue \<lparr> tk_conn_id = conn_id, tk_request = req \<rparr> (sv_thread_pool sv) \<rparr>"

text \<open>
  What the socket library makes of a \<^verbatim>\<open>send\<close>: it has room for some bytes and takes as many of the
  given ones, or fails. \<open>send_answer\<close> is the result of the call, \<open>socket_send\<close> its effect on the bytes taken.
\<close>

datatype send_result = Sent nat | SendWouldBlock | SendError

definition send_answer :: "send_result \<Rightarrow> bytes \<Rightarrow> send_result" where
  "send_answer room data = (case room of Sent n \<Rightarrow> Sent (min n (length data)) | _ \<Rightarrow> room)"

definition socket_send :: "send_result \<Rightarrow> bytes \<Rightarrow> ConnectionState \<Rightarrow> ConnectionState" where
  "socket_send room data conn =
     (case send_answer room data of Sent n \<Rightarrow> conn\<lparr> cs_socket := cs_socket conn @ take n data \<rparr> | _ \<Rightarrow> conn)"

text \<open>
  A failure of the program: a frame whose encoding leaves its buffer, or a use of a connection
  that has been freed.
\<close>

datatype fault = EncodeFault | UseAfterFree

definition queue_immediate_error_and_close :: "send_result \<Rightarrow> ConnectionState \<Rightarrow> Frame \<Rightarrow> TcpServer \<Rightarrow> fault + TcpServer" where
  "queue_immediate_error_and_close r conn err_frame sv =
     (case frame_encode err_frame of
        None \<Rightarrow> Inl EncodeFault
      | Some encoded \<Rightarrow>
          if send_answer r encoded = Sent (length encoded) then Inr (close_connection (cs_conn_id conn) sv)
          else Inr (put_conn ((socket_send r encoded conn)\<lparr> cs_output_buffer := encoded,
                 cs_output_offset := (case send_answer r encoded of Sent n \<Rightarrow> n | _ \<Rightarrow> 0), cs_close_after_send := True \<rparr>) sv))"

definition new_conn :: "u64 \<Rightarrow> string \<Rightarrow> u16 \<Rightarrow> int \<Rightarrow> ConnectionState" where
  "new_conn conn_id ip port now =
     \<lparr> cs_conn_id = conn_id, cs_socket = [], cs_peer_ip = ip, cs_peer_port = port, cs_assembler = new_FrameAssembler,
        cs_pending_requests = [], cs_in_flight = False, cs_output_buffer = [], cs_output_offset = 0, cs_close_after_send = False,
        cs_last_read_time = now, cs_has_active_read_stall = False \<rparr>"

text \<open>A peer that is refused gets an error frame on its own socket, which is closed at once.\<close>

definition accept_one :: "string \<times> u16 \<times> int \<Rightarrow> TcpServer \<Rightarrow> TcpServer" where
  "accept_one peer sv =
     (case peer of (ip, port, now) \<Rightarrow>
        if length (sv_connections sv) \<ge> sf_max_connections (sv_config sv) then sv
        else let conn_id = sv_next_conn_id sv
          in put_conn (new_conn conn_id ip port now) (sv\<lparr> sv_next_conn_id := conn_id + 1 \<rparr>))"

definition accept_new_connections :: "(string \<times> u16 \<times> int) list \<Rightarrow> TcpServer \<Rightarrow> TcpServer" where
  "accept_new_connections peers sv = fold accept_one peers sv"

section \<open>Completions\<close>

text \<open>The part of the loop body that sends or buffers the reply; \<open>None\<close>: the connection is closed.\<close>

definition deliver :: "nat \<Rightarrow> send_result \<Rightarrow> bytes \<Rightarrow> ConnectionState \<Rightarrow> ConnectionState option" where
  "deliver max_output_buffer_bytes r response conn =
     (let unsent = length (cs_output_buffer conn) - cs_output_offset conn
      in if unsent + length response > max_output_buffer_bytes then None
         else if unsent = 0 then
           (case send_answer r response of
              Sent n \<Rightarrow>
                if n > 0 \<and> n < length response
                then Some ((socket_send r response conn)\<lparr> cs_output_buffer := drop n response, cs_output_offset := 0 \<rparr>)
                else Some (socket_send r response conn)
            | SendWouldBlock \<Rightarrow> Some (conn\<lparr> cs_output_buffer := response, cs_output_offset := 0 \<rparr>)
            | SendError \<Rightarrow> None)
         else Some (conn\<lparr> cs_output_buffer := drop (cs_output_offset conn) (cs_output_buffer conn) @ response, cs_output_offset := 0 \<rparr>))"

definition dispatch_next :: "ConnectionState \<Rightarrow> TcpServer \<Rightarrow> TcpServer" where
  "dispatch_next conn sv =
     (case cs_pending_requests conn of
        [] \<Rightarrow> put_conn conn sv
      | next_req # rest \<Rightarrow>
          submit (cs_conn_id conn) next_req (put_conn (conn\<lparr> cs_pending_requests := rest, cs_in_flight := True \<rparr>) sv))"

definition process_completion :: "(u64 \<Rightarrow> send_result) \<Rightarrow> Completion \<Rightarrow> TcpServer \<Rightarrow> TcpServer" where
  "process_completion net cpl sv =
     (case find_conn sv (cm_conn_id cpl) of
        None \<Rightarrow> sv
      | Some conn \<Rightarrow>
          (case deliver (sf_max_output_buffer_bytes (sv_config sv)) (net (cm_conn_id cpl)) (cm_response_bytes cpl)
                  (conn\<lparr> cs_in_flight := False \<rparr>) of
             None \<Rightarrow> close_connection (cs_conn_id conn) sv
           | Some conn' \<Rightarrow> dispatch_next conn' sv))"

definition process_completions :: "(u64 \<Rightarrow> send_result) \<Rightarrow> TcpServer \<Rightarrow> TcpServer" where
  "process_completions net sv =
     (let (comps, q) = cq_pop_all (sv_comp_queue sv)
      in fold (process_completion net) comps (sv\<lparr> sv_comp_queue := q \<rparr>))"

section \<open>Read stalls\<close>

text \<open>The comparison is made in 64 bits: the elapsed seconds are signed and the limit is not negative.\<close>

definition stalled :: "ServerConfig \<Rightarrow> int \<Rightarrow> ConnectionState \<Rightarrow> bool" where
  "stalled config now conn \<longleftrightarrow> cs_has_active_read_stall conn \<and>
     (now - cs_last_read_time conn) sdiv 1000000000 \<ge> int (unat (sf_read_stall_timeout_sec config))"

definition check_read_stalls :: "int \<Rightarrow> TcpServer \<Rightarrow> TcpServer" where
  "check_read_stalls now sv =
     (let to_close = map fst (filter (\<lambda>(conn_id, conn). stalled (sv_config sv) now conn) (sv_connections sv))
      in fold close_connection to_close sv)"

section \<open>The event loop\<close>

text \<open>The events the poll set asks for.\<close>

definition can_read :: "ServerConfig \<Rightarrow> ConnectionState \<Rightarrow> bool" where
  "can_read config conn \<longleftrightarrow> buffered_bytes (cs_assembler conn) < sf_max_input_buffer_bytes config \<and>
     length (cs_pending_requests conn) < 1000 \<and> \<not> cs_close_after_send conn"

definition wants_write :: "ConnectionState \<Rightarrow> bool" where
  "wants_write conn \<longleftrightarrow> cs_output_offset conn < length (cs_output_buffer conn)"

text \<open>
  What a client's socket answers in one pass: the events of the poll, the result of the \<^verbatim>\<open>send\<close>
  of buffered output, the segments \<^verbatim>\<open>recv\<close> returns (each with the time at which it is read), how
  the reads end, and the result of the one \<^verbatim>\<open>send\<close> the input handling may make itself.
\<close>

datatype recv_end = RecvWouldBlock | RecvClosed | RecvError

record SocketIO =
  io_error :: bool
  io_out :: bool
  io_in :: bool
  io_sent :: send_result
  io_chunks :: "(int \<times> bytes) list"
  io_recv_end :: recv_end
  io_reply_sent :: send_result

text \<open>Output; \<open>None\<close>: the connection is to be closed.\<close>

definition handle_pollout :: "SocketIO \<Rightarrow> ConnectionState \<Rightarrow> ConnectionState option" where
  "handle_pollout io conn =
     (let data = drop (cs_output_offset conn) (cs_output_buffer conn); conn1 = socket_send (io_sent io) data conn
      in case send_answer (io_sent io) data of
           Sent n \<Rightarrow>
             if n > 0 then
               (let conn2 = conn1\<lparr> cs_output_offset := cs_output_offset conn1 + n \<rparr>
                in if cs_output_offset conn2 = length (cs_output_buffer conn2)
                   then (if cs_close_after_send conn2 then None else Some (conn2\<lparr> cs_output_buffer := [], cs_output_offset := 0 \<rparr>))
                   else Some conn2)
             else Some conn1
         | SendWouldBlock \<Rightarrow> Some conn1
         | SendError \<Rightarrow> None)"

definition recv_chunk :: "int \<times> bytes \<Rightarrow> ConnectionState \<Rightarrow> ConnectionState" where
  "recv_chunk chunk conn = conn\<lparr> cs_last_read_time := fst chunk, cs_assembler := push_bytes (cs_assembler conn) (snd chunk) \<rparr>"

text \<open>The extraction loop: each frame is submitted or, while a request is in flight, kept for later.\<close>

function extract_loop ::
  "send_result \<Rightarrow> Frame \<Rightarrow> ConnectionState \<Rightarrow> TcpServer \<Rightarrow> fault + (FrameExtractResult \<times> ConnectionState \<times> TcpServer)" where
  "extract_loop r frame0 conn0 sv =
     (case extract_next_frame (cs_assembler conn0) frame0 of
        (res, frame, assembler) \<Rightarrow>
          let conn = conn0\<lparr> cs_assembler := assembler \<rparr>
          in if res \<noteq> FrameReady then Inr (res, conn, sv)
             else if fr_type frame = SHUTDOWN then
               (case frame_encode \<lparr> fr_length = HEADER_SIZE, fr_type = SHUTDOWN_OK, fr_request_id = fr_request_id frame, fr_body = [] \<rparr> of
                  None \<Rightarrow> Inl EncodeFault
                | Some encoded \<Rightarrow> Inr (res, socket_send r encoded conn, request_stop sv))
             else if cs_in_flight conn
             then extract_loop r frame (conn\<lparr> cs_pending_requests := cs_pending_requests conn @ [frame] \<rparr>) sv
             else extract_loop r frame (conn\<lparr> cs_in_flight := True \<rparr>) (submit (cs_conn_id conn) frame sv))"
  by pat_completeness auto
termination
  by (relation "measure (\<lambda>(_, _, conn, _). length (unread (cs_assembler conn)))") (auto dest: extract_next_frame_decreases [OF sym])

declare extract_loop.simps [simp del]

text \<open>
  Input. The first component says that the connection is to be closed. The last statement of the
  code writes to the connection, which \<^verbatim>\<open>queue_immediate_error_and_close\<close> may have freed.
\<close>

definition handle_pollin :: "SocketIO \<Rightarrow> ConnectionState \<Rightarrow> TcpServer \<Rightarrow> fault + bool \<times> TcpServer" where
  "handle_pollin io conn0 sv0 =
     (let conn1 = fold recv_chunk (io_chunks io) conn0
      in if io_recv_end io \<noteq> RecvWouldBlock then Inr (True, put_conn conn1 sv0)
         else case extract_loop (io_reply_sent io) default_Frame conn1 sv0 of
           Inl e \<Rightarrow> Inl e
         | Inr (res, conn, sv) \<Rightarrow>
             (case (if res = ErrorLengthTooSmall then
                      queue_immediate_error_and_close (io_reply_sent io) conn
                        (create_error_frame 0 MALFORMED_FRAME ''Malformed frame: length less than header size'') sv
                    else if res = ErrorLengthTooLarge then
                      queue_immediate_error_and_close (io_reply_sent io) conn
                        (create_error_frame 0 FRAME_TOO_LARGE ''Frame size exceeds maximum limit of 1 MiB'') sv
                    else Inr (put_conn conn sv)) of
                Inl e \<Rightarrow> Inl e
              | Inr sv' \<Rightarrow>
                  (case find_conn sv' (cs_conn_id conn) of
                     None \<Rightarrow> Inl UseAfterFree
                   | Some conn' \<Rightarrow>
                       Inr (False, put_conn (conn'\<lparr> cs_has_active_read_stall := has_partial_frame (cs_assembler conn') \<rparr>) sv'))))"

definition handle_client :: "SocketIO \<Rightarrow> u64 \<Rightarrow> TcpServer \<Rightarrow> fault + bool \<times> TcpServer" where
  "handle_client io conn_id sv =
     (case find_conn sv conn_id of
        None \<Rightarrow> Inr (False, sv)
      | Some conn \<Rightarrow>
          if io_error io then Inr (True, sv)
          else case (if io_out io then handle_pollout io conn else Some conn) of
            None \<Rightarrow> Inr (True, sv)
          | Some conn' \<Rightarrow> if io_in io then handle_pollin io conn' sv else Inr (False, put_conn conn' sv))"

fun handle_clients :: "(u64 \<times> SocketIO) list \<Rightarrow> TcpServer \<Rightarrow> fault + u64 list \<times> TcpServer" where
  "handle_clients [] sv = Inr ([], sv)"
| "handle_clients ((conn_id, io) # rest) sv =
     (case handle_client io conn_id sv of
        Inl e \<Rightarrow> Inl e
      | Inr (closes, sv1) \<Rightarrow>
          (case handle_clients rest sv1 of
             Inl e \<Rightarrow> Inl e
           | Inr (to_close, sv2) \<Rightarrow> Inr (if closes then conn_id # to_close else to_close, sv2)))"

text \<open>
  One pass of the loop. \<^verbatim>\<open>WSAPoll\<close> reports an event only where the poll set asks for it (errors
  always); the poll set is that of the connections at the time of the call. What the workers do
  meanwhile is left out here; \<open>server_step\<close> of the theory \<open>ServerLaws\<close> interleaves it.
\<close>

record LoopIO =
  lp_poll_failed :: bool
  lp_listen :: bool
  lp_peers :: "(string \<times> u16 \<times> int) list"
  lp_wakeup :: bool
  lp_net :: "u64 \<Rightarrow> send_result"
  lp_clients :: "u64 \<Rightarrow> SocketIO"
  lp_net_after :: "u64 \<Rightarrow> send_result"
  lp_now :: int

definition poll_events :: "LoopIO \<Rightarrow> TcpServer \<Rightarrow> (u64 \<times> SocketIO) list" where
  "poll_events lp sv = map (\<lambda>(conn_id, conn).
     (conn_id, (lp_clients lp conn_id)\<lparr> io_in := io_in (lp_clients lp conn_id) \<and> can_read (sv_config sv) conn,
        io_out := io_out (lp_clients lp conn_id) \<and> wants_write conn \<rparr>)) (sv_connections sv)"

text \<open>The first component says that the loop goes on.\<close>

definition event_loop_body :: "LoopIO \<Rightarrow> TcpServer \<Rightarrow> fault + bool \<times> TcpServer" where
  "event_loop_body lp sv =
     (if lp_poll_failed lp then Inr (False, sv)
      else let sv1 = (if sv_listening sv \<and> lp_listen lp then accept_new_connections (lp_peers lp) sv else sv);
               sv2 = (if lp_wakeup lp then process_completions (lp_net lp) sv1 else sv1)
        in case handle_clients (poll_events lp sv) sv2 of
             Inl e \<Rightarrow> Inl e
           | Inr (to_close, sv3) \<Rightarrow>
               (let sv4 = fold close_connection to_close sv3;
                    sv5 = process_completions (lp_net_after lp) sv4
                in Inr (True, check_read_stalls (lp_now lp) sv5)))"

text \<open>The loop, for the answers of as many passes as are given.\<close>

fun event_loop :: "LoopIO list \<Rightarrow> TcpServer \<Rightarrow> fault + TcpServer" where
  "event_loop [] sv = Inr sv"
| "event_loop (lp # lps) sv =
     (if sv_shutdown_requested sv then Inr sv
      else case event_loop_body lp sv of
        Inl e \<Rightarrow> Inl e
      | Inr (goes_on, sv') \<Rightarrow> if goes_on then event_loop lps sv' else Inr sv')"

section \<open>Shutdown\<close>

definition any_in_flight :: "TcpServer \<Rightarrow> bool" where
  "any_in_flight sv \<longleftrightarrow> list_ex (\<lambda>(conn_id, conn). cs_in_flight conn \<or> cs_pending_requests conn \<noteq> []) (sv_connections sv)"

text \<open>A round of the wait, with the seconds elapsed; the second component says that the wait is over.\<close>

definition wait_round :: "int \<Rightarrow> (u64 \<Rightarrow> send_result) \<Rightarrow> TcpServer \<Rightarrow> TcpServer \<times> bool" where
  "wait_round elapsed net sv =
     (if \<not> any_in_flight sv then (sv, True)
      else if elapsed \<ge> 5 then (sv, True)
      else (process_completions net sv, False))"

definition flush_output :: "send_result \<Rightarrow> ConnectionState \<Rightarrow> ConnectionState" where
  "flush_output r conn =
     (if cs_output_offset conn < length (cs_output_buffer conn)
      then socket_send r (drop (cs_output_offset conn) (cs_output_buffer conn)) conn else conn)"

text \<open>
  What follows the wait: the connections as they are closed, and the server whose workers are to
  be joined. The joins return when \<open>pool_joined\<close> holds; then \<^verbatim>\<open>m_running\<close> is reset.
\<close>

definition close_all :: "(u64 \<Rightarrow> send_result) \<Rightarrow> TcpServer \<Rightarrow> ConnectionState list \<times> TcpServer" where
  "close_all net sv =
     (map (\<lambda>(conn_id, conn). flush_output (net conn_id) conn) (sv_connections sv),
      sv\<lparr> sv_connections := [], sv_thread_pool := stop_pool (sv_thread_pool sv) \<rparr>)"

text \<open>
  The whole of \<^verbatim>\<open>wait_until_stopped\<close>, for the answers of as many rounds as are given. What the workers do
  during the rounds and the joins is left out here, as in \<open>event_loop_body\<close>.
\<close>

fun wait_rounds :: "(int \<times> (u64 \<Rightarrow> send_result)) list \<Rightarrow> TcpServer \<Rightarrow> TcpServer" where
  "wait_rounds [] sv = sv"
| "wait_rounds ((elapsed, net) # rounds) sv =
     (case wait_round elapsed net sv of (sv', over) \<Rightarrow> if over then sv' else wait_rounds rounds sv')"

definition wait_until_stopped :: "(int \<times> (u64 \<Rightarrow> send_result)) list \<Rightarrow> (u64 \<Rightarrow> send_result) \<Rightarrow> TcpServer \<Rightarrow> TcpServer" where
  "wait_until_stopped rounds net sv =
     (if \<not> sv_running sv then sv
      else (snd (close_all net (wait_rounds rounds (sv\<lparr> sv_listening := False \<rparr>))))\<lparr> sv_running := False \<rparr>)"

definition destroy_TcpServer :: "(int \<times> (u64 \<Rightarrow> send_result)) list \<Rightarrow> (u64 \<Rightarrow> send_result) \<Rightarrow> TcpServer \<Rightarrow> TcpServer" where
  "destroy_TcpServer rounds net sv = wait_until_stopped rounds net (request_stop sv)"

text \<open>The constructor with the default limits.\<close>

definition make_TcpServer_default :: "nat \<Rightarrow> string \<Rightarrow> u16 \<Rightarrow> Broker \<Rightarrow> TcpServer" where
  "make_TcpServer_default hardware_concurrency host port b =
     make_TcpServer ((default_ServerConfig hardware_concurrency)\<lparr> sf_host := host, sf_port := port \<rparr>) b"

end
