(* ===== verification/ServerLaws.thy ===== *)
theory ServerLaws
  imports TcpServer BrokerLaws
begin

text \<open>
  The server as a state machine: the steps of the thread that owns the sockets, of the workers and
  of the reaper in any order. The invariant \<open>server_inv\<close> says that a connection has at most one
  request with the workers, that identifiers of connections are never used again, and that the
  limit of connections holds. A step carries what it received or answered, so that a run has a
  history.
\<close>

section \<open>Steps\<close>

text \<open>The frames a pass over a client's input takes: all that are complete, up to a \<^verbatim>\<open>SHUTDOWN\<close>.\<close>

definition up_to_shutdown :: "Frame list \<Rightarrow> Frame list" where
  "up_to_shutdown fs = takeWhile (\<lambda>f. fr_type f \<noteq> SHUTDOWN) fs @ take 1 (dropWhile (\<lambda>f. fr_type f \<noteq> SHUTDOWN) fs)"

definition frames_taken :: "SocketIO \<Rightarrow> ConnectionState \<Rightarrow> Frame list" where
  "frames_taken io conn =
     (if io_in io then up_to_shutdown (fst (drain (cs_assembler (fold recv_chunk (io_chunks io) conn)))) else [])"

text \<open>
  What the socket library promises: \<^verbatim>\<open>send\<close> of a non-empty buffer takes at least one byte or
  fails; \<^verbatim>\<open>WSAPoll\<close> reports only the events that were asked for.
\<close>

definition sent_ok :: "send_result \<Rightarrow> bool" where
  "sent_ok r \<longleftrightarrow> r \<noteq> Sent 0"

definition io_ok :: "SocketIO \<Rightarrow> ConnectionState \<Rightarrow> bool" where
  "io_ok io conn \<longleftrightarrow> (io_in io \<longrightarrow> \<not> cs_close_after_send conn) \<and> (io_out io \<longrightarrow> wants_write conn) \<and>
     sent_ok (io_sent io) \<and> sent_ok (io_reply_sent io)"

datatype server_label = Silent | Received u64 "Frame list" | Replied u64 Frame bytes

inductive server_step :: "TcpServer \<Rightarrow> server_label \<Rightarrow> TcpServer \<Rightarrow> bool" where
  accept: "sv_listening sv \<Longrightarrow> sv_next_conn_id sv \<noteq> - 1 \<Longrightarrow> server_step sv Silent (accept_one peer sv)"
| completions: "\<forall>c. sent_ok (net c) \<Longrightarrow> server_step sv Silent (process_completions net sv)"
| client: "find_conn sv c = Some conn \<Longrightarrow> io_ok io conn \<Longrightarrow> handle_client io c sv = Inr (False, sv') \<Longrightarrow>
    server_step sv (Received c (frames_taken io conn)) sv'"
| client_marked: "find_conn sv c = Some conn \<Longrightarrow> io_ok io conn \<Longrightarrow> handle_client io c sv = Inr (True, sv') \<Longrightarrow> server_step sv Silent sv'"
| close: "server_step sv Silent (close_connection c sv)"
| stalls: "server_step sv Silent (check_read_stalls now sv)"
| worker_take: "i < length (pl_workers (sv_thread_pool sv)) \<Longrightarrow> pl_workers (sv_thread_pool sv) ! i = AtPop \<Longrightarrow>
    server_step sv Silent (sv\<lparr> sv_thread_pool := worker_take i (sv_thread_pool sv) \<rparr>)"
| worker_finish: "i < length (pl_workers (sv_thread_pool sv)) \<Longrightarrow> pl_workers (sv_thread_pool sv) ! i = Handling task \<Longrightarrow>
    worker_finish a i task (sv_thread_pool sv) (sv_comp_queue sv) (sv_broker sv) = Some (pool, q, b) \<Longrightarrow>
    server_step sv (Replied (tk_conn_id task) (tk_request task) (cm_response_bytes (last q)))
      (sv\<lparr> sv_thread_pool := pool, sv_comp_queue := q, sv_broker := b \<rparr>)"
| reaper: "server_step sv Silent (reaper_pass now sv)"
| stop_listening: "sv_shutdown_requested sv \<Longrightarrow> server_step sv Silent (sv\<lparr> sv_listening := False \<rparr>)"
| close_all: "\<not> sv_listening sv \<Longrightarrow> server_step sv Silent (snd (close_all net sv))"

inductive server_trace :: "TcpServer \<Rightarrow> server_label list \<Rightarrow> TcpServer \<Rightarrow> bool" where
  start: "server_trace sv [] sv"
| step: "server_trace sv ls sv1 \<Longrightarrow> server_step sv1 l sv2 \<Longrightarrow> server_trace sv (ls @ [l]) sv2"

text \<open>The requests a connection has received and the replies made for it, each with its request.\<close>

fun received_by :: "u64 \<Rightarrow> server_label \<Rightarrow> Frame list" where
  "received_by c (Received d fs) = (if d = c then fs else [])"
| "received_by c _ = []"

fun replied_by :: "u64 \<Rightarrow> server_label \<Rightarrow> (Frame \<times> bytes) list" where
  "replied_by c (Replied d req resp) = (if d = c then [(req, resp)] else [])"
| "replied_by c _ = []"

definition received :: "u64 \<Rightarrow> server_label list \<Rightarrow> Frame list" where
  "received c ls = concat (map (received_by c) ls)"

definition replied :: "u64 \<Rightarrow> server_label list \<Rightarrow> (Frame \<times> bytes) list" where
  "replied c ls = concat (map (replied_by c) ls)"

lemma received_simps [simp]: "received c [] = []" "received c (ls @ [l]) = received c ls @ received_by c l"
  by (simp_all add: received_def)

lemma replied_simps [simp]: "replied c [] = []" "replied c (ls @ [l]) = replied c ls @ replied_by c l"
  by (simp_all add: replied_def)

section \<open>Invariant\<close>

definition output_ok :: "ConnectionState \<Rightarrow> bool" where
  "output_ok conn \<longleftrightarrow> wants_write conn \<or> cs_output_buffer conn = [] \<and> cs_output_offset conn = 0"

definition conn_ok :: "ConnectionState \<Rightarrow> bool" where
  "conn_ok conn \<longleftrightarrow> fa_inv (cs_assembler conn) \<and> (cs_pending_requests conn \<noteq> [] \<longrightarrow> cs_in_flight conn) \<and> output_ok conn"

definition completions_of :: "u64 \<Rightarrow> TcpServer \<Rightarrow> Completion list" where
  "completions_of c sv = filter (\<lambda>cpl. cm_conn_id cpl = c) (sv_comp_queue sv)"

definition no_shutdown :: "Frame list \<Rightarrow> bool" where
  "no_shutdown fs \<longleftrightarrow> (\<forall>f \<in> set fs. fr_type f \<noteq> SHUTDOWN)"

text \<open>
  The history of a connection: its requests are those answered, the one with the workers and those
  waiting, in this order; what the socket has taken, the buffered output and the reply not yet
  fetched are the replies made, in this order.
\<close>

definition order_ok :: "Frame list \<Rightarrow> (Frame \<times> bytes) list \<Rightarrow> Task list \<Rightarrow> Completion list \<Rightarrow> ConnectionState \<Rightarrow> bool" where
  "order_ok rcv rep tasks cpls conn \<longleftrightarrow> no_shutdown rcv \<longrightarrow>
     rcv = map fst rep @ map tk_request tasks @ cs_pending_requests conn \<and>
     (\<not> cs_close_after_send conn \<longrightarrow>
        cs_socket conn @ drop (cs_output_offset conn) (cs_output_buffer conn) @ concat (map cm_response_bytes cpls) =
        concat (map snd rep))"

text \<open>What holds of one identifier \<open>c\<close>: its tasks, its completions and, while it is open, its connection.\<close>

definition local_ok ::
  "Frame list \<Rightarrow> (Frame \<times> bytes) list \<Rightarrow> u64 \<Rightarrow> u64 \<Rightarrow> Task list \<Rightarrow> Completion list \<Rightarrow> ConnectionState option \<Rightarrow> bool" where
  "local_ok rcv rep nxt c tasks cpls mconn \<longleftrightarrow>
     length tasks + length cpls \<le> 1 \<and>
     (nxt \<le> c \<longrightarrow> tasks = [] \<and> cpls = [] \<and> rcv = [] \<and> rep = [] \<and> mconn = None) \<and>
     (\<forall>conn. mconn = Some conn \<longrightarrow> cs_conn_id conn = c \<and> conn_ok conn \<and>
        (cs_in_flight conn \<longleftrightarrow> tasks \<noteq> [] \<or> cpls \<noteq> []) \<and> order_ok rcv rep tasks cpls conn)"

type_synonym history = "(u64 \<Rightarrow> Frame list) \<times> (u64 \<Rightarrow> (Frame \<times> bytes) list)"

definition local_inv :: "history \<Rightarrow> TcpServer \<Rightarrow> u64 \<Rightarrow> bool" where
  "local_inv h sv c \<longleftrightarrow>
     local_ok (fst h c) (snd h c) (sv_next_conn_id sv) c (pool_tasks c (sv_thread_pool sv)) (completions_of c sv) (find_conn sv c)"

definition server_inv :: "history \<Rightarrow> TcpServer \<Rightarrow> bool" where
  "server_inv h sv \<longleftrightarrow>
     distinct (map fst (sv_connections sv)) \<and> (\<forall>c. local_inv h sv c) \<and>
     (pl_stopped (sv_thread_pool sv) \<longrightarrow> sv_connections sv = [] \<and> \<not> sv_listening sv) \<and>
     length (sv_connections sv) \<le> sf_max_connections (sv_config sv)"

subsection \<open>Access to connections\<close>

lemma find_conn_put [simp]: "find_conn (put_conn conn sv) c = (if c = cs_conn_id conn then Some conn else find_conn sv c)"
  by (simp add: find_conn_def put_conn_def update_conv')

lemma find_conn_close [simp]: "find_conn (close_connection d sv) c = (if c = d then None else find_conn sv c)"
  by (simp add: find_conn_def close_connection_def delete_conv')

lemma find_conn_other [simp]:
  "find_conn (submit d req sv) c = find_conn sv c" "find_conn (request_stop sv) c = find_conn sv c"
  "find_conn (sv\<lparr> sv_comp_queue := q \<rparr>) c = find_conn sv c" "find_conn (sv\<lparr> sv_thread_pool := pool \<rparr>) c = find_conn sv c"
  "find_conn (sv\<lparr> sv_next_conn_id := n \<rparr>) c = find_conn sv c"
  by (simp_all add: find_conn_def submit_def request_stop_def)

lemma fields_put [simp]:
  "sv_thread_pool (put_conn conn sv) = sv_thread_pool sv" "sv_comp_queue (put_conn conn sv) = sv_comp_queue sv"
  "sv_config (put_conn conn sv) = sv_config sv" "sv_next_conn_id (put_conn conn sv) = sv_next_conn_id sv"
  "sv_listening (put_conn conn sv) = sv_listening sv" "sv_broker (put_conn conn sv) = sv_broker sv"
  by (simp_all add: put_conn_def)

lemma fields_close [simp]:
  "sv_thread_pool (close_connection c sv) = sv_thread_pool sv" "sv_comp_queue (close_connection c sv) = sv_comp_queue sv"
  "sv_config (close_connection c sv) = sv_config sv" "sv_next_conn_id (close_connection c sv) = sv_next_conn_id sv"
  "sv_listening (close_connection c sv) = sv_listening sv" "sv_broker (close_connection c sv) = sv_broker sv"
  by (simp_all add: close_connection_def)

lemma fields_submit [simp]:
  "sv_connections (submit c req sv) = sv_connections sv" "sv_comp_queue (submit c req sv) = sv_comp_queue sv"
  "sv_config (submit c req sv) = sv_config sv" "sv_next_conn_id (submit c req sv) = sv_next_conn_id sv"
  "sv_listening (submit c req sv) = sv_listening sv" "pl_stopped (sv_thread_pool (submit c req sv)) = pl_stopped (sv_thread_pool sv)"
  by (simp_all add: submit_def enqueue_def)

lemma pool_tasks_submit [simp]:
  "\<not> pl_stopped (sv_thread_pool sv) \<Longrightarrow> pool_tasks c (sv_thread_pool (submit d req sv)) =
     pool_tasks c (sv_thread_pool sv) @ (if d = c then [\<lparr> tk_conn_id = d, tk_request = req \<rparr>] else [])"
  by (simp add: submit_def pool_tasks_enqueue)

lemma completions_of_simps [simp]:
  "completions_of c (put_conn conn sv) = completions_of c sv" "completions_of c (close_connection d sv) = completions_of c sv"
  "completions_of c (submit d req sv) = completions_of c sv" "completions_of c (request_stop sv) = completions_of c sv"
  "completions_of c (sv\<lparr> sv_next_conn_id := n \<rparr>) = completions_of c sv"
  by (simp_all add: completions_of_def request_stop_def)

lemma put_conn_keeps:
  assumes "find_conn sv (cs_conn_id conn) \<noteq> None"
  shows "map fst (sv_connections (put_conn conn sv)) = map fst (sv_connections sv)"
    "length (sv_connections (put_conn conn sv)) = length (sv_connections sv)"
proof -
  show e: "map fst (sv_connections (put_conn conn sv)) = map fst (sv_connections sv)"
    using assms by (simp add: put_conn_def find_conn_def update_keys map_of_eq_None_iff image_iff)
  show "length (sv_connections (put_conn conn sv)) = length (sv_connections sv)"
    using arg_cong [OF e, of length] by simp
qed

lemma close_connection_keeps:
  "distinct (map fst (sv_connections sv)) \<Longrightarrow> distinct (map fst (sv_connections (close_connection c sv)))"
  "length (sv_connections (close_connection c sv)) \<le> length (sv_connections sv)"
  by (simp_all add: close_connection_def distinct_delete length_delete_le)

lemma local_inv_cong:
  assumes "local_inv h sv c" "find_conn sv' c = find_conn sv c" "pool_tasks c (sv_thread_pool sv') = pool_tasks c (sv_thread_pool sv)"
    and "completions_of c sv' = completions_of c sv" "sv_next_conn_id sv' = sv_next_conn_id sv" "fst h' c = fst h c" "snd h' c = snd h c"
  shows "local_inv h' sv' c"
  using assms by (simp add: local_inv_def)

lemma local_ok_closed: "local_ok rcv rep nxt c tasks cpls mconn \<Longrightarrow> local_ok rcv rep nxt c tasks cpls None"
  by (simp add: local_ok_def)

text \<open>A step that touches one identifier and keeps the set of connections.\<close>

lemma server_inv_local:
  assumes inv: "server_inv h sv"
    and keys: "map fst (sv_connections sv') = map fst (sv_connections sv)"
    and same: "sv_config sv' = sv_config sv" "sv_next_conn_id sv' = sv_next_conn_id sv" "sv_listening sv' = sv_listening sv"
      "pl_stopped (sv_thread_pool sv') = pl_stopped (sv_thread_pool sv)"
    and other: "\<And>c. c \<noteq> d \<Longrightarrow> find_conn sv' c = find_conn sv c \<and> pool_tasks c (sv_thread_pool sv') = pool_tasks c (sv_thread_pool sv) \<and>
      completions_of c sv' = completions_of c sv \<and> fst h' c = fst h c \<and> snd h' c = snd h c"
    and new: "local_inv h' sv' d"
  shows "server_inv h' sv'"
proof -
  have "local_inv h' sv' c" for c
    using new inv other [of c] same(2) by (cases "c = d") (auto simp: server_inv_def intro: local_inv_cong)
  moreover have "length (sv_connections sv') = length (sv_connections sv)" "sv_connections sv = [] \<Longrightarrow> sv_connections sv' = []"
    using map_eq_imp_length_eq [OF keys] keys by auto
  ultimately show ?thesis using inv keys same by (simp add: server_inv_def)
qed

lemma server_inv_close: "server_inv h sv \<Longrightarrow> server_inv h (close_connection c sv)"
proof -
  assume inv: "server_inv h sv"
  have "local_inv h (close_connection c sv) d" for d
  proof -
    have "local_inv h sv d" using inv by (simp add: server_inv_def)
    then show ?thesis by (auto simp: local_inv_def intro: local_ok_closed)
  qed
  moreover have "sv_connections (close_connection c sv) = []" if "sv_connections sv = []" using that by (simp add: close_connection_def)
  ultimately show ?thesis using inv close_connection_keeps(1) [of sv c] close_connection_keeps(2) [of c sv] by (auto simp: server_inv_def)
qed

subsection \<open>Completions\<close>

lemma socket_send_fields [simp]:
  "cs_conn_id (socket_send r d conn) = cs_conn_id conn" "cs_assembler (socket_send r d conn) = cs_assembler conn"
  "cs_pending_requests (socket_send r d conn) = cs_pending_requests conn" "cs_in_flight (socket_send r d conn) = cs_in_flight conn"
  "cs_output_buffer (socket_send r d conn) = cs_output_buffer conn" "cs_output_offset (socket_send r d conn) = cs_output_offset conn"
  "cs_close_after_send (socket_send r d conn) = cs_close_after_send conn"
  "cs_last_read_time (socket_send r d conn) = cs_last_read_time conn"
  by (simp_all add: socket_send_def split: send_result.split)

lemma cs_socket_send [simp]:
  "cs_socket (socket_send r d conn) = cs_socket conn @ (case r of Sent n \<Rightarrow> take n d | _ \<Rightarrow> [])"
  by (auto simp: socket_send_def send_answer_def min_def split: send_result.split)

lemma socket_send_eq:
  "socket_send r d conn = conn\<lparr> cs_socket := cs_socket conn @ (case r of Sent n \<Rightarrow> take n d | _ \<Rightarrow> []) \<rparr>"
  by (auto simp: socket_send_def send_answer_def min_def split: send_result.split)

lemma deliver_ok:
  assumes "deliver mx r resp conn = Some conn'" "sent_ok r" "output_ok conn"
  shows "cs_conn_id conn' = cs_conn_id conn" "cs_assembler conn' = cs_assembler conn" "cs_in_flight conn' = cs_in_flight conn"
    "cs_pending_requests conn' = cs_pending_requests conn" "cs_close_after_send conn' = cs_close_after_send conn"
    "output_ok conn'"
    "cs_socket conn' @ drop (cs_output_offset conn') (cs_output_buffer conn') =
       cs_socket conn @ drop (cs_output_offset conn) (cs_output_buffer conn) @ resp"
  using assms
  by (auto simp: deliver_def Let_def output_ok_def wants_write_def sent_ok_def send_answer_def split: if_splits send_result.splits)

lemma process_completion_comp_queue:
  "process_completion net cpl (sv\<lparr> sv_comp_queue := q \<rparr>) = (process_completion net cpl sv)\<lparr> sv_comp_queue := q \<rparr>"
  by (auto simp: process_completion_def dispatch_next_def put_conn_def close_connection_def submit_def find_conn_def
      split: option.split list.split)

lemma close_comp_queue: "close_connection c (sv\<lparr> sv_comp_queue := q \<rparr>) = (close_connection c sv)\<lparr> sv_comp_queue := q \<rparr>"
  by (cases sv) (simp add: close_connection_def)

lemma completions_of_Cons:
  "sv_comp_queue sv = cpl # q \<Longrightarrow>
     completions_of c sv = (if cm_conn_id cpl = c then [cpl] else []) @ completions_of c (sv\<lparr> sv_comp_queue := q \<rparr>)"
  by (simp add: completions_of_def)

lemma drop_completion_inv:
  assumes inv: "server_inv h sv" and q: "sv_comp_queue sv = cpl # q" and none: "find_conn sv (cm_conn_id cpl) = None"
  shows "server_inv h (sv\<lparr> sv_comp_queue := q \<rparr>)"
proof (rule server_inv_local [OF inv, where d = "cm_conn_id cpl"])
  have "local_inv h sv (cm_conn_id cpl)" using inv by (simp add: server_inv_def)
  then show "local_inv h (sv\<lparr> sv_comp_queue := q \<rparr>) (cm_conn_id cpl)"
    using none by (auto simp: local_inv_def local_ok_def completions_of_Cons [OF q])
qed (simp_all add: completions_of_Cons [OF q])

lemma dispatch_next_fields [simp]:
  "sv_comp_queue (dispatch_next conn sv) = sv_comp_queue sv" "sv_config (dispatch_next conn sv) = sv_config sv"
  "sv_next_conn_id (dispatch_next conn sv) = sv_next_conn_id sv" "sv_listening (dispatch_next conn sv) = sv_listening sv"
  "pl_stopped (sv_thread_pool (dispatch_next conn sv)) = pl_stopped (sv_thread_pool sv)"
  by (simp_all add: dispatch_next_def split: list.split)

lemma dispatch_next_find:
  "find_conn (dispatch_next conn sv) c =
     (if c = cs_conn_id conn then Some (if cs_pending_requests conn = [] then conn
        else conn\<lparr> cs_pending_requests := tl (cs_pending_requests conn), cs_in_flight := True \<rparr>) else find_conn sv c)"
  by (simp add: dispatch_next_def split: list.split)

lemma dispatch_next_tasks:
  "\<not> pl_stopped (sv_thread_pool sv) \<Longrightarrow> pool_tasks c (sv_thread_pool (dispatch_next conn sv)) =
     pool_tasks c (sv_thread_pool sv) @
     (if c = cs_conn_id conn \<and> cs_pending_requests conn \<noteq> [] then [\<lparr> tk_conn_id = c, tk_request = hd (cs_pending_requests conn) \<rparr>] else [])"
  by (auto simp: dispatch_next_def split: list.split)

lemma dispatch_next_keys:
  "find_conn sv (cs_conn_id conn) \<noteq> None \<Longrightarrow> map fst (sv_connections (dispatch_next conn sv)) = map fst (sv_connections sv)"
  by (auto simp: dispatch_next_def put_conn_keeps(1) split: list.split)

lemma process_completion_inv:
  assumes inv: "server_inv h sv" and q: "sv_comp_queue sv = cpl # q" and net: "\<forall>c. sent_ok (net c)"
  shows "server_inv h (process_completion net cpl (sv\<lparr> sv_comp_queue := q \<rparr>))"
proof (cases "find_conn sv (cm_conn_id cpl)")
  case None
  then show ?thesis using drop_completion_inv [OF inv q None] by (simp add: process_completion_def)
next
  case (Some conn)
  let ?c = "cm_conn_id cpl" and ?conn = "conn\<lparr> cs_in_flight := False \<rparr>" and ?sv = "sv\<lparr> sv_comp_queue := q \<rparr>"
  note cq = completions_of_Cons [OF q]
  have "local_inv h sv ?c" using inv by (simp add: server_inv_def)
  then have l: "pool_tasks ?c (sv_thread_pool sv) = []" "completions_of ?c ?sv = []" "?c < sv_next_conn_id sv"
      "cs_conn_id conn = ?c" "conn_ok conn" "order_ok (fst h ?c) (snd h ?c) [] [cpl] conn"
    using Some by (auto simp: local_inv_def local_ok_def cq not_le [symmetric])
  have st: "\<not> pl_stopped (sv_thread_pool sv)" using inv Some by (auto simp: server_inv_def find_conn_def)
  show ?thesis
  proof (cases "deliver (sf_max_output_buffer_bytes (sv_config sv)) (net ?c) (cm_response_bytes cpl) ?conn")
    case None
    have "server_inv h ((close_connection ?c sv)\<lparr> sv_comp_queue := q \<rparr>)"
      by (rule drop_completion_inv [OF server_inv_close [OF inv], where cpl = cpl]) (simp_all add: q)
    then show ?thesis using None Some l(4) by (simp add: process_completion_def close_comp_queue)
  next
    case (Some conn')
    then have d: "cs_pending_requests conn' = cs_pending_requests conn" "\<not> cs_in_flight conn'" "cs_conn_id conn' = ?c"
        "cs_close_after_send conn' = cs_close_after_send conn" "fa_inv (cs_assembler conn')"
        "output_ok conn'"
        "cs_socket conn' @ drop (cs_output_offset conn') (cs_output_buffer conn') =
           cs_socket conn @ drop (cs_output_offset conn) (cs_output_buffer conn) @ cm_response_bytes cpl"
      using deliver_ok [OF Some] net l(4,5) by (simp_all add: conn_ok_def output_ok_def wants_write_def)
    have "server_inv h (dispatch_next conn' ?sv)"
    proof (rule server_inv_local [OF inv, where d = ?c])
      show "local_inv h (dispatch_next conn' ?sv) ?c"
        using d l st by (auto simp: local_inv_def local_ok_def dispatch_next_find dispatch_next_tasks completions_of_def conn_ok_def order_ok_def
            output_ok_def wants_write_def neq_Nil_conv)
      show "map fst (sv_connections (dispatch_next conn' ?sv)) = map fst (sv_connections sv)"
        using dispatch_next_keys [of ?sv conn'] d(3) \<open>find_conn sv ?c = Some conn\<close> by simp
    qed (use d(3) st in \<open>simp_all add: dispatch_next_find dispatch_next_tasks cq completions_of_def q\<close>)
    then show ?thesis using \<open>find_conn sv ?c = Some conn\<close> Some by (simp add: process_completion_def)
  qed
qed

lemma fold_process_completion_inv:
  "server_inv h (sv\<lparr> sv_comp_queue := cpls \<rparr>) \<Longrightarrow> \<forall>c. sent_ok (net c) \<Longrightarrow>
     server_inv h (fold (process_completion net) cpls (sv\<lparr> sv_comp_queue := [] \<rparr>))"
proof (induction cpls arbitrary: sv)
  case (Cons cpl cpls)
  have "server_inv h ((process_completion net cpl sv)\<lparr> sv_comp_queue := cpls \<rparr>)"
    using process_completion_inv [OF Cons.prems(1) _ Cons.prems(2)] by (simp add: process_completion_comp_queue)
  from Cons.IH [OF this Cons.prems(2)] show ?case by (simp add: process_completion_comp_queue)
qed simp

lemma process_completions_inv:
  "server_inv h sv \<Longrightarrow> \<forall>c. sent_ok (net c) \<Longrightarrow> server_inv h (process_completions net sv)"
  using fold_process_completion_inv [of h "sv_comp_queue sv" sv net] by (simp add: process_completions_def)

lemma fold_close_inv: "server_inv h sv \<Longrightarrow> server_inv h (fold close_connection cs sv)"
  by (induction cs arbitrary: sv) (simp_all add: server_inv_close)

lemma check_read_stalls_inv: "server_inv h sv \<Longrightarrow> server_inv h (check_read_stalls now sv)"
  by (simp add: check_read_stalls_def fold_close_inv)

subsection \<open>New connections, workers, shutdown\<close>

lemma accept_one_inv:
  assumes inv: "server_inv h sv" and on: "sv_listening sv" "sv_next_conn_id sv \<noteq> - 1"
  shows "server_inv h (accept_one peer sv)"
proof -
  obtain ip port now where p: "peer = (ip, port, now)" by (cases peer)
  let ?n = "sv_next_conn_id sv" and ?sv = "put_conn (new_conn (sv_next_conn_id sv) ip port now) (sv\<lparr> sv_next_conn_id := sv_next_conn_id sv + 1 \<rparr>)"
  have l: "local_inv h sv c" for c using inv by (simp add: server_inv_def)
  have st: "\<not> pl_stopped (sv_thread_pool sv)" using inv on by (auto simp: server_inv_def)
  have n: "?n < ?n + 1" using unatSuc [of ?n] on(2) by (simp add: word_less_nat_alt add.commute eq_neg_iff_add_eq_0)
  show ?thesis
  proof (cases "length (sv_connections sv) \<ge> sf_max_connections (sv_config sv)")
    case False
    have fresh: "?n \<notin> fst ` set (sv_connections sv)"
      using l [of ?n] by (auto simp: local_inv_def local_ok_def find_conn_def map_of_eq_None_iff)
    have "local_inv h ?sv c" for c
    proof (cases "c = ?n")
      case True
      then show ?thesis using l [of ?n] n
        by (auto simp: local_inv_def local_ok_def new_conn_def conn_ok_def order_ok_def completions_of_def output_ok_def)
    next
      case other: False
      have "?n + 1 \<le> c \<Longrightarrow> ?n \<le> c" using n by simp
      then show ?thesis using l [of c] other
        by (auto simp: local_inv_def local_ok_def new_conn_def)
    qed
    moreover have "map fst (sv_connections ?sv) = map fst (sv_connections sv) @ [?n]"
      using fresh by (simp add: put_conn_def new_conn_def update_keys)
    moreover from this have "length (sv_connections ?sv) = Suc (length (sv_connections sv))"
      by (metis length_append_singleton length_map)
    ultimately show ?thesis using inv False fresh st p by (simp add: accept_one_def Let_def server_inv_def)
  qed (simp add: accept_one_def p inv)
qed

lemma worker_take_inv:
  assumes inv: "server_inv h sv" and w: "i < length (pl_workers (sv_thread_pool sv))" "pl_workers (sv_thread_pool sv) ! i = AtPop"
  shows "server_inv h (sv\<lparr> sv_thread_pool := worker_take i (sv_thread_pool sv) \<rparr>)"
proof -
  have "pool_tasks c (worker_take i (sv_thread_pool sv)) = pool_tasks c (sv_thread_pool sv)" for c
  proof -
    have "local_inv h sv c" using inv by (simp add: server_inv_def)
    then have "length (pool_tasks c (sv_thread_pool sv)) \<le> 1" by (auto simp: local_inv_def local_ok_def)
    then show ?thesis using mset_pool_tasks_take [OF w, of c]
      by (cases "pool_tasks c (sv_thread_pool sv)") (auto simp: mset_single_iff_right)
  qed
  moreover have "pl_stopped (worker_take i (sv_thread_pool sv)) = pl_stopped (sv_thread_pool sv)"
    by (simp add: worker_take_def tq_pop_def)
  ultimately show ?thesis using inv by (simp add: server_inv_def local_inv_def completions_of_def)
qed

lemma worker_finish_inv:
  assumes inv: "server_inv h sv" and w: "i < length (pl_workers (sv_thread_pool sv))" "pl_workers (sv_thread_pool sv) ! i = Handling task"
    and f: "worker_finish a i task (sv_thread_pool sv) (sv_comp_queue sv) (sv_broker sv) = Some (pool, q, b)"
  shows "server_inv (fst h, (snd h)(tk_conn_id task := snd h (tk_conn_id task) @ [(tk_request task, cm_response_bytes (last q))]))
    (sv\<lparr> sv_thread_pool := pool, sv_comp_queue := q, sv_broker := b \<rparr>)"
proof -
  let ?d = "tk_conn_id task" and ?p = "sv_thread_pool sv"
  obtain cpl where e: "pool = ?p\<lparr> pl_workers := (pl_workers ?p)[i := AtPop] \<rparr>" "q = sv_comp_queue sv @ [cpl]" "cm_conn_id cpl = ?d"
    using f by (auto simp: worker_finish_def bind_eq_Some_conv cq_push_def)
  have l: "local_inv h sv c" for c using inv by (simp add: server_inv_def)
  note m = mset_pool_tasks_finish [OF w, folded e(1)]
  have d: "pool_tasks ?d ?p = [task]" "pool_tasks ?d pool = []" "completions_of ?d sv = []"
    using l [of ?d] m [of ?d] by (auto simp: local_inv_def local_ok_def)
      (cases "pool_tasks ?d ?p"; auto)+
  have o: "pool_tasks c pool = pool_tasks c ?p" if "c \<noteq> ?d" for c
    using l [of c] m [of c] that by (cases "pool_tasks c ?p") (auto simp: local_inv_def local_ok_def mset_single_iff_right)
  show ?thesis
  proof (rule server_inv_local [OF inv, where d = ?d])
    show "local_inv (fst h, (snd h)(?d := snd h ?d @ [(tk_request task, cm_response_bytes (last q))]))
        (sv\<lparr> sv_thread_pool := pool, sv_comp_queue := q, sv_broker := b \<rparr>) ?d"
      using l [of ?d] d e(2,3) by (auto simp: local_inv_def local_ok_def completions_of_def find_conn_def order_ok_def)
  qed (use e o in \<open>simp_all add: completions_of_def find_conn_def\<close>)
qed

lemma close_all_inv: "server_inv h sv \<Longrightarrow> \<not> sv_listening sv \<Longrightarrow> server_inv h (snd (close_all net sv))"
proof -
  assume inv: "server_inv h sv" and "\<not> sv_listening sv"
  have "local_inv h (snd (close_all net sv)) c" for c
  proof -
    have "local_inv h sv c" using inv by (simp add: server_inv_def)
    from local_ok_closed [OF this [unfolded local_inv_def]] show ?thesis
      by (simp add: local_inv_def close_all_def completions_of_def find_conn_def)
  qed
  then show ?thesis using \<open>\<not> sv_listening sv\<close> by (simp add: server_inv_def) (simp add: close_all_def)
qed

lemma other_steps_inv:
  "server_inv h sv \<Longrightarrow> server_inv h (reaper_pass now sv)" "server_inv h sv \<Longrightarrow> server_inv h (sv\<lparr> sv_listening := False \<rparr>)"
  by (auto simp: reaper_pass_def server_inv_def local_inv_def completions_of_def find_conn_def split: option.split)

subsection \<open>Input\<close>

lemma extract_next_frame_out:
  "extract_next_frame fa o1 = (FrameReady, f, fa') \<Longrightarrow> extract_next_frame fa o2 = (FrameReady, f, fa')"
  "fst (extract_next_frame fa o1) = fst (extract_next_frame fa o2)"
  "snd (snd (extract_next_frame fa o1)) = snd (snd (extract_next_frame fa o2))"
  by (auto simp: extract_next_frame_def Let_def split: if_splits)

lemma encode_shutdown_ok:
  "frame_encode \<lparr> fr_length = HEADER_SIZE, fr_type = SHUTDOWN_OK, fr_request_id = i, fr_body = [] \<rparr> =
     Some (frame_bytes \<lparr> fr_length = HEADER_SIZE, fr_type = SHUTDOWN_OK, fr_request_id = i, fr_body = [] \<rparr>)"
  by (rule frame_encode_layout) simp

text \<open>
  The extraction loop on all complete frames up to a \<^verbatim>\<open>SHUTDOWN\<close>: the first goes to the workers
  unless a request is in flight already, the others wait.
\<close>

definition take_frames :: "Frame list \<Rightarrow> ConnectionState \<Rightarrow> ConnectionState" where
  "take_frames fs conn = conn\<lparr> cs_in_flight := cs_in_flight conn \<or> fs \<noteq> [],
     cs_pending_requests := cs_pending_requests conn @ (if cs_in_flight conn then fs else tl fs) \<rparr>"

definition submit_first :: "Frame list \<Rightarrow> ConnectionState \<Rightarrow> TcpServer \<Rightarrow> TcpServer" where
  "submit_first fs conn sv = (if cs_in_flight conn \<or> fs = [] then sv else submit (cs_conn_id conn) (hd fs) sv)"

definition before_shutdown :: "Frame list \<Rightarrow> Frame list" where
  "before_shutdown fs = takeWhile (\<lambda>f. fr_type f \<noteq> SHUTDOWN) fs"

lemma extract_loop_spec:
  assumes "fa_inv (cs_assembler conn)"
  shows "\<exists>res conn' sv' fa out. extract_loop r f0 conn sv = Inr (res, conn', sv') \<and>
    (let fs = fst (drain (cs_assembler conn)); gs = before_shutdown fs
     in conn' = (take_frames gs conn)\<lparr> cs_assembler := fa, cs_socket := cs_socket conn @ out \<rparr> \<and> fa_inv fa \<and>
        (gs = fs \<longrightarrow> out = [] \<and> (res, fa) = snd (drain (cs_assembler conn)) \<and> sv' = submit_first gs conn sv) \<and>
        (gs \<noteq> fs \<longrightarrow> res = FrameReady \<and> sv' = request_stop (submit_first gs conn sv)))"
  using assms
proof (induction r f0 conn sv rule: extract_loop.induct)
  case (1 r f0 conn sv)
  let ?fa = "cs_assembler conn"
  obtain res f fa where e: "extract_next_frame ?fa f0 = (res, f, fa)" by (cases "extract_next_frame ?fa f0")
  have inv: "fa_inv fa" using extract_next_frame_abs [OF "1.prems", of f0] e by (auto split: prod.splits)
  show ?case
  proof (cases "res = FrameReady")
    case False
    then have "drain ?fa = ([], res, fa)"
      using extract_next_frame_out(2,3) [of ?fa default_Frame f0] e by (auto simp: drain.simps [of ?fa] split: prod.splits)
    then show ?thesis using False inv
      by (subst extract_loop.simps) (auto simp: e take_frames_def submit_first_def before_shutdown_def Let_def)
  next
    case True
    obtain gs res' fa' where g: "drain fa = (gs, res', fa')" by (cases "drain fa")
    have d: "drain ?fa = (f # gs, res', fa')"
      using extract_next_frame_out(1) [OF e [unfolded True], of default_Frame] g by (simp add: drain.simps [of ?fa])
    show ?thesis
    proof (cases "fr_type f = SHUTDOWN")
      case True
      then show ?thesis using inv \<open>res = FrameReady\<close>
        by (subst extract_loop.simps)
           (simp add: e d encode_shutdown_ok take_frames_def submit_first_def before_shutdown_def Let_def socket_send_eq,
             intro exI conjI, rule refl, assumption)
    next
      case ns: False
      show ?thesis
      proof (cases "cs_in_flight conn")
        case True
        from "1.IH"(1) [OF e [symmetric] refl refl _ ns, simplified, OF \<open>res = FrameReady\<close> True inv] show ?thesis
          by (subst extract_loop.simps)
            (simp add: e d g ns True \<open>res = FrameReady\<close> Let_def take_frames_def submit_first_def before_shutdown_def)
      next
        case False
        from "1.IH"(2) [OF e [symmetric] refl refl _ ns, simplified, OF \<open>res = FrameReady\<close> False inv] show ?thesis
          by (subst extract_loop.simps)
            (simp add: e d g ns False \<open>res = FrameReady\<close> Let_def take_frames_def submit_first_def before_shutdown_def)
      qed
    qed
  qed
qed

lemma fold_recv_chunk [simp]:
  "cs_conn_id (fold recv_chunk cs conn) = cs_conn_id conn" "cs_socket (fold recv_chunk cs conn) = cs_socket conn"
  "cs_pending_requests (fold recv_chunk cs conn) = cs_pending_requests conn" "cs_in_flight (fold recv_chunk cs conn) = cs_in_flight conn"
  "cs_output_buffer (fold recv_chunk cs conn) = cs_output_buffer conn" "cs_output_offset (fold recv_chunk cs conn) = cs_output_offset conn"
  "cs_close_after_send (fold recv_chunk cs conn) = cs_close_after_send conn"
  "fa_inv (cs_assembler conn) \<Longrightarrow> fa_inv (cs_assembler (fold recv_chunk cs conn))"
  by (induction cs arbitrary: conn) (simp_all add: recv_chunk_def)

lemma up_to_shutdown_cases:
  "if before_shutdown fs = fs then up_to_shutdown fs = fs \<and> no_shutdown fs else \<not> no_shutdown (up_to_shutdown fs)"
proof (induction fs)
  case (Cons f fs)
  then show ?case by (auto simp: before_shutdown_def up_to_shutdown_def no_shutdown_def split: if_splits)
qed (simp add: before_shutdown_def up_to_shutdown_def no_shutdown_def)

lemma no_shutdown_append [simp]: "no_shutdown (xs @ ys) \<longleftrightarrow> no_shutdown xs \<and> no_shutdown ys"
  by (auto simp: no_shutdown_def)

text \<open>The error frames the server makes itself.\<close>

lemma error_frame_bytes:
  "length msg < 1000 \<Longrightarrow> \<exists>enc. frame_encode (create_error_frame i err msg) = Some enc \<and> enc \<noteq> []"
  using frame_encode_layout [of "create_error_frame i err msg"]
  by (auto simp: create_error_frame_def Let_def bytes_of_chars_def fc_write_u16_def frame_bytes_def)

text \<open>
  The first thing a pass over the input does to a connection, then what the end of the pass does:
  nothing more, or an error frame that replaces the output.
\<close>

definition pollin_conn :: "ConnectionState \<Rightarrow> ConnectionState \<Rightarrow> bool" where
  "pollin_conn conn conn' \<longleftrightarrow> cs_conn_id conn' = cs_conn_id conn \<and> cs_in_flight conn' = cs_in_flight conn \<and>
     cs_pending_requests conn' = cs_pending_requests conn \<and> fa_inv (cs_assembler conn') \<and> output_ok conn' \<and>
     (\<not> cs_close_after_send conn' \<longrightarrow> \<not> cs_close_after_send conn \<and> cs_socket conn' = cs_socket conn \<and>
        cs_output_buffer conn' = cs_output_buffer conn \<and> cs_output_offset conn' = cs_output_offset conn)"

lemma queue_error_spec:
  assumes "queue_immediate_error_and_close r conn (create_error_frame i err msg) sv = Inr sv'" "sent_ok r" "length msg < 1000"
    and "fa_inv (cs_assembler conn)"
  shows "sv' = close_connection (cs_conn_id conn) sv \<or>
    (\<exists>conn'. sv' = put_conn conn' sv \<and> cs_close_after_send conn' \<and> pollin_conn conn conn')"
proof -
  obtain enc where e: "frame_encode (create_error_frame i err msg) = Some enc" "enc \<noteq> []" using error_frame_bytes [OF assms(3)] by blast
  show ?thesis
  proof (cases "send_answer r enc = Sent (length enc)")
    case True
    then show ?thesis using assms(1) by (simp add: queue_immediate_error_and_close_def e)
  next
    case False
    then have "(case send_answer r enc of Sent n \<Rightarrow> n | _ \<Rightarrow> 0) < length enc"
      using e(2) by (auto simp: send_answer_def split: send_result.splits)
    then show ?thesis using assms False
      by (auto simp: queue_immediate_error_and_close_def e pollin_conn_def output_ok_def wants_write_def)
  qed
qed

lemma handle_pollin_spec:
  assumes h: "handle_pollin io conn sv = Inr (False, sv')" and "sent_ok (io_reply_sent io)"
    and x: "extract_loop (io_reply_sent io) default_Frame (fold recv_chunk (io_chunks io) conn) sv = Inr (res, conn2, sv2)"
    and c2: "fa_inv (cs_assembler conn2)" "output_ok conn2"
  shows "\<exists>conn3 conn4. pollin_conn conn2 conn3 \<and> sv' = put_conn conn3 (put_conn conn4 sv2) \<and> cs_conn_id conn4 = cs_conn_id conn2"
proof -
  have r: "io_recv_end io = RecvWouldBlock" using h by (simp add: handle_pollin_def Let_def split: if_splits)
  have flag: "pollin_conn conn2 (conn'\<lparr> cs_has_active_read_stall := b \<rparr>) = pollin_conn conn2 conn'" for conn' b
    by (simp add: pollin_conn_def output_ok_def wants_write_def)
  have refl: "pollin_conn conn2 conn2" using c2 by (simp add: pollin_conn_def)
  define goal where "goal \<longleftrightarrow> (\<exists>conn3 conn4. pollin_conn conn2 conn3 \<and> sv' = put_conn conn3 (put_conn conn4 sv2) \<and> cs_conn_id conn4 = cs_conn_id conn2)"
  have ok: goal if "sv' = put_conn (conn2\<lparr> cs_has_active_read_stall := b \<rparr>) (put_conn conn2 sv2)" for b
    using that refl flag unfolding goal_def by blast
  have err: goal if q: "queue_immediate_error_and_close (io_reply_sent io) conn2 (create_error_frame i err msg) sv2 = Inr sv3"
      and found: "find_conn sv3 (cs_conn_id conn2) = Some conn5"
      and "sv' = put_conn (conn5\<lparr> cs_has_active_read_stall := b \<rparr>) sv3" and len: "length msg < 1000" for i err msg sv3 conn5 b
  proof -
    obtain conn' where "sv3 = put_conn conn' sv2" "pollin_conn conn2 conn'"
      using queue_error_spec [OF q assms(2) len c2(1)] found by auto
    moreover from this have "cs_conn_id conn' = cs_conn_id conn2" by (simp add: pollin_conn_def)
    ultimately show ?thesis using that(2,3) flag unfolding goal_def by auto
  qed
  have goal
    using h unfolding handle_pollin_def Let_def x sum.case prod.case
    by (auto simp: r split: sum.splits option.splits if_splits intro: ok err)
  then show ?thesis by (simp add: goal_def)
qed

lemma handle_pollin_inv:
  assumes inv: "server_inv h sv" and found: "find_conn sv c \<noteq> None" and io: "sent_ok (io_reply_sent io)"
    and lo: "local_ok (fst h c) (snd h c) (sv_next_conn_id sv) c (pool_tasks c (sv_thread_pool sv)) (completions_of c sv) (Some conn)"
    and h: "handle_pollin io conn sv = Inr (False, sv')"
  shows "server_inv ((fst h)(c := fst h c @ up_to_shutdown (fst (drain (cs_assembler (fold recv_chunk (io_chunks io) conn))))), snd h) sv'"
proof -
  let ?conn = "fold recv_chunk (io_chunks io) conn"
  define fs where "fs = fst (drain (cs_assembler ?conn))"
  define gs where "gs = before_shutdown fs"
  have l: "cs_conn_id conn = c" "conn_ok conn" using lo by (auto simp: local_ok_def)
  obtain res conn2 sv2 fa out where x: "extract_loop (io_reply_sent io) default_Frame ?conn sv = Inr (res, conn2, sv2)"
    and c2: "conn2 = (take_frames gs ?conn)\<lparr> cs_assembler := fa, cs_socket := cs_socket conn @ out \<rparr>" "fa_inv fa" "gs = fs \<longrightarrow> out = []"
    and sv2: "sv2 = submit_first gs ?conn sv \<or> sv2 = request_stop (submit_first gs ?conn sv)"
    using extract_loop_spec [of ?conn "io_reply_sent io" default_Frame sv] l(2)
    by (simp add: conn_ok_def Let_def fs_def [symmetric] gs_def [symmetric]) blast
  have o2: "fa_inv (cs_assembler conn2)" "output_ok conn2" "cs_conn_id conn2 = c"
    using c2 l by (simp_all add: conn_ok_def take_frames_def output_ok_def wants_write_def)
  obtain conn3 conn4 where p: "pollin_conn conn2 conn3" "sv' = put_conn conn3 (put_conn conn4 sv2)" "cs_conn_id conn4 = c"
    using handle_pollin_spec [OF h io x o2(1,2)] o2(3) by auto
  have st: "\<not> pl_stopped (sv_thread_pool sv)" using inv found by (auto simp: server_inv_def find_conn_def)
  have f2: "sv_connections sv2 = sv_connections sv" "sv_config sv2 = sv_config sv" "sv_next_conn_id sv2 = sv_next_conn_id sv"
      "sv_listening sv2 = sv_listening sv" "pl_stopped (sv_thread_pool sv2) = pl_stopped (sv_thread_pool sv)"
      "sv_comp_queue sv2 = sv_comp_queue sv"
    using sv2 by (auto simp: submit_first_def request_stop_def split: if_splits)
  have t2: "pool_tasks d (sv_thread_pool sv2) = pool_tasks d (sv_thread_pool sv) @
      (if d = c \<and> \<not> cs_in_flight conn \<and> gs \<noteq> [] then [\<lparr> tk_conn_id = c, tk_request = hd gs \<rparr>] else [])" for d
    using sv2 st l(1) by (auto simp: submit_first_def request_stop_def)
  have fc: "find_conn sv2 d = find_conn sv d" for d using f2(1) by (simp add: find_conn_def)
  have k: "find_conn sv2 c \<noteq> None" "cs_conn_id conn3 = c" using found f2(1) p(1) o2(3) by (auto simp: find_conn_def pollin_conn_def)
  show ?thesis
    unfolding fs_def [symmetric]
  proof (rule server_inv_local [OF inv, where d = c])
    show "map fst (sv_connections sv') = map fst (sv_connections sv)"
      using k p(3) f2(1) by (simp add: p(2) put_conn_keeps(1))
    have q: "completions_of c sv' = completions_of c sv" using f2(6) by (simp add: p(2) completions_of_def)
    have c3: "cs_in_flight conn3 \<longleftrightarrow> cs_in_flight conn \<or> gs \<noteq> []" "fa_inv (cs_assembler conn3)" "output_ok conn3"
        "cs_pending_requests conn3 = cs_pending_requests conn @ (if cs_in_flight conn then gs else tl gs)"
        "\<not> cs_close_after_send conn3 \<Longrightarrow> \<not> cs_close_after_send conn \<and> cs_socket conn3 = cs_socket conn @ out \<and>
           cs_output_buffer conn3 = cs_output_buffer conn \<and> cs_output_offset conn3 = cs_output_offset conn"
      using p(1) by (simp_all add: pollin_conn_def c2(1) take_frames_def)
    have lc: "cs_in_flight conn \<longleftrightarrow> pool_tasks c (sv_thread_pool sv) \<noteq> [] \<or> completions_of c sv \<noteq> []"
        "order_ok (fst h c) (snd h c) (pool_tasks c (sv_thread_pool sv)) (completions_of c sv) conn"
        "\<not> cs_in_flight conn \<Longrightarrow> cs_pending_requests conn = []"
      using lo l(2) by (auto simp: local_ok_def conn_ok_def)
    have "order_ok (fst h c @ up_to_shutdown fs) (snd h c) (pool_tasks c (sv_thread_pool sv2)) (completions_of c sv) conn3"
    proof (cases "gs = fs")
      case True
      then have u: "up_to_shutdown fs = fs" "out = []" using up_to_shutdown_cases [of fs] c2(3) by (auto simp: gs_def)
      show ?thesis
        using lc(2) c3(5) u lc(1,3) by (cases "cs_in_flight conn") (auto simp: order_ok_def t2 c3(4) True)
    next
      case False
      then show ?thesis using up_to_shutdown_cases [of fs] by (simp add: order_ok_def gs_def split: if_splits)
    qed
    moreover have "length (pool_tasks c (sv_thread_pool sv2)) + length (completions_of c sv) \<le> 1"
      using lo lc(1) by (auto simp: t2 local_ok_def)
    moreover have "cs_in_flight conn3 \<longleftrightarrow> pool_tasks c (sv_thread_pool sv2) \<noteq> [] \<or> completions_of c sv \<noteq> []"
      using lc(1) c3(1) by (auto simp: t2)
    moreover have "cs_pending_requests conn3 \<noteq> [] \<longrightarrow> cs_in_flight conn3" using lc(3) c3(1,4) by auto
    moreover have "\<not> sv_next_conn_id sv \<le> c" using lo by (auto simp: local_ok_def)
    ultimately show "local_inv ((fst h)(c := fst h c @ up_to_shutdown fs), snd h) sv' c"
      using k(2) f2(3) q c3(2,3) by (simp add: local_inv_def local_ok_def conn_ok_def p(2))
  qed (use f2 fc k(2) p(2,3) t2 in \<open>simp_all add: completions_of_def\<close>)
qed

subsection \<open>Output and the client step\<close>

lemma handle_pollout_spec:
  assumes "handle_pollout io conn = Some conn'" "wants_write conn" "sent_ok (io_sent io)"
  shows "cs_conn_id conn' = cs_conn_id conn" "cs_assembler conn' = cs_assembler conn" "cs_in_flight conn' = cs_in_flight conn"
    "cs_pending_requests conn' = cs_pending_requests conn" "cs_close_after_send conn' = cs_close_after_send conn" "output_ok conn'"
    "cs_socket conn' @ drop (cs_output_offset conn') (cs_output_buffer conn') =
       cs_socket conn @ drop (cs_output_offset conn) (cs_output_buffer conn)"
proof -
  have split: "take n (drop k b) @ drop (k + n) b = drop k b" for n k and b :: bytes
    by (metis append_take_drop_id drop_drop add.commute)
  show "cs_conn_id conn' = cs_conn_id conn" "cs_assembler conn' = cs_assembler conn" "cs_in_flight conn' = cs_in_flight conn"
    "cs_pending_requests conn' = cs_pending_requests conn" "cs_close_after_send conn' = cs_close_after_send conn" "output_ok conn'"
    using assms
    by (auto simp: handle_pollout_def Let_def output_ok_def wants_write_def send_answer_def socket_send_eq split: send_result.splits if_splits)
  show "cs_socket conn' @ drop (cs_output_offset conn') (cs_output_buffer conn') =
       cs_socket conn @ drop (cs_output_offset conn) (cs_output_buffer conn)"
    using assms
    by (auto simp: handle_pollout_def Let_def wants_write_def send_answer_def socket_send_eq split split: send_result.splits if_splits)
qed

text \<open>Output alone keeps what holds of a connection.\<close>

lemma after_pollout:
  assumes lo: "local_ok rcv rep nxt c tasks cpls (Some conn)" and io: "io_ok io conn"
    and conn': "(if io_out io then handle_pollout io conn else Some conn) = Some conn'"
  shows "local_ok rcv rep nxt c tasks cpls (Some conn')" "cs_assembler conn' = cs_assembler conn" "cs_conn_id conn' = c"
proof -
  have ok: "output_ok conn" "cs_conn_id conn = c" using lo by (simp_all add: local_ok_def conn_ok_def)
  have same: "cs_conn_id conn' = cs_conn_id conn" "cs_assembler conn' = cs_assembler conn" "cs_in_flight conn' = cs_in_flight conn"
      "cs_pending_requests conn' = cs_pending_requests conn" "cs_close_after_send conn' = cs_close_after_send conn" "output_ok conn'"
      "cs_socket conn' @ drop (cs_output_offset conn') (cs_output_buffer conn') =
         cs_socket conn @ drop (cs_output_offset conn) (cs_output_buffer conn)"
    using conn' io ok handle_pollout_spec [of io conn conn'] by (simp_all add: io_ok_def split: if_split_asm)
  from arg_cong [OF same(7), of "\<lambda>x. x @ t" for t]
  have same_t: "cs_socket conn' @ drop (cs_output_offset conn') (cs_output_buffer conn') @ t =
         cs_socket conn @ drop (cs_output_offset conn) (cs_output_buffer conn) @ t" for t
    by simp
  show "local_ok rcv rep nxt c tasks cpls (Some conn')"
    using lo same(1-6) by (simp add: local_ok_def conn_ok_def order_ok_def same_t) blast
  show "cs_assembler conn' = cs_assembler conn" "cs_conn_id conn' = c" using same(1,2) ok(2) by simp_all
qed

lemma server_inv_found:
  "server_inv h sv \<Longrightarrow> find_conn sv c = Some conn \<Longrightarrow>
     local_ok (fst h c) (snd h c) (sv_next_conn_id sv) c (pool_tasks c (sv_thread_pool sv)) (completions_of c sv) (Some conn)"
  unfolding server_inv_def local_inv_def by metis

lemma server_inv_put:
  assumes inv: "server_inv h sv" and found: "find_conn sv c \<noteq> None"
    and lo: "local_ok (fst h c) (snd h c) (sv_next_conn_id sv) c (pool_tasks c (sv_thread_pool sv)) (completions_of c sv) (Some conn)"
  shows "server_inv h (put_conn conn sv)"
proof -
  have "cs_conn_id conn = c" using lo by (simp add: local_ok_def)
  then show ?thesis
    by (intro server_inv_local [OF inv, where d = c]) (use found lo in \<open>simp_all add: put_conn_keeps(1) local_inv_def\<close>)
qed

lemma client_inv:
  assumes inv: "server_inv h sv" and conn: "find_conn sv c = Some conn" and io: "io_ok io conn"
    and hc: "handle_client io c sv = Inr (False, sv')"
  shows "server_inv ((fst h)(c := fst h c @ frames_taken io conn), snd h) sv'"
proof -
  obtain conn' where conn': "(if io_out io then handle_pollout io conn else Some conn) = Some conn'"
      and hp: "if io_in io then handle_pollin io conn' sv = Inr (False, sv') else sv' = put_conn conn' sv"
    using hc conn by (auto simp: handle_client_def split: if_splits option.splits)
  note po = after_pollout [OF server_inv_found [OF inv conn] io conn']
  have asm: "cs_assembler (fold recv_chunk cs conn') = cs_assembler (fold recv_chunk cs conn)" for cs
  proof -
    have "cs_assembler a = cs_assembler b \<Longrightarrow> cs_assembler (fold recv_chunk cs a) = cs_assembler (fold recv_chunk cs b)" for a b
      by (induction cs arbitrary: a b) (simp_all add: recv_chunk_def)
    then show ?thesis using po(2) by blast
  qed
  show ?thesis
  proof (cases "io_in io")
    case True
    then show ?thesis using handle_pollin_inv [OF inv _ _ po(1)] hp conn io by (simp add: frames_taken_def asm io_ok_def)
  next
    case False
    then show ?thesis using server_inv_put [OF inv _ po(1)] hp conn by (simp add: frames_taken_def)
  qed
qed

text \<open>A connection that is to be closed keeps what it received unread.\<close>

lemma handle_client_marked:
  assumes "handle_client io c sv = Inr (True, sv')" "find_conn sv c = Some conn"
  shows "sv' = sv \<or> (\<exists>conn'. (if io_out io then handle_pollout io conn else Some conn) = Some conn' \<and>
    sv' = put_conn (fold recv_chunk (io_chunks io) conn') sv)"
proof -
  have pi: "sv' = put_conn (fold recv_chunk (io_chunks io) conn') sv" if "handle_pollin io conn' sv = Inr (True, sv')" for conn'
    using that by (auto simp: handle_pollin_def Let_def split: if_splits sum.splits prod.splits option.splits)
  show ?thesis
    using assms pi by (auto simp: handle_client_def split: option.splits if_split_asm)
qed

lemma client_marked_inv:
  assumes inv: "server_inv h sv" and conn: "find_conn sv c = Some conn" and io: "io_ok io conn"
    and hc: "handle_client io c sv = Inr (True, sv')"
  shows "server_inv h sv'"
  using handle_client_marked [OF hc conn]
proof (elim disjE exE conjE)
  fix conn' assume conn': "(if io_out io then handle_pollout io conn else Some conn) = Some conn'"
    and sv': "sv' = put_conn (fold recv_chunk (io_chunks io) conn') sv"
  have "local_ok (fst h c) (snd h c) (sv_next_conn_id sv) c (pool_tasks c (sv_thread_pool sv)) (completions_of c sv)
      (Some (fold recv_chunk (io_chunks io) conn'))"
    using after_pollout(1) [OF server_inv_found [OF inv conn] io conn']
    by (simp add: local_ok_def conn_ok_def order_ok_def output_ok_def wants_write_def) blast
  from server_inv_put [OF inv _ this] show ?thesis using conn by (simp add: sv')
qed (simp add: inv)

lemma server_step_inv:
  assumes "server_step sv l sv'" "server_inv h sv"
  shows "server_inv (\<lambda>c. fst h c @ received_by c l, \<lambda>c. snd h c @ replied_by c l) sv'"
  using assms(1)
proof cases
  case (accept peer)
  then show ?thesis using accept_one_inv [OF assms(2)] by simp
next
  case (completions net)
  then show ?thesis using process_completions_inv [OF assms(2)] by simp
next
  case (client c conn io)
  have "(\<lambda>d. fst h d @ received_by d l, \<lambda>d. snd h d @ replied_by d l) = ((fst h)(c := fst h c @ frames_taken io conn), snd h)"
    by (auto simp: client(1))
  then show ?thesis using client_inv [OF assms(2) client(2-4)] by simp
next
  case (client_marked c conn io)
  then show ?thesis using client_marked_inv [OF assms(2)] by simp
next
  case (close c)
  then show ?thesis using server_inv_close [OF assms(2)] by simp
next
  case (stalls now)
  then show ?thesis using check_read_stalls_inv [OF assms(2)] by simp
next
  case (worker_take i)
  then show ?thesis using worker_take_inv [OF assms(2)] by simp
next
  case (worker_finish i task a pool q b)
  have "(\<lambda>d. fst h d @ received_by d l, \<lambda>d. snd h d @ replied_by d l) =
      (fst h, (snd h)(tk_conn_id task := snd h (tk_conn_id task) @ [(tk_request task, cm_response_bytes (last q))]))"
    by (auto simp: worker_finish(1))
  then show ?thesis using worker_finish_inv [OF assms(2) worker_finish(3-5)] worker_finish(2) by simp
next
  case (reaper now)
  then show ?thesis using other_steps_inv(1) [OF assms(2)] by simp
next
  case stop_listening
  then show ?thesis using other_steps_inv(2) [OF assms(2)] by simp
next
  case (close_all net)
  then show ?thesis using close_all_inv [OF assms(2)] by simp
qed

section \<open>Runs\<close>

abbreviation started :: "ServerConfig \<Rightarrow> Broker \<Rightarrow> TcpServer" where
  "started config b \<equiv> start_server (make_TcpServer config b)"

lemma server_inv_started: "server_inv (\<lambda>c. [], \<lambda>c. []) (started config b)"
  by (auto simp: server_inv_def local_inv_def local_ok_def start_server_def make_TcpServer_def find_conn_def completions_of_def)
     (simp_all add: make_ThreadPool_def)

lemma server_trace_inv:
  assumes "server_trace sv0 ls sv" "sv0 = started config b"
  shows "server_inv (\<lambda>c. received c ls, \<lambda>c. replied c ls) sv"
  using assms
proof (induction rule: server_trace.induct)
  case (start sv)
  then show ?case using server_inv_started by simp
next
  case (step sv ls sv1 l sv2)
  then show ?case using server_step_inv [OF step.hyps(2) step.IH] by simp
qed

text \<open>Every reply is the encoding of what the handler returned for its request.\<close>

definition answers :: "Frame \<Rightarrow> bytes \<Rightarrow> bool" where
  "answers req resp \<longleftrightarrow> (\<exists>f. reply_ok req f \<and> frame_encode f = Some resp)"

lemma replied_answers:
  assumes "server_trace sv0 ls sv"
  shows "\<forall>(req, resp) \<in> set (replied c ls). answers req resp"
  using assms
proof (induction rule: server_trace.induct)
  case (step sv ls sv1 l sv2)
  from step.hyps(2) show ?case
  proof cases
    case (worker_finish i task a pool q b)
    then have "answers (tk_request task) (cm_response_bytes (last q))"
      using handle_request_reply
      by (fastforce simp: answers_def worker_finish_def bind_eq_Some_conv cq_push_def)
    then show ?thesis using step.IH worker_finish(1) by auto
  qed (use step.IH in simp_all)
qed simp

end
