(* ===== verification/ServerOrder.thy ===== *)
theory ServerOrder
  imports ServerLaws "HOL-Library.Sublist"
begin

text \<open>
  What the server promises its clients, for every run in which the thread that owns the sockets,
  the workers and the reaper interleave in any way: replies come in the order of the requests, a
  connection never has more than one request with the workers, and one pass of the event loop is a
  sequence of the steps these results are about.
\<close>

section \<open>Sample runs\<close>

text \<open>A pass over the input of a connection whose segment holds complete requests only.\<close>

definition input_only :: "bytes \<Rightarrow> send_result \<Rightarrow> SocketIO" where
  "input_only data r = \<lparr> io_error = False, io_out = False, io_in = True, io_sent = SendWouldBlock, io_chunks = [(0, data)],
     io_recv_end = RecvWouldBlock, io_reply_sent = r \<rparr>"

lemma input_only_ok: "sent_ok r \<Longrightarrow> \<not> cs_close_after_send conn \<Longrightarrow> io_ok (input_only data r) conn"
  by (simp add: io_ok_def input_only_def sent_ok_def)

lemma put_put [simp]: "cs_conn_id conn1 = cs_conn_id conn2 \<Longrightarrow> put_conn conn2 (put_conn conn1 sv) = put_conn conn2 sv"
  by (simp add: put_conn_def update_last)

lemma client_receives:
  assumes conn: "find_conn sv c = Some conn" "cs_conn_id conn = c" and fa: "fa_inv (cs_assembler conn)" "unread (cs_assembler conn) = []"
    and fs: "\<forall>f \<in> set fs. frame_ok f" "no_shutdown fs"
  shows "\<exists>fa. fa_inv fa \<and> unread fa = [] \<and>
    handle_client (input_only (concat (map frame_bytes fs)) r) c sv =
      Inr (False, put_conn ((take_frames fs conn)\<lparr> cs_assembler := fa, cs_last_read_time := 0, cs_has_active_read_stall := False \<rparr>)
        (submit_first fs conn sv)) \<and>
    frames_taken (input_only (concat (map frame_bytes fs)) r) conn = fs"
proof -
  let ?data = "concat (map frame_bytes fs)"
  let ?conn = "recv_chunk (0, ?data) conn"
  have u: "unread (cs_assembler ?conn) = ?data" "fa_inv (cs_assembler ?conn)" using fa by (simp_all add: recv_chunk_def)
  obtain fa' where d: "drain (cs_assembler ?conn) = (fs, NeedMoreData, fa')" "fa_inv fa'" "unread fa' = []"
    using drain_parse [OF u(2)] parse_frames [OF fs(1)] u(1) by (auto split: prod.splits)
  have ns: "before_shutdown fs = fs" "up_to_shutdown fs = fs"
  proof -
    show "before_shutdown fs = fs" using fs(2) by (simp add: before_shutdown_def no_shutdown_def takeWhile_eq_all_conv)
    then show "up_to_shutdown fs = fs" using up_to_shutdown_cases [of fs] by simp
  qed
  obtain conn' where x: "extract_loop r default_Frame ?conn sv = Inr (NeedMoreData, conn', submit_first fs ?conn sv)"
    and c': "conn' = (take_frames fs ?conn)\<lparr> cs_assembler := fa', cs_socket := cs_socket conn \<rparr>"
    using extract_loop_spec [OF u(2), of r default_Frame sv] d by (auto simp: ns Let_def recv_chunk_def)
  have e: "submit_first fs ?conn sv = submit_first fs conn sv" "cs_conn_id conn' = c" "\<not> has_partial_frame fa'"
    using conn(2) d(3) by (simp_all add: submit_first_def recv_chunk_def c' take_frames_def buffered_unread)
  have c2: "conn'\<lparr> cs_has_active_read_stall := False \<rparr> =
      (take_frames fs conn)\<lparr> cs_assembler := fa', cs_last_read_time := 0, cs_has_active_read_stall := False \<rparr>"
    by (simp add: c' take_frames_def recv_chunk_def)
  have "handle_client (input_only ?data r) c sv = Inr (False, put_conn (conn'\<lparr> cs_has_active_read_stall := False \<rparr>) (submit_first fs conn sv))"
    using conn(1) e by (simp add: handle_client_def input_only_def handle_pollin_def x Let_def) (simp add: c' e(3))
  then show ?thesis using d by (intro exI [of _ fa']) (simp add: c2 frames_taken_def input_only_def ns(2))
qed

definition ping :: "u32 \<Rightarrow> Frame" where
  "ping i = \<lparr> fr_length = 5, fr_type = PING, fr_request_id = i, fr_body = [] \<rparr>"

lemma ping_ok [simp]: "frame_ok (ping i)" "fr_type (ping i) = PING" "PING \<noteq> SHUTDOWN"
  by (simp_all add: frame_ok_def ping_def message_type_defs)

text \<open>A server with a limit of one connection, and its state after a client has connected.\<close>

definition one_client :: ServerConfig where
  "one_client = (default_ServerConfig 1)\<lparr> sf_max_connections := 1 \<rparr>"

definition sample_start :: TcpServer where
  "sample_start = start_server (make_TcpServer one_client sample_broker)"

definition sample_peer :: "string \<times> u16 \<times> int" where
  "sample_peer = (''10.0.0.1'', 40000, 0)"

lemma sample_start_simps:
  "sv_listening sample_start" "sv_next_conn_id sample_start = 1" "sv_connections sample_start = []"
  "sv_thread_pool sample_start = make_ThreadPool 2" "sf_max_connections (sv_config sample_start) = 1" "sv_comp_queue sample_start = []"
  by (simp_all add: sample_start_def start_server_def make_TcpServer_def one_client_def default_ServerConfig_def numeral_2_eq_2)

definition sample_accepted :: TcpServer where
  "sample_accepted = accept_one sample_peer sample_start"

definition sample_conn :: ConnectionState where
  "sample_conn = new_conn 1 ''10.0.0.1'' 40000 0"

lemma sample_accepted_simps:
  "find_conn sample_accepted 1 = Some sample_conn" "sv_next_conn_id sample_accepted = 2" "sv_listening sample_accepted"
  "sv_thread_pool sample_accepted = make_ThreadPool 2" "sf_max_connections (sv_config sample_accepted) = 1"
  "sv_connections sample_accepted = [(1, sample_conn)]" "sv_comp_queue sample_accepted = []"
  by (simp_all add: sample_accepted_def accept_one_def sample_peer_def sample_start_simps Let_def sample_conn_def find_conn_def)
     (simp_all add: new_conn_def put_conn_def sample_start_simps)

lemma sample_accepted_trace: "server_trace sample_start [Silent] sample_accepted"
proof -
  have "server_step sample_start Silent sample_accepted"
    unfolding sample_accepted_def by (rule server_step.accept) (simp_all add: sample_start_simps)
  from server_trace.step [OF server_trace.start this] show ?thesis by simp
qed

lemma sample_conn_simps [simp]:
  "cs_conn_id sample_conn = 1" "cs_assembler sample_conn = new_FrameAssembler" "cs_close_after_send sample_conn = False"
  "cs_in_flight sample_conn = False" "cs_pending_requests sample_conn = []" "cs_socket sample_conn = []"
  "cs_output_buffer sample_conn = []" "cs_output_offset sample_conn = 0" "cs_has_active_read_stall sample_conn = False"
  by (simp_all add: sample_conn_def new_conn_def)

text \<open>The client sends two requests in one segment, and the first is answered.\<close>

definition sample_pong :: bytes where
  "sample_pong = frame_bytes (create_pong_frame 7)"

lemma sample_pipeline:
  "\<exists>ls sv conn. server_trace sample_start ls sv \<and> find_conn sv 1 = Some conn \<and> received 1 ls = [ping 7, ping 8] \<and>
     \<not> cs_close_after_send conn \<and> cs_socket conn = sample_pong \<and> cs_in_flight conn \<and> cs_pending_requests conn = []"
proof -
  let ?fs = "[ping 7, ping 8]" and ?t = "\<lparr> tk_conn_id = 1, tk_request = ping 7 \<rparr> :: Task"
  let ?io = "input_only (concat (map frame_bytes ?fs)) SendWouldBlock"
  let ?cpl = "\<lparr> cm_conn_id = 1, cm_response_bytes = sample_pong, cm_close_after_send = False \<rparr> :: Completion"
  obtain fa where fa: "frames_taken ?io sample_conn = ?fs"
      "handle_client ?io 1 sample_accepted = Inr (False, put_conn ((take_frames ?fs sample_conn)\<lparr> cs_assembler := fa, cs_last_read_time := 0,
          cs_has_active_read_stall := False \<rparr>) (submit_first ?fs sample_conn sample_accepted))"
    using client_receives [of sample_accepted 1 sample_conn ?fs SendWouldBlock] sample_accepted_simps(1) by (auto simp: no_shutdown_def)
  define C where "C = (take_frames ?fs sample_conn)\<lparr> cs_assembler := fa, cs_last_read_time := 0, cs_has_active_read_stall := False \<rparr>"
  define s2 where "s2 = put_conn C (submit_first ?fs sample_conn sample_accepted)"
  have C: "cs_conn_id C = 1" "cs_in_flight C" "cs_pending_requests C = [ping 8]" "cs_socket C = []" "cs_output_buffer C = []"
      "cs_output_offset C = 0" "\<not> cs_close_after_send C"
    by (simp_all add: C_def take_frames_def)
  have s2: "find_conn s2 1 = Some C" "sv_comp_queue s2 = []" "pl_workers (sv_thread_pool s2) = [AtPop, AtPop]"
      "tq_queue (pl_task_queue (sv_thread_pool s2)) = [?t]" "\<not> tq_stop (pl_task_queue (sv_thread_pool s2))"
      "sv_config s2 = sv_config sample_accepted"
    by (simp_all add: s2_def C submit_first_def sample_accepted_simps)
       (simp_all add: submit_def sample_accepted_simps make_ThreadPool_def enqueue_def tq_push_def new_TaskQueue_def numeral_2_eq_2)
  have t2: "server_trace sample_start [Silent, Received 1 ?fs] s2"
    using server_trace.step [OF sample_accepted_trace server_step.client [OF sample_accepted_simps(1) _ fa(2)]] fa(1)
    by (simp add: s2_def C_def input_only_ok sent_ok_def)
  define s3 where "s3 = s2\<lparr> sv_thread_pool := worker_take 0 (sv_thread_pool s2) \<rparr>"
  have s3: "pl_workers (sv_thread_pool s3) = [Handling ?t, AtPop]" "sv_comp_queue s3 = []" "find_conn s3 1 = Some C"
      "sv_config s3 = sv_config sample_accepted"
    using s2 by (simp_all add: s3_def worker_take_def tq_pop_def)
  have t3: "server_trace sample_start [Silent, Received 1 ?fs, Silent] s3"
    using server_trace.step [OF t2 server_step.worker_take [of 0]] s2(3) by (simp add: s3_def)
  obtain pool where f: "worker_finish a 0 ?t (sv_thread_pool s3) (sv_comp_queue s3) (sv_broker s3) = Some (pool, [?cpl], sv_broker s3)" for a
    using frame_encode_layout [of "create_pong_frame 7"]
    by (simp add: worker_finish_def handle_request_def message_type_defs ping_def cq_push_def s3(2) sample_pong_def create_pong_frame_def default_Frame_def)
  define s4 where "s4 = s3\<lparr> sv_thread_pool := pool, sv_comp_queue := [?cpl], sv_broker := sv_broker s3 \<rparr>"
  have t4: "server_trace sample_start [Silent, Received 1 ?fs, Silent, Replied 1 (ping 7) sample_pong] s4"
    using server_trace.step [OF t3 server_step.worker_finish [OF _ _ f]] s3(1) by (simp add: s4_def)
  define s5 where "s5 = process_completions (\<lambda>_. Sent 100) s4"
  have t5: "server_trace sample_start [Silent, Received 1 ?fs, Silent, Replied 1 (ping 7) sample_pong, Silent] s5"
    using server_trace.step [OF t4 server_step.completions [of "\<lambda>_. Sent 100"]] by (simp add: s5_def sent_ok_def)
  have cfg: "sf_max_output_buffer_bytes (sv_config s4) = 8388608"
    using s3(4) by (simp add: s4_def) (simp add: sample_accepted_def sample_peer_def accept_one_def Let_def put_conn_def sample_start_def
        start_server_def make_TcpServer_def one_client_def default_ServerConfig_def)
  have len: "length sample_pong = 9" by (simp add: sample_pong_def create_pong_frame_def default_Frame_def)
  have s4: "sv_comp_queue s4 = [?cpl]" "find_conn s4 1 = Some C" using s3(3) by (simp_all add: s4_def find_conn_def)
  have del: "deliver 8388608 (Sent 100) sample_pong (C\<lparr> cs_in_flight := False \<rparr>) = Some (C\<lparr> cs_in_flight := False, cs_socket := sample_pong \<rparr>)"
    using C len by (simp add: deliver_def socket_send_eq send_answer_def Let_def)
  have "find_conn s5 1 = Some (C\<lparr> cs_pending_requests := [], cs_in_flight := True, cs_socket := sample_pong \<rparr>)"
    using s4 C cfg del by (simp add: s5_def process_completions_def process_completion_def dispatch_next_find)
  then show ?thesis using t5 C
    by (intro exI [of _ "[Silent, Received 1 ?fs, Silent, Replied 1 (ping 7) sample_pong, Silent]"] exI [of _ s5] exI)
       (auto simp: received_def)
qed

section \<open>Order\<close>

text \<open>
  C2. Pipelined requests are answered in order, exactly once. At every moment of every run, for a
  connection that is open (and neither asked for the shutdown nor is being closed for a protocol
  error), the requests received are the answered ones, then at most one that is with the workers,
  then those waiting. Each answer belongs to its request. What the socket has taken is a prefix
  of the answers in the order of the requests, and when no request is in flight, everything received
  has been answered, with the answers all sent or in the output buffer.
\<close>

theorem pipelined_replies_in_order:
  assumes "server_trace (start_server (make_TcpServer config b)) ls sv" "find_conn sv c = Some conn"
    and "\<forall>f \<in> set (received c ls). fr_type f \<noteq> SHUTDOWN" "\<not> cs_close_after_send conn"
  shows "\<exists>answered busy. received c ls = map fst answered @ busy @ cs_pending_requests conn \<and> length busy \<le> 1 \<and>
    (\<forall>(req, resp) \<in> set answered. answers req resp) \<and>
    prefix (cs_socket conn) (concat (map snd answered)) \<and>
    (\<not> cs_in_flight conn \<longrightarrow> received c ls = map fst answered \<and>
       cs_socket conn @ drop (cs_output_offset conn) (cs_output_buffer conn) = concat (map snd answered))"
proof -
  note inv = server_trace_inv [OF assms(1) refl]
  note lo = server_inv_found [OF inv assms(2), simplified]
  let ?tasks = "pool_tasks c (sv_thread_pool sv)"
  have l: "received c ls = map fst (replied c ls) @ map tk_request ?tasks @ cs_pending_requests conn" "length ?tasks \<le> 1"
      "cs_socket conn @ drop (cs_output_offset conn) (cs_output_buffer conn) @ concat (map cm_response_bytes (completions_of c sv)) =
         concat (map snd (replied c ls))"
      "\<not> cs_in_flight conn \<Longrightarrow> ?tasks = [] \<and> completions_of c sv = [] \<and> cs_pending_requests conn = []"
    using lo assms(3,4) by (auto simp: local_ok_def order_ok_def no_shutdown_def conn_ok_def)
  have "prefix (cs_socket conn) (concat (map snd (replied c ls)))" using l(3) [symmetric] by simp
  then show ?thesis
    using l replied_answers [OF assms(1), of c]
    by (intro exI [of _ "replied c ls"] exI [of _ "map tk_request ?tasks"]) auto
qed

theorem pipelined_replies_in_order_witness:
  "\<exists>ls sv conn answered busy. server_trace sample_start ls sv \<and> received 1 ls = [ping 7, ping 8] \<and>
     [ping 7, ping 8] = map fst answered @ busy \<and> length busy \<le> 1 \<and> cs_socket conn = sample_pong \<and>
     find_conn sv 1 = Some conn \<and> prefix sample_pong (concat (map snd answered))"
proof -
  obtain ls sv conn where r: "server_trace sample_start ls sv" "find_conn sv 1 = Some conn" "received 1 ls = [ping 7, ping 8]"
      "\<not> cs_close_after_send conn" "cs_socket conn = sample_pong" "cs_pending_requests conn = []"
    using sample_pipeline by blast
  from pipelined_replies_in_order [OF r(1) [unfolded sample_start_def] r(2) _ r(4)] r(3,5,6)
  obtain answered busy where "[ping 7, ping 8] = map fst answered @ busy" "length busy \<le> 1" "prefix sample_pong (concat (map snd answered))"
    by auto
  then show ?thesis using r by blast
qed

section \<open>Limits\<close>

text \<open>
  C28. The limits of the server hold in every run: there are never more open connections than
  configured, their identifiers are distinct and older than the next one, and each open connection
  has exactly one request with the workers or in the queue of replies when it is marked so, and
  none otherwise; requests wait only while one is in flight.
\<close>

theorem server_limits:
  assumes "server_trace (start_server (make_TcpServer config b)) ls sv"
  shows "active_connections sv \<le> sf_max_connections (sv_config sv) \<and> distinct (map fst (sv_connections sv)) \<and>
    (\<forall>c conn. find_conn sv c = Some conn \<longrightarrow> c < sv_next_conn_id sv \<and>
       length (pool_tasks c (sv_thread_pool sv)) + length (completions_of c sv) = of_bool (cs_in_flight conn) \<and>
       (cs_pending_requests conn \<noteq> [] \<longrightarrow> cs_in_flight conn) \<and>
       cs_output_offset conn \<le> length (cs_output_buffer conn))"
proof -
  note inv = server_trace_inv [OF assms refl]
  have "c < sv_next_conn_id sv \<and> length (pool_tasks c (sv_thread_pool sv)) + length (completions_of c sv) = of_bool (cs_in_flight conn) \<and>
      (cs_pending_requests conn \<noteq> [] \<longrightarrow> cs_in_flight conn) \<and> cs_output_offset conn \<le> length (cs_output_buffer conn)"
    if "find_conn sv c = Some conn" for c conn
    using server_inv_found [OF inv that]
    by (cases "pool_tasks c (sv_thread_pool sv)"; cases "completions_of c sv")
       (auto simp: local_ok_def conn_ok_def output_ok_def wants_write_def)
  then show ?thesis using inv by (auto simp: server_inv_def active_connections_def)
qed

theorem server_limits_witness:
  "active_connections sample_accepted \<le> sf_max_connections (sv_config sample_accepted)"
  using server_limits [OF sample_accepted_trace [unfolded sample_start_def]] by blast

end
