(* ===== verification/ServerFaults.thy ===== *)
theory ServerFaults
  imports ServerOrder
begin

text \<open>
  Where the server does not do what its comments say: it uses a connection after freeing it when a
  malformed frame is refused at once, the queue of requests can hold more items than there may be
  connections, and the limit on the time of a partial frame starts anew with every byte.
\<close>

section \<open>Use of a closed connection\<close>

lemma parse_pushes:
  "fa_inv (cs_assembler conn) \<Longrightarrow> unread (cs_assembler (fold recv_chunk cs conn)) = unread (cs_assembler conn) @ concat (map snd cs)"
proof (induction cs arbitrary: conn)
  case (Cons ch cs)
  then show ?case using Cons.IH [of "recv_chunk ch conn"] by (simp add: recv_chunk_def)
qed simp

lemma error_frame_short:
  "\<exists>enc. frame_encode (create_error_frame 0 MALFORMED_FRAME ''Malformed frame: length less than header size'') = Some enc \<and> length enc \<le> 64"
  "\<exists>enc. frame_encode (create_error_frame 0 FRAME_TOO_LARGE ''Frame size exceeds maximum limit of 1 MiB'') = Some enc \<and> length enc \<le> 64"
  by (simp_all add: frame_encode_layout create_error_frame_def Let_def bytes_of_chars_def fc_write_u16_def)

text \<open>
  C31. A malformed frame makes the server use a connection it has freed. When the bytes received
  end in a frame whose length field is too small or too large, and the socket takes the whole error
  frame (64 bytes of room are enough), \<^verbatim>\<open>queue_immediate_error_and_close\<close> closes the connection and the
  last statement of the input handling writes to it. This holds for every open connection that is
  polled for input, in every run.
\<close>

theorem malformed_frame_use_after_free:
  assumes tr: "server_trace (start_server (make_TcpServer config b)) ls sv" and conn: "find_conn sv c = Some conn"
    and io: "\<not> io_error io" "\<not> io_out io" "io_in io" "io_recv_end io = RecvWouldBlock" "io_reply_sent io = Sent n" "64 \<le> n"
    and p: "parse (unread (cs_assembler conn) @ concat (map snd (io_chunks io))) = (fs, res, rest)"
      "res = ErrorLengthTooSmall \<or> res = ErrorLengthTooLarge" "\<forall>f \<in> set fs. fr_type f \<noteq> SHUTDOWN"
  shows "handle_client io c sv = Inl UseAfterFree"
proof -
  let ?conn = "fold recv_chunk (io_chunks io) conn"
  have ok: "fa_inv (cs_assembler conn)" "cs_conn_id conn = c"
    using server_inv_found [OF server_trace_inv [OF tr refl] conn] by (simp_all add: local_ok_def conn_ok_def)
  have inv: "fa_inv (cs_assembler ?conn)" using ok by simp
  obtain fa where d: "drain (cs_assembler ?conn) = (fs, res, fa)"
    using drain_parse [OF inv] p(1) parse_pushes [OF ok(1)] by (auto split: prod.splits)
  have ns: "before_shutdown fs = fs" using p(3) by (simp add: before_shutdown_def takeWhile_eq_all_conv)
  obtain conn' where x: "extract_loop (Sent n) default_Frame ?conn sv = Inr (res, conn', submit_first fs ?conn sv)" "cs_conn_id conn' = c"
    using extract_loop_spec [OF inv, of "Sent n" default_Frame sv] d ok(2) by (auto simp: ns Let_def take_frames_def)
  have gone: "queue_immediate_error_and_close (Sent n) conn' err sv' = Inr (close_connection c sv')"
    if "\<exists>enc. frame_encode err = Some enc \<and> length enc \<le> 64" for err sv'
    using that io(6) x(2) by (auto simp: queue_immediate_error_and_close_def send_answer_def)
  show ?thesis
    using p(2) conn io x gone error_frame_short
    by (elim disjE) (fastforce simp: handle_client_def handle_pollin_def Let_def)+
qed

theorem malformed_frame_use_after_free_witness:
  "handle_client (input_only [0, 0, 0, 4] (Sent 64)) 1 sample_accepted = Inl UseAfterFree"
proof -
  have "fc_read_u32 [0, 0, 0, 4] = 4" by code_simp
  then have "next_frame [0, 0, 0, 4] = (ErrorLengthTooSmall, None, 0)" by (simp add: next_frame_def)
  then have "parse [0, 0, 0, 4] = ([], ErrorLengthTooSmall, [0, 0, 0, 4])" by (simp add: parse.simps)
  then show ?thesis
    by (intro malformed_frame_use_after_free [OF sample_accepted_trace [unfolded sample_start_def] sample_accepted_simps(1),
          where n = 64 and fs = "[]" and res = ErrorLengthTooSmall and rest = "[0, 0, 0, 4]"])
       (simp_all add: input_only_def)
qed

section \<open>The queue of requests\<close>

lemma client_queues:
  assumes tr: "server_trace sample_start ls sv" and conn: "find_conn sv c = Some (new_conn c ip port now)" and on: "\<not> pl_stopped (sv_thread_pool sv)"
  shows "\<exists>sv'. server_trace sample_start (ls @ [Received c [ping 7]]) sv' \<and> tq_queue (pl_task_queue (sv_thread_pool sv')) =
      tq_queue (pl_task_queue (sv_thread_pool sv)) @ [\<lparr> tk_conn_id = c, tk_request = ping 7 \<rparr>] \<and>
      map fst (sv_connections sv') = map fst (sv_connections sv) \<and> sv_config sv' = sv_config sv \<and>
      sv_next_conn_id sv' = sv_next_conn_id sv \<and> sv_listening sv' = sv_listening sv \<and> \<not> pl_stopped (sv_thread_pool sv')"
proof -
  let ?io = "input_only (concat (map frame_bytes [ping 7])) SendWouldBlock" and ?conn = "new_conn c ip port now"
  obtain fa where r: "handle_client ?io c sv = Inr (False, put_conn ((take_frames [ping 7] ?conn)\<lparr> cs_assembler := fa, cs_last_read_time := 0,
      cs_has_active_read_stall := False \<rparr>) (submit_first [ping 7] ?conn sv))" "frames_taken ?io ?conn = [ping 7]"
    using client_receives [OF conn, of "[ping 7]" SendWouldBlock] by (auto simp: new_conn_def no_shutdown_def)
  have "io_ok ?io ?conn" by (rule input_only_ok) (simp_all add: sent_ok_def new_conn_def)
  from server_trace.step [OF tr server_step.client [OF conn this r(1)]] r(2) show ?thesis
    using conn on
    by (intro exI conjI) (assumption | simp add: put_conn_keeps take_frames_def submit_first_def new_conn_def submit_def enqueue_def tq_push_def)+
qed

text \<open>
  The queue of requests can hold more items than the limit of connections: the request of a
  connection that was closed stays in the queue while the next client connects and sends its own. So
  the comment of \<^verbatim>\<open>TaskQueue\<close>, which concludes from the one request in flight that the queue never
  holds more than \<^verbatim>\<open>max-connections\<close> items, does not hold; here the limit is one and two are queued.
\<close>

lemma task_queue_exceeds_connection_limit:
  "\<exists>ls sv. server_trace (start_server (make_TcpServer one_client sample_broker)) ls sv \<and>
     sf_max_connections (sv_config sv) = 1 \<and> tq_size (pl_task_queue (sv_thread_pool sv)) = 2"
proof -
  obtain s1 where s1: "server_trace sample_start [Silent, Received 1 [ping 7]] s1"
      "tq_queue (pl_task_queue (sv_thread_pool s1)) = [\<lparr> tk_conn_id = 1, tk_request = ping 7 \<rparr>]" "map fst (sv_connections s1) = [1]"
      "sv_config s1 = sv_config sample_accepted" "sv_next_conn_id s1 = 2" "sv_listening s1" "\<not> pl_stopped (sv_thread_pool s1)"
    using client_queues [OF sample_accepted_trace sample_accepted_simps(1) [unfolded sample_conn_def]]
    by (auto simp: sample_accepted_simps make_ThreadPool_def new_TaskQueue_def)
  define s2 where "s2 = close_connection 1 s1"
  have "map fst (sv_connections s2) = []" using s1(3) by (simp add: s2_def close_connection_def delete_keys)
  then have s2: "sv_connections s2 = []" by simp
  define s3 where "s3 = accept_one sample_peer s2"
  have s3: "find_conn s3 2 = Some (new_conn 2 ''10.0.0.1'' 40000 0)" "sv_thread_pool s3 = sv_thread_pool s1" "sv_config s3 = sv_config sample_accepted"
    using s1(4,5) s2 by (simp_all add: s3_def accept_one_def sample_peer_def Let_def sample_accepted_simps find_conn_def)
      (simp_all add: s2_def put_conn_def new_conn_def close_connection_def sample_accepted_simps)
  have "server_trace sample_start [Silent, Received 1 [ping 7], Silent] s2"
    using server_trace.step [OF s1(1) server_step.close [of _ 1]] by (simp add: s2_def)
  from server_trace.step [OF this server_step.accept [of _ sample_peer]]
  have "server_trace sample_start [Silent, Received 1 [ping 7], Silent, Silent] s3"
    using s1(5,6) by (simp add: s3_def s2_def)
  from client_queues [OF this s3(1)] obtain s4 where s4: "server_trace sample_start [Silent, Received 1 [ping 7], Silent, Silent, Received 2 [ping 7]] s4"
      "tq_queue (pl_task_queue (sv_thread_pool s4)) = [\<lparr> tk_conn_id = 1, tk_request = ping 7 \<rparr>, \<lparr> tk_conn_id = 2, tk_request = ping 7 \<rparr>]"
      "sv_config s4 = sv_config sample_accepted"
    using s3(2,3) s1(2,7) by auto
  then show ?thesis unfolding sample_start_def [symmetric] by (intro exI conjI) (assumption | simp add: sample_accepted_simps tq_size_def)+
qed

section \<open>Read stalls\<close>

text \<open>
  A client that sends one byte at a time: before each byte the server checks for stalled
  connections, then it reads the byte.
\<close>

definition one_byte :: "int \<Rightarrow> u8 \<Rightarrow> SocketIO" where
  "one_byte t x = \<lparr> io_error = False, io_out = False, io_in = True, io_sent = SendWouldBlock, io_chunks = [(t, [x])],
     io_recv_end = RecvWouldBlock, io_reply_sent = SendWouldBlock \<rparr>"

fun drip :: "u64 \<Rightarrow> (int \<times> u8) list \<Rightarrow> TcpServer \<Rightarrow> fault + TcpServer" where
  "drip c [] sv = Inr sv"
| "drip c ((t, x) # rest) sv =
     (case handle_client (one_byte t x) c (check_read_stalls t sv) of
        Inl e \<Rightarrow> Inl e
      | Inr (closes, sv') \<Rightarrow> drip c rest (if closes then close_connection c sv' else sv'))"

lemma drip_append: "drip c (xs @ ys) sv = (case drip c xs sv of Inl e \<Rightarrow> Inl e | Inr sv' \<Rightarrow> drip c ys sv')"
  by (induction c xs sv rule: drip.induct) (auto split: sum.splits prod.splits)

lemma find_conn_fold_close: "find_conn (fold close_connection cs sv) c = (if c \<in> set cs then None else find_conn sv c)"
  by (induction cs arbitrary: sv) auto

lemma check_read_stalls_keeps:
  assumes "distinct (map fst (sv_connections sv))" "find_conn sv c = Some conn" "\<not> stalled (sv_config sv) t conn"
  shows "find_conn (check_read_stalls t sv) c = Some conn"
proof -
  have "conn' = conn" if "(c, conn') \<in> set (sv_connections sv)" for conn'
    using assms(1,2) that by (simp add: find_conn_def)
  then show ?thesis using assms by (auto simp: check_read_stalls_def find_conn_fold_close Let_def)
qed

lemma check_read_stalls_fields [simp]: "sv_config (check_read_stalls t sv) = sv_config sv"
proof -
  have "sv_config (fold close_connection cs sv) = sv_config sv" for cs by (induction cs arbitrary: sv) auto
  then show ?thesis by (simp add: check_read_stalls_def Let_def)
qed

text \<open>One byte of a frame that is not complete with it.\<close>

lemma receive_one_byte:
  assumes conn: "find_conn sv c = Some conn" "cs_conn_id conn = c" and fa: "fa_inv (cs_assembler conn)"
    and u: "unread (cs_assembler conn) @ [x] = take k (frame_bytes f)" "frame_ok f" "k < length (frame_bytes f)"
  shows "\<exists>conn' sv'. handle_client (one_byte t x) c sv = Inr (False, sv') \<and> find_conn sv' c = Some conn' \<and> cs_last_read_time conn' = t \<and>
    unread (cs_assembler conn') = take k (frame_bytes f) \<and> cs_close_after_send conn' = cs_close_after_send conn \<and> sv_config sv' = sv_config sv"
proof -
  let ?conn = "recv_chunk (t, [x]) conn"
  have v: "unread (cs_assembler ?conn) = take k (frame_bytes f)" "fa_inv (cs_assembler ?conn)" using fa u(1) by (simp_all add: recv_chunk_def)
  have "parse (take k (frame_bytes f)) = ([], NeedMoreData, take k (frame_bytes f))"
    using next_frame_partial [OF u(2,3)] by (simp add: parse.simps)
  then obtain fa' where d: "drain (cs_assembler ?conn) = ([], NeedMoreData, fa')" "unread fa' = take k (frame_bytes f)"
    using drain_parse [OF v(2)] v(1) by (auto split: prod.splits)
  obtain conn' where x: "extract_loop SendWouldBlock default_Frame ?conn sv = Inr (NeedMoreData, conn', sv)"
    and c': "conn' = (take_frames [] ?conn)\<lparr> cs_assembler := fa', cs_socket := cs_socket conn \<rparr>"
    using extract_loop_spec [OF v(2), of SendWouldBlock default_Frame sv] d
    by (auto simp: before_shutdown_def Let_def recv_chunk_def submit_first_def)
  have c2: "cs_conn_id conn' = c" "cs_last_read_time conn' = t" "cs_assembler conn' = fa'" "cs_close_after_send conn' = cs_close_after_send conn"
    using conn(2) by (simp_all add: c' take_frames_def recv_chunk_def)
  show ?thesis
    using conn(1) x c2 d(2) by (auto simp: handle_client_def one_byte_def handle_pollin_def Let_def)
qed

lemma sdiv_below: "0 < T \<Longrightarrow> (T * 1000000000 - 1) sdiv 1000000000 < (T :: int)"
proof -
  assume "0 < T"
  then have "(T * 1000000000 - 1) sdiv 1000000000 = (T * 1000000000 - 1) div 1000000000" by (simp add: signed_divide_int_def)
  also have "\<dots> < T" by linarith
  finally show ?thesis .
qed

lemma drip_step:
  assumes tr: "server_trace (started config b) ls sv" and conn: "find_conn sv c = Some conn" "\<not> cs_close_after_send conn"
    and u: "unread (cs_assembler conn) = take k (frame_bytes f)" "frame_ok f" "Suc k < length (frame_bytes f)"
    and T: "T = int (unat (sf_read_stall_timeout_sec (sv_config sv)))" "0 < T"
  shows "\<exists>ls' sv' conn'. drip c [(cs_last_read_time conn + (T * 1000000000 - 1), frame_bytes f ! k)] sv = Inr sv' \<and>
    server_trace (started config b) ls' sv' \<and> find_conn sv' c = Some conn' \<and> \<not> cs_close_after_send conn' \<and>
    unread (cs_assembler conn') = take (Suc k) (frame_bytes f) \<and>
    cs_last_read_time conn' = cs_last_read_time conn + (T * 1000000000 - 1) \<and> sv_config sv' = sv_config sv"
proof -
  let ?t = "cs_last_read_time conn + (T * 1000000000 - 1)" and ?x = "frame_bytes f ! k"
  note inv = server_trace_inv [OF tr refl]
  have ok: "cs_conn_id conn = c" "fa_inv (cs_assembler conn)"
    using server_inv_found [OF inv conn(1)] by (simp_all add: local_ok_def conn_ok_def)
  have "\<not> stalled (sv_config sv) ?t conn" using sdiv_below [OF T(2)] T(1) by (auto simp: stalled_def)
  then have found: "find_conn (check_read_stalls ?t sv) c = Some conn"
    using inv conn(1) by (intro check_read_stalls_keeps) (simp_all add: server_inv_def)
  have "unread (cs_assembler conn) @ [?x] = take (Suc k) (frame_bytes f)" using u(1,3) by (simp add: take_Suc_conv_app_nth)
  from receive_one_byte [OF found ok this u(2,3), of ?t] obtain conn' sv' where
    r: "handle_client (one_byte ?t ?x) c (check_read_stalls ?t sv) = Inr (False, sv')" "find_conn sv' c = Some conn'"
      "cs_last_read_time conn' = ?t" "unread (cs_assembler conn') = take (Suc k) (frame_bytes f)"
      "cs_close_after_send conn' = cs_close_after_send conn" "sv_config sv' = sv_config sv"
    by auto
  have "io_ok (one_byte ?t ?x) conn" using conn(2) by (simp add: io_ok_def one_byte_def sent_ok_def)
  from server_trace.step [OF server_trace.step [OF tr server_step.stalls] server_step.client [OF found this r(1)]]
  show ?thesis using r conn(2) by (intro exI conjI) (assumption | simp)+
qed

text \<open>
  The defence against slow clients does not bound the time of a partial frame. A client that
  sends any frame byte by byte, each a nanosecond before the configured timeout of the former one
  ends, is never disconnected: after \<open>k\<close> bytes it still holds its connection with an incomplete frame,
  \<open>k\<close> times the timeout (less \<open>k\<close> nanoseconds) after it began. The comment of \<^verbatim>\<open>check_read_stalls\<close> says
  that the frame has to be completed within the timeout.
\<close>

lemma slow_client_is_never_stalled:
  assumes "server_trace (start_server (make_TcpServer config b)) ls sv" "find_conn sv c = Some conn" "\<not> cs_close_after_send conn"
    and "unread (cs_assembler conn) = []" "frame_ok f" "k < length (frame_bytes f)"
    and "T = int (unat (sf_read_stall_timeout_sec (sv_config sv)))" "0 < T"
  shows "\<exists>sv' conn'. drip c (map (\<lambda>i. (cs_last_read_time conn + (int i + 1) * (T * 1000000000 - 1), frame_bytes f ! i)) [0..<k]) sv = Inr sv' \<and>
    find_conn sv' c = Some conn' \<and> unread (cs_assembler conn') = take k (frame_bytes f) \<and>
    cs_last_read_time conn' = cs_last_read_time conn + int k * (T * 1000000000 - 1)"
proof -
  define G where "G = T * 1000000000 - 1"
  let ?xs = "\<lambda>k. map (\<lambda>i. (cs_last_read_time conn + (int i + 1) * G, frame_bytes f ! i)) [0..<k]"
  have "\<exists>ls' sv' conn'. drip c (?xs k) sv = Inr sv' \<and> server_trace (started config b) ls' sv' \<and> find_conn sv' c = Some conn' \<and>
      \<not> cs_close_after_send conn' \<and> unread (cs_assembler conn') = take k (frame_bytes f) \<and>
      cs_last_read_time conn' = cs_last_read_time conn + int k * G \<and> sv_config sv' = sv_config sv"
    using assms(6)
  proof (induction k)
    case 0
    then show ?case using assms(1-4) by (intro exI conjI) (assumption | simp)+
  next
    case (Suc k)
    then obtain ls' sv' conn' where r: "drip c (?xs k) sv = Inr sv'" "server_trace (started config b) ls' sv'" "find_conn sv' c = Some conn'"
        "\<not> cs_close_after_send conn'" "unread (cs_assembler conn') = take k (frame_bytes f)"
        "cs_last_read_time conn' = cs_last_read_time conn + int k * G" "sv_config sv' = sv_config sv"
      by auto
    have e: "cs_last_read_time conn' + G = cs_last_read_time conn + (int k + 1) * G" by (simp add: r(6) algebra_simps)
    have T: "T = int (unat (sf_read_stall_timeout_sec (sv_config sv')))" using assms(7) r(7) by simp
    obtain ls2 sv2 conn2 where q: "drip c [(cs_last_read_time conn' + G, frame_bytes f ! k)] sv' = Inr sv2"
        "server_trace (started config b) ls2 sv2" "find_conn sv2 c = Some conn2" "\<not> cs_close_after_send conn2"
        "unread (cs_assembler conn2) = take (Suc k) (frame_bytes f)" "cs_last_read_time conn2 = cs_last_read_time conn' + G"
        "sv_config sv2 = sv_config sv'"
      using drip_step [OF r(2-5) assms(5) Suc.prems T assms(8)] unfolding G_def by blast
    have xs: "?xs (Suc k) = ?xs k @ [(cs_last_read_time conn' + G, frame_bytes f ! k)]" by (simp add: e)
    have "drip c (?xs (Suc k)) sv = Inr sv2" unfolding xs drip_append r(1) using q(1) by simp
    then show ?case using q(2-7) e r(7)
      by (intro exI conjI) (assumption | simp add: add.commute)+
  qed
  then show ?thesis unfolding G_def [symmetric] by blast
qed

end
