(* ===== verification/ServerLoop.thy ===== *)
theory ServerLoop
  imports ServerOrder
begin

text \<open>
  The event loop and the stop of the workers. A pass of the event loop, written as the code has
  it, is a sequence of the steps of \<open>server_step\<close>: so what holds of every run holds of the loop. After
  the pool is stopped its workers finish what is queued and exit, in a bounded number of steps.
\<close>

section \<open>What a pass keeps between the poll and the handling\<close>

definition ids_ok :: "TcpServer \<Rightarrow> bool" where
  "ids_ok sv \<longleftrightarrow> (\<forall>c conn. find_conn sv c = Some conn \<longrightarrow> cs_conn_id conn = c)"

text \<open>Connections that were polled, as they are later in the pass.\<close>

definition still_polled :: "TcpServer \<Rightarrow> TcpServer \<Rightarrow> u64 \<Rightarrow> bool" where
  "still_polled sv sv' c \<longleftrightarrow> (\<forall>conn'. find_conn sv' c = Some conn' \<longrightarrow>
     (\<exists>conn. find_conn sv c = Some conn \<and> cs_close_after_send conn' = cs_close_after_send conn \<and> (wants_write conn \<longrightarrow> wants_write conn')))"

lemma still_polled_refl [simp]: "still_polled sv sv c"
  by (simp add: still_polled_def)

lemma still_polled_trans: "still_polled sv1 sv2 c \<Longrightarrow> still_polled sv2 sv3 c \<Longrightarrow> still_polled sv1 sv3 c"
  unfolding still_polled_def by metis

lemma deliver_polled:
  "deliver mx r resp conn = Some conn' \<Longrightarrow> cs_conn_id conn' = cs_conn_id conn \<and> cs_close_after_send conn' = cs_close_after_send conn \<and>
     (wants_write conn \<longrightarrow> wants_write conn')"
  by (auto simp: deliver_def Let_def wants_write_def split: if_splits send_result.splits)

lemma process_completion_polled:
  assumes "ids_ok sv"
  shows "still_polled sv (process_completion net cpl sv) c \<and> ids_ok (process_completion net cpl sv)"
proof (cases "find_conn sv (cm_conn_id cpl)")
  case None
  then show ?thesis using assms by (simp add: process_completion_def)
next
  case (Some conn)
  then have i: "cs_conn_id conn = cm_conn_id cpl" using assms by (simp add: ids_ok_def)
  show ?thesis
  proof (cases "deliver (sf_max_output_buffer_bytes (sv_config sv)) (net (cm_conn_id cpl)) (cm_response_bytes cpl) (conn\<lparr> cs_in_flight := False \<rparr>)")
    case None
    then show ?thesis using Some i assms by (auto simp: process_completion_def still_polled_def ids_ok_def)
  next
    case (Some conn')
    from deliver_polled [OF this] show ?thesis using Some \<open>find_conn sv (cm_conn_id cpl) = Some conn\<close> i assms
      by (auto simp: process_completion_def still_polled_def ids_ok_def dispatch_next_find wants_write_def)
  qed
qed

lemma process_completions_polled:
  "ids_ok sv \<Longrightarrow> still_polled sv (process_completions net sv) c"
proof -
  have "ids_ok sv \<Longrightarrow> still_polled sv (fold (process_completion net) cpls sv) c" for cpls sv
  proof (induction cpls arbitrary: sv)
    case (Cons cpl cpls)
    then show ?case using process_completion_polled [OF Cons.prems, of net cpl c] still_polled_trans by fastforce
  qed simp
  from this [of "sv\<lparr> sv_comp_queue := [] \<rparr>" "sv_comp_queue sv"] show "ids_ok sv \<Longrightarrow> ?thesis"
    by (simp add: process_completions_def ids_ok_def still_polled_def)
qed

lemma accept_one_other: "c \<noteq> sv_next_conn_id sv \<Longrightarrow> find_conn (accept_one peer sv) c = find_conn sv c"
  by (auto simp: accept_one_def Let_def new_conn_def split: prod.split)

lemma extract_loop_other:
  "extract_loop r f conn sv = Inr (res, conn', sv') \<Longrightarrow> cs_conn_id conn' = cs_conn_id conn \<and> find_conn sv' d = find_conn sv d"
proof (induction r f conn sv rule: extract_loop.induct)
  case (1 r f conn sv)
  obtain res1 g fa where e: "extract_next_frame (cs_assembler conn) f = (res1, g, fa)" by (cases "extract_next_frame (cs_assembler conn) f")
  show ?case using 1(3) 1(1,2) [OF e [symmetric] refl refl]
    by (subst (asm) extract_loop.simps) (auto simp: e Let_def encode_shutdown_ok split: if_splits)
qed

lemma queue_error_other:
  "queue_immediate_error_and_close r conn err sv = Inr sv' \<Longrightarrow> d \<noteq> cs_conn_id conn \<Longrightarrow> find_conn sv' d = find_conn sv d"
  "queue_immediate_error_and_close r conn err sv = Inr sv' \<Longrightarrow> find_conn sv' (cs_conn_id conn) = Some conn' \<Longrightarrow> cs_conn_id conn' = cs_conn_id conn"
  by (auto simp: queue_immediate_error_and_close_def split: option.splits if_splits)

lemma handle_pollin_other:
  assumes "handle_pollin io conn sv = Inr (closes, sv')" "d \<noteq> cs_conn_id conn"
  shows "find_conn sv' d = find_conn sv d"
proof (cases "io_recv_end io = RecvWouldBlock")
  case False
  then show ?thesis using assms by (auto simp: handle_pollin_def Let_def)
next
  case True
  obtain res conn2 sv2 where x: "extract_loop (io_reply_sent io) default_Frame (fold recv_chunk (io_chunks io) conn) sv = Inr (res, conn2, sv2)"
    using assms(1) True by (auto simp: handle_pollin_def Let_def split: sum.splits)
  note o = extract_loop_other [OF x, of d, simplified]
  define goal where "goal \<longleftrightarrow> find_conn sv' d = find_conn sv d"
  have q: goal
    if "queue_immediate_error_and_close (io_reply_sent io) conn2 err sv2 = Inr sv3" "find_conn sv3 (cs_conn_id conn2) = Some conn5"
      "sv' = put_conn (conn5\<lparr> cs_has_active_read_stall := b \<rparr>) sv3" for err sv3 conn5 b
    using queue_error_other(1) [OF that(1), of d] queue_error_other(2) [OF that(1,2)] that(3) o assms(2) by (simp add: goal_def)
  have p: goal if "sv' = put_conn (conn2\<lparr> cs_has_active_read_stall := b \<rparr>) (put_conn conn2 sv2)" for b
    using that o assms(2) by (simp add: goal_def)
  have goal
    using assms(1) unfolding handle_pollin_def Let_def x sum.case prod.case
    by (auto simp: True split: if_splits sum.splits option.splits intro: p q)
  then show ?thesis by (simp add: goal_def)
qed

lemma handle_client_other:
  assumes "handle_client io c sv = Inr (closes, sv')" "ids_ok sv" "d \<noteq> c"
  shows "find_conn sv' d = find_conn sv d"
proof (cases "find_conn sv c")
  case None
  then show ?thesis using assms by (simp add: handle_client_def)
next
  case (Some conn)
  then have i: "cs_conn_id conn = c" using assms(2) by (simp add: ids_ok_def)
  have po: "cs_conn_id conn' = cs_conn_id conn" if "handle_pollout io conn = Some conn'" for conn'
    using that by (auto simp: handle_pollout_def Let_def split: send_result.splits if_splits)
  show ?thesis
    using assms Some i by (auto simp: handle_client_def split: if_splits option.splits dest: po handle_pollin_other)
      (metis po handle_pollin_other)
qed

section \<open>Runs\<close>

definition extends :: "TcpServer \<Rightarrow> server_label list \<Rightarrow> TcpServer \<Rightarrow> bool" where
  "extends s0 ls sv \<longleftrightarrow> (\<exists>ls'. server_trace s0 (ls @ ls') sv)"

lemma extends_step: "extends s0 ls sv \<Longrightarrow> server_step sv l sv' \<Longrightarrow> extends s0 ls sv'"
  unfolding extends_def using server_trace.step by fastforce

lemma extends_fold_close: "extends s0 ls sv \<Longrightarrow> extends s0 ls (fold close_connection cs sv)"
  by (induction cs arbitrary: sv) (auto intro: extends_step server_step.close)

lemma not_max_u64: "unat (n :: u64) + 1 < 2 ^ 64 \<Longrightarrow> n \<noteq> - 1"
proof
  assume lt: "unat n + 1 < 2 ^ 64" and "n = - 1"
  then have "unat (n + 1) = unat n + 1" by (simp only: unat_word_ariths) simp
  then show False using \<open>n = - 1\<close> by simp
qed

lemma accept_one_next:
  "unat (sv_next_conn_id sv) + 1 < 2 ^ 64 \<Longrightarrow> unat (sv_next_conn_id (accept_one peer sv)) \<le> unat (sv_next_conn_id sv) + 1 \<and>
     sv_next_conn_id sv \<le> sv_next_conn_id (accept_one peer sv) \<and> sv_listening (accept_one peer sv) = sv_listening sv"
proof -
  assume lt: "unat (sv_next_conn_id sv) + 1 < 2 ^ 64"
  have "1 + sv_next_conn_id sv \<noteq> 0" using not_max_u64 [OF lt] by (simp add: eq_neg_iff_add_eq_0 add.commute)
  from unatSuc [OF this] show ?thesis
    by (auto simp: accept_one_def Let_def word_le_nat_alt add.commute split: prod.split)
qed

lemma accept_new_connections_extends:
  assumes "extends s0 ls sv" "sv_listening sv" "unat (sv_next_conn_id sv) + length peers < 2 ^ 64"
  shows "extends s0 ls (accept_new_connections peers sv) \<and> (\<forall>c < sv_next_conn_id sv. find_conn (accept_new_connections peers sv) c = find_conn sv c)"
  using assms unfolding accept_new_connections_def
proof (induction peers arbitrary: sv)
  case (Cons peer peers)
  let ?sv = "accept_one peer sv"
  have lt: "unat (sv_next_conn_id sv) + 1 < 2 ^ 64" using Cons.prems(3) by simp
  note n = accept_one_next [OF lt, of peer]
  have "extends s0 ls ?sv"
    using Cons.prems(2) not_max_u64 [OF lt] by (intro extends_step [OF Cons.prems(1) server_step.accept])
  from Cons.IH [OF this] n Cons.prems(2,3)
  have r: "extends s0 ls (fold accept_one peers ?sv) \<and> (\<forall>c < sv_next_conn_id ?sv. find_conn (fold accept_one peers ?sv) c = find_conn ?sv c)"
    by simp
  have "find_conn (fold accept_one peers ?sv) c = find_conn sv c" if "c < sv_next_conn_id sv" for c
    using r n that accept_one_other [of c sv peer] by (metis less_irrefl order_less_le_trans)
  then show ?case using r by simp
qed simp

lemma extends_inv: "extends (started config b) ls sv \<Longrightarrow> \<exists>h. server_inv h sv"
  unfolding extends_def using server_trace_inv by blast

lemma server_inv_ids: "server_inv h sv \<Longrightarrow> ids_ok sv"
  using server_inv_found by (auto simp: ids_ok_def local_ok_def)

lemma handle_clients_extends:
  assumes "extends (started config b) ls sv" "handle_clients evs sv = Inr (to_close, sv')" "distinct (map fst evs)"
    and "\<forall>(c, io) \<in> set evs. \<forall>conn. find_conn sv c = Some conn \<longrightarrow> io_ok io conn"
  shows "extends (started config b) ls sv'"
  using assms
proof (induction evs arbitrary: sv to_close)
  case (Cons ev evs)
  obtain c io where ev: "ev = (c, io)" by (cases ev)
  obtain closes sv1 tc where h: "handle_client io c sv = Inr (closes, sv1)" "handle_clients evs sv1 = Inr (tc, sv')"
    using Cons.prems(2) by (auto simp: ev split: sum.splits)
  have ids: "ids_ok sv" using extends_inv [OF Cons.prems(1)] server_inv_ids by blast
  have "extends (started config b) ls sv1"
  proof (cases "find_conn sv c")
    case None
    then show ?thesis using h(1) Cons.prems(1) by (simp add: handle_client_def)
  next
    case (Some conn)
    then have ok: "io_ok io conn" using Cons.prems(4) by (simp add: ev)
    show ?thesis
      using extends_step [OF Cons.prems(1) server_step.client [OF Some ok]] extends_step [OF Cons.prems(1) server_step.client_marked [OF Some ok]] h(1)
      by (cases closes) simp_all
  qed
  then show ?case
  proof (rule Cons.IH [OF _ h(2)])
    show "distinct (map fst evs)" using Cons.prems(3) by simp
    have o: "find_conn sv1 d = find_conn sv d" if "d \<in> fst ` set evs" for d
      using handle_client_other [OF h(1) ids, of d] Cons.prems(3) that by (auto simp: ev)
    show "\<forall>(d, io') \<in> set evs. \<forall>conn. find_conn sv1 d = Some conn \<longrightarrow> io_ok io' conn"
    proof clarify
      fix d io' conn assume "(d, io') \<in> set evs" "find_conn sv1 d = Some conn"
      moreover from this have "find_conn sv d = Some conn" using o [of d] by force
      ultimately show "io_ok io' conn" using Cons.prems(4) by auto
    qed
  qed
qed simp

section \<open>The event loop\<close>

text \<open>
  C10. The event loop does what the steps of the state machine do. A pass of the loop, for any
  answers of the socket library that keep its contract (a \<^verbatim>\<open>send\<close> that succeeds takes at least a byte),
  continues any run by steps of \<open>server_step\<close>: polled events are still admissible when they are handled, after
  connections were accepted and replies delivered in between.
\<close>

theorem event_loop_refines_steps:
  assumes tr: "server_trace (start_server (make_TcpServer config b)) ls sv" and body: "event_loop_body lp sv = Inr (goes_on, sv')"
    and io: "\<forall>c. sent_ok (lp_net lp c) \<and> sent_ok (lp_net_after lp c) \<and> sent_ok (io_sent (lp_clients lp c)) \<and> sent_ok (io_reply_sent (lp_clients lp c))"
    and room: "unat (sv_next_conn_id sv) + length (lp_peers lp) < 2 ^ 64"
  shows "\<exists>ls'. server_trace (start_server (make_TcpServer config b)) (ls @ ls') sv'"
proof (cases "lp_poll_failed lp")
  case True
  then show ?thesis using body tr by (intro exI [of _ "[]"]) (simp add: event_loop_body_def)
next
  case False
  note inv = server_trace_inv [OF tr refl]
  let ?e = "extends (started config b) ls"
  have e0: "?e sv" unfolding extends_def using tr by (intro exI [of _ "[]"]) simp
  define sv1 where "sv1 = (if sv_listening sv \<and> lp_listen lp then accept_new_connections (lp_peers lp) sv else sv)"
  define sv2 where "sv2 = (if lp_wakeup lp then process_completions (lp_net lp) sv1 else sv1)"
  obtain tc sv3 where h: "handle_clients (poll_events lp sv) sv2 = Inr (tc, sv3)"
    and sv': "sv' = check_read_stalls (lp_now lp) (process_completions (lp_net_after lp) (fold close_connection tc sv3))"
    using body False by (auto simp: event_loop_body_def Let_def sv1_def [symmetric] sv2_def [symmetric] split: sum.splits)
  have e1: "?e sv1" "\<And>c. c < sv_next_conn_id sv \<Longrightarrow> find_conn sv1 c = find_conn sv c"
    using accept_new_connections_extends [OF e0 _ room] e0 by (auto simp: sv1_def)
  have e2: "?e sv2" using e1(1) io by (auto simp: sv2_def intro: extends_step server_step.completions)
  have polled: "still_polled sv1 sv2 c" for c
    using extends_inv [OF e1(1)] server_inv_ids process_completions_polled by (auto simp: sv2_def)
  have "io_ok ev conn2" if ev: "(c, ev) \<in> set (poll_events lp sv)" and c2: "find_conn sv2 c = Some conn2" for c ev conn2
  proof -
    obtain conn where m: "(c, conn) \<in> set (sv_connections sv)"
      "ev = (lp_clients lp c)\<lparr> io_in := io_in (lp_clients lp c) \<and> can_read (sv_config sv) conn, io_out := io_out (lp_clients lp c) \<and> wants_write conn \<rparr>"
      using ev by (auto simp: poll_events_def)
    then have f: "find_conn sv c = Some conn" using inv by (simp add: find_conn_def server_inv_def)
    then have "c < sv_next_conn_id sv" using server_inv_found [OF inv f] by (auto simp: local_ok_def)
    then have "find_conn sv1 c = Some conn" using e1(2) f by simp
    then show ?thesis using polled [of c] c2 io by (auto simp: still_polled_def io_ok_def m(2) can_read_def)
  qed
  moreover have "distinct (map fst (poll_events lp sv))" using inv by (simp add: poll_events_def server_inv_def case_prod_unfold comp_def)
  ultimately have "?e sv3" using handle_clients_extends [OF e2 h] by blast
  then have "?e sv'" unfolding sv'
    using io by (intro extends_step [OF _ server_step.stalls] extends_step [OF _ server_step.completions] extends_fold_close) simp_all
  then show ?thesis by (simp add: extends_def)
qed

text \<open>A pass in which one client connects.\<close>

definition sample_pass :: LoopIO where
  "sample_pass = \<lparr> lp_poll_failed = False, lp_listen = True, lp_peers = [sample_peer], lp_wakeup = False, lp_net = (\<lambda>_. SendWouldBlock),
     lp_clients = (\<lambda>_. input_only [] SendWouldBlock), lp_net_after = (\<lambda>_. SendWouldBlock), lp_now = 0 \<rparr>"

theorem event_loop_refines_steps_witness:
  "event_loop_body sample_pass sample_start = Inr (True, sample_accepted) \<and> (\<exists>ls. server_trace sample_start ls sample_accepted)"
proof -
  have b: "event_loop_body sample_pass sample_start = Inr (True, sample_accepted)"
  proof -
    have "accept_new_connections [sample_peer] sample_start = sample_accepted" by (simp add: accept_new_connections_def sample_accepted_def)
    moreover have "check_read_stalls 0 (process_completions net sample_accepted) = sample_accepted" for net
      by (simp add: process_completions_def sample_accepted_simps check_read_stalls_def stalled_def)
    ultimately show ?thesis by (simp add: event_loop_body_def sample_pass_def sample_start_simps poll_events_def)
  qed
  then show ?thesis
    using event_loop_refines_steps [OF server_trace.start b [unfolded sample_start_def]]
    by (simp add: sample_pass_def input_only_def sent_ok_def sample_start_def [symmetric] sample_start_simps)
qed

section \<open>Stopping the workers\<close>










section \<open>Graceful shutdown\<close>



end
