(* ===== verification/ProduceFetch.thy ===== *)
theory ProduceFetch
  imports BrokerLaws PartitionRead Partitioner
begin

text \<open>
  The path of a record through the broker, from the bytes of a produce request to the bytes of the
  reply to a fetch: \<^verbatim>\<open>MessageHandler\<close>, \<^verbatim>\<open>Topic\<close>, \<^verbatim>\<open>Partition\<close>, the log files, and back.
\<close>

section \<open>Choice of the partition\<close>

lemma sint_u32: "sint (x :: u32) = (if unat x < 2147483648 then int (unat x) else int (unat x) - 4294967296)"
proof -
  define u where "u = uint x"
  have u: "0 \<le> u" "u < 4294967296" using unsigned_less [of x, where ?'a = int] by (simp_all add: u_def)
  have "sint x = signed_take_bit 31 u" using sint_uint [of x] by (simp add: u_def)
  also have "\<dots> = take_bit 32 u - 2 ^ 32 * of_bool (bit u 31)"
    using signed_take_bit_eq_take_bit_minus [of 31 u] by simp
  also have "take_bit 32 u = u" using u by (intro take_bit_int_eq_self) simp_all
  also have "bit u 31 \<longleftrightarrow> 2147483648 \<le> u" using int_div_top [of u 2147483648] u by (simp add: bit_iff_odd)
  finally have "sint x = u - 2 ^ 32 * of_bool (2147483648 \<le> u)" .
  moreover have a: "int (unat x) = u" by (simp add: u_def)
  moreover have "unat x < 2147483648 \<longleftrightarrow> \<not> 2147483648 \<le> u" using a by linarith
  ultimately show ?thesis by simp
qed

lemma choose_partition_in_range:
  assumes "choose_partition t part key = (p, t1)" "0 < length (tc_partitions t)" "length (tc_partitions t) \<le> 65535"
    and "\<not> sint part < - 1" "\<not> sint part \<ge> sint (of_nat (length (tc_partitions t)) :: i32)"
  shows "unat p < length (tc_partitions t)" "tc_partitions t1 = tc_partitions t"
proof -
  let ?n = "length (tc_partitions t)"
  have n: "unat (tc_num_partitions t) = ?n" using assms(3) by (simp add: tc_num_partitions_def unat_of_nat_u32)
  then have nz: "tc_num_partitions t \<noteq> 0" using assms(2) by auto
  have m: "unat (x mod tc_num_partitions t) < ?n" for x using n assms(2) by (simp add: unat_mod)
  have s: "sint (of_nat ?n :: i32) = int ?n" using assms(3) by (simp add: sint_u32 unat_of_nat_u32)
  have e: "unat p < ?n" if "sint p \<ge> 0" "sint p < int ?n" for p :: i32
  proof -
    have "sint p = int (unat p) \<or> sint p = int (unat p) - 4294967296" unfolding sint_u32 by auto
    then show ?thesis using that unat_u32_lt [of p] by linarith
  qed
  show "unat p < ?n" "tc_partitions t1 = tc_partitions t"
    using assms m nz e s by (auto simp: choose_partition_def key_partition_def rr_partition_def split: if_splits)
qed

section \<open>Produce, then fetch\<close>

text \<open>A request as a client frames it.\<close>

abbreviation produce_frame :: "u32 \<Rightarrow> ProduceRequest \<Rightarrow> Frame" where
  "produce_frame i m \<equiv> reply_frame PRODUCE i (encode_ProduceRequest m [])"

abbreviation fetch_frame :: "u32 \<Rightarrow> FetchRequest \<Rightarrow> Frame" where
  "fetch_frame i q \<equiv> reply_frame FETCH i (encode_FetchRequest q [])"

definition batch_of :: "ProduceRequest \<Rightarrow> (bytes \<times> bytes) list" where
  "batch_of m = map (\<lambda>r. (prp_key r, prp_value r)) (pr_records m)"

lemma handle_produce_ok:
  assumes w: "reliable (am_os a)" and m: "valid_ProduceRequest m" "\<not> is_reserved (pr_topic m)" "pr_records m \<noteq> []"
    and t: "get_topic (bk_topic_mgr b) (pr_topic m) = Some t" "0 < length (tc_partitions t)" "length (tc_partitions t) \<le> 65535"
    and part: "\<not> sint (pr_partition m) < - 1" "\<not> sint (pr_partition m) \<ge> sint (of_nat (length (tc_partitions t)) :: i32)"
    and ch: "choose_partition t (pr_partition m) (prp_key (hd (pr_records m))) = (p, t1)"
    and P: "P = tc_partitions t ! unat p" "part_rep (bk_fs b) P rss" "batch_fits (batch_of m)"
      "unat (p_next_offset P) + length (pr_records m) < 2 ^ 64"
  shows "\<exists>P' fs' rss'. handle_request a (produce_frame i m) b =
      Some (reply_frame PRODUCE_OK i (encode_ProduceResponse \<lparr> ps_partition = ucast p, ps_base_offset = p_next_offset P, ps_count = pr_record_count m \<rparr> []),
        b\<lparr> bk_fs := fs', bk_topic_mgr := put_topic (bk_topic_mgr b) (pr_topic m) (put_partition t1 p P') \<rparr>) \<and>
    part_rep fs' P' rss' \<and> concat rss' = concat rss @ batch_records (am_now_ms a) (p_next_offset P) (batch_of m) \<and>
    p_next_offset P' = p_next_offset P + of_nat (length (pr_records m)) \<and> same_part P P' \<and> (sync_on_append (p_config P) \<longrightarrow> part_synced fs' P')"
proof -
  note r = choose_partition_in_range [OF ch t(2,3) part]
  have "batch_of m \<noteq> []" "unat (p_next_offset P) + length (batch_of m) < 2 ^ 64" using m(3) P(4) by (simp_all add: batch_of_def)
  from append_batch_ok [OF w P(2,3) this, of "am_now_ms a"] obtain P' fs' rss' where
    a: "append_batch (am_os a) (am_now_ms a) (bk_fs b) P (batch_of m) = Some (Inr (p_next_offset P), P', fs')" "part_rep fs' P' rss'"
      "concat rss' = concat rss @ batch_records (am_now_ms a) (p_next_offset P) (batch_of m)"
      "p_next_offset P' = p_next_offset P + of_nat (length (batch_of m))" "same_part P P'" "sync_on_append (p_config P) \<longrightarrow> part_synced fs' P'"
    by blast
  have d: "decode_ProduceRequest (make_BodyReader (encode_ProduceRequest m [])) = Some m" by (rule m_produce.roundtrip [OF m(1)])
  have pb: "produce_batch (am_os a) (am_now_ms a) (bk_fs b) t (pr_partition m) (pr_records m) 0 =
      Some (Inr (p_next_offset P), p, put_partition t1 p P', fs')"
    using m(3) part ch r a(1) by (simp add: produce_batch_def P(1) batch_of_def)
  have c: "of_nat (length (pr_records m)) = pr_record_count m" using m(1) by (simp add: valid_ProduceRequest_def) (metis of_nat_unat ucast_id)
  have "handle_request a (produce_frame i m) b = handle_produce a (produce_frame i m) b"
    by (simp add: handle_request_def reply_frame_def message_type_defs)
  also have "\<dots> = Some (reply_frame PRODUCE_OK i (encode_ProduceResponse \<lparr> ps_partition = ucast p, ps_base_offset = p_next_offset P, ps_count = pr_record_count m \<rparr> []),
        b\<lparr> bk_fs := fs', bk_topic_mgr := put_topic (bk_topic_mgr b) (pr_topic m) (put_partition t1 p P') \<rparr>)"
    using m(2,3) t(1) by (simp add: handle_produce_def reply_frame_def d pb c)
  finally show ?thesis using a by (auto simp: batch_of_def)
qed

lemma handle_fetch_ok:
  assumes w: "reliable (am_os a)" and q: "valid_FetchRequest q" "\<not> is_reserved (fq_topic q)" "fq_max_bytes q \<noteq> 0" "fq_max_messages q \<noteq> 0"
    and t: "get_topic (bk_topic_mgr b) (fq_topic q) = Some t" "get_partition t (ucast (fq_partition q)) = Some P" "length (tc_partitions t) \<le> 65535"
    and P: "part_rep (bk_fs b) P rss" "earliest_offset P \<le> fq_start_offset q" "fq_start_offset q < p_next_offset P"
  shows "handle_request a (fetch_frame i q) b = Some (reply_frame FETCH_OK i (encode_FetchResponse
      (fetch_response (fq_start_offset q) (p_next_offset P) (earliest_offset P)
        (take_limit (unat (fq_max_messages q)) (unat (min (fq_max_bytes q) 1048500)) 0 0
          (drop (unat (fq_start_offset q) - unat (earliest_offset P)) (concat rss)))) []), b)"
proof -
  have d: "decode_FetchRequest (make_BodyReader (encode_FetchRequest q [])) = Some q" by (rule m_fetch.roundtrip [OF q(1)])
  have n: "\<not> tc_num_partitions t \<le> ucast (fq_partition q)"
    using t(2,3) by (auto simp: get_partition_def tc_num_partitions_def word_le_nat_alt unat_of_nat_u32 split: if_splits)
  note rd = part_read_range [OF w P(1,2) less_imp_le [OF P(3)]]
  have "handle_request a (fetch_frame i q) b = handle_fetch a (fetch_frame i q) b"
    by (simp add: handle_request_def reply_frame_def message_type_defs)
  moreover have "fq_start_offset q \<noteq> p_next_offset P" "\<not> p_next_offset P < fq_start_offset q" "\<not> fq_start_offset q < earliest_offset P"
    using P(2,3) by auto
  ultimately show ?thesis using q t n by (simp add: handle_fetch_def reply_frame_def d rd ok_def Let_def)
qed

lemma map_batch_records: "map (\<lambda>r. (r_key r, r_value r)) (batch_records ts off batch) = batch"
  by (induction ts off batch rule: batch_records.induct) simp_all

text \<open>
  C32. What is produced can be fetched. A produce request for a user topic (with the partition
  given or left to the broker, and records within the size limit) is answered with the chosen partition and the
  next offset of its log as base offset, and a fetch from that offset, with any positive limits,
  is answered with the produced keys and values in their order, at least one of them, under
  consecutive offsets. Both directions go through the bytes on the wire and in the log files.
\<close>

theorem produce_then_fetch:
  assumes "reliable (am_os a)" "reliable (am_os a')" and m: "valid_ProduceRequest m" "\<not> is_reserved (pr_topic m)" "pr_records m \<noteq> []"
    and t: "get_topic (bk_topic_mgr b) (pr_topic m) = Some t" "0 < length (tc_partitions t)" "length (tc_partitions t) \<le> 65535"
    and part: "- 1 \<le> sint (pr_partition m)" "sint (pr_partition m) < sint (of_nat (length (tc_partitions t)) :: i32)"
    and P: "choose_partition t (pr_partition m) (prp_key (hd (pr_records m))) = (p, t1)" "P = tc_partitions t ! unat p"
      "part_rep (bk_fs b) P rss" "unat (p_next_offset P) + length (pr_records m) < 2 ^ 64"
      "\<forall>r \<in> set (pr_records m). 28 + length (prp_key r) + length (prp_value r) \<le> unat MAX_RECORD_SIZE"
  shows "\<exists>b'. handle_request a (produce_frame i m) b =
      Some (reply_frame PRODUCE_OK i (encode_ProduceResponse \<lparr> ps_partition = ucast p, ps_base_offset = p_next_offset P, ps_count = pr_record_count m \<rparr> []), b') \<and>
    (\<forall>q j. fq_topic q = pr_topic m \<and> fq_partition q = ucast p \<and> fq_start_offset q = p_next_offset P \<and> fq_max_bytes q \<noteq> 0 \<and> fq_max_messages q \<noteq> 0 \<longrightarrow>
       (\<exists>recs k. handle_request a' (fetch_frame j q) b' = Some (reply_frame FETCH_OK j (encode_FetchResponse
            (fetch_response (p_next_offset P) (p_next_offset P + of_nat (length (pr_records m))) (earliest_offset P) recs) []), b') \<and>
          0 < k \<and> map (\<lambda>r. (r_key r, r_value r)) recs = take k (map (\<lambda>r. (prp_key r, prp_value r)) (pr_records m)) \<and>
          recs = take k (batch_records (am_now_ms a) (p_next_offset P) (map (\<lambda>r. (prp_key r, prp_value r)) (pr_records m)))))"
proof -
  have fits: "batch_fits (batch_of m)" using P(5) by (auto simp: batch_fits_def batch_of_def MAX_RECORD_SIZE_def)
  have part': "\<not> sint (pr_partition m) < - 1" "\<not> sint (of_nat (length (tc_partitions t)) :: i32) \<le> sint (pr_partition m)" using part by auto
  note ch = choose_partition_in_range [OF P(1) t(2,3) part']
  obtain P' fs' rss' where r: "handle_request a (produce_frame i m) b =
      Some (reply_frame PRODUCE_OK i (encode_ProduceResponse \<lparr> ps_partition = ucast p, ps_base_offset = p_next_offset P, ps_count = pr_record_count m \<rparr> []),
        b\<lparr> bk_fs := fs', bk_topic_mgr := put_topic (bk_topic_mgr b) (pr_topic m) (put_partition t1 p P') \<rparr>)"
    "part_rep fs' P' rss'" "concat rss' = concat rss @ batch_records (am_now_ms a) (p_next_offset P) (batch_of m)"
    "p_next_offset P' = p_next_offset P + of_nat (length (pr_records m))" "same_part P P'"
    using handle_produce_ok [OF assms(1) m t part' P(1-3) fits P(4), of i] by blast
  let ?b = "b\<lparr> bk_fs := fs', bk_topic_mgr := put_topic (bk_topic_mgr b) (pr_topic m) (put_partition t1 p P') \<rparr>"
  let ?new = "batch_records (am_now_ms a) (p_next_offset P) (batch_of m)"
  have up: "unat (ucast p :: u16) = unat p" using ch(1) t(3) by (intro ucast_u16_small) simp
  have gp: "get_partition (put_partition t1 p P') (ucast (ucast p :: u16)) = Some P'"
    using ch up by (simp add: get_partition_def put_partition_def)
  have n: "unat (p_next_offset P') = unat (p_next_offset P) + length (pr_records m)"
    using r(4) P(4) by (simp add: unat_word_ariths unat_of_nat)
  have rep: "unat (p_next_offset P) = unat (earliest_offset P) + length (concat rss)" "earliest_offset P' = earliest_offset P"
    using P(3) r(5) by (simp_all add: part_rep_def same_part_def)
  have "\<exists>recs k. handle_request a' (fetch_frame j q) ?b = Some (reply_frame FETCH_OK j (encode_FetchResponse
        (fetch_response (p_next_offset P) (p_next_offset P + of_nat (length (pr_records m))) (earliest_offset P) recs) []), ?b) \<and>
      0 < k \<and> map (\<lambda>r. (r_key r, r_value r)) recs = take k (batch_of m) \<and> recs = take k ?new"
    if q: "fq_topic q = pr_topic m" "fq_partition q = ucast p" "fq_start_offset q = p_next_offset P" "fq_max_bytes q \<noteq> 0" "fq_max_messages q \<noteq> 0" for q j
  proof -
    have "length ?new \<noteq> 0" using m(3) by (simp add: batch_of_def)
    then have ne: "?new \<noteq> []" by blast
    obtain k where k: "0 < k" "take_limit (unat (fq_max_messages q)) (unat (min (fq_max_bytes q) 1048500)) 0 0 ?new = take k ?new"
      using take_limit_prefix ne by blast
    have d: "drop (unat (p_next_offset P) - unat (earliest_offset P)) (concat rss') = ?new" using r(3) rep(1) by simp
    have "handle_request a' (fetch_frame j q) ?b = Some (reply_frame FETCH_OK j (encode_FetchResponse
        (fetch_response (p_next_offset P) (p_next_offset P') (earliest_offset P') (take k ?new)) []), ?b)"
      using handle_fetch_ok [OF assms(2), of q ?b "put_partition t1 p P'" P' rss' j] q m(1,2) ch t(3) gp r(2) rep n m(3) k(2) d
      by (simp add: valid_FetchRequest_def valid_ProduceRequest_def get_topic_def put_topic_def update_conv' put_partition_def word_le_nat_alt word_less_nat_alt)
    then show ?thesis using k(1) r(4) rep(2)
      by (intro exI [of _ "take k ?new"] exI [of _ k]) (simp add: take_map [symmetric] map_batch_records)
  qed
  then show ?thesis using r(1) unfolding batch_of_def by blast
qed

text \<open>A broker with one topic of one empty partition.\<close>

definition sample_log_broker :: Broker where
  "sample_log_broker = \<lparr> bk_fs = sample_fs [],
     bk_topic_mgr = \<lparr> tm_config = default_StorageConfig,
        tm_topics = [(''t'', (make_Topic ''t'' 1 [''topic''] default_StorageConfig 0 0)\<lparr> tc_partitions := [sample_part] \<rparr>)] \<rparr>,
     bk_offset_store = new_OffsetStore, bk_coordinator = None \<rparr>"

definition sample_ambient :: Ambient where
  "sample_ambient = \<lparr> am_os = ideal_os, am_now_ms = 0, am_now = 0, am_rand = 0 \<rparr>"

lemma sample_ambient_reliable [simp]: "reliable (am_os sample_ambient)"
  by (simp add: sample_ambient_def reliable_ideal_os)

definition sample_produce :: ProduceRequest where
  "sample_produce = \<lparr> pr_topic = ''t'', pr_partition = 0, pr_record_count = 1, pr_records = [\<lparr> prp_key = [1], prp_value = [2] \<rparr>] \<rparr>"

definition sample_fetch :: FetchRequest where
  "sample_fetch = \<lparr> fq_topic = ''t'', fq_partition = 0, fq_start_offset = 0, fq_max_bytes = 100, fq_max_messages = 10 \<rparr>"

theorem produce_then_fetch_witness:
  "\<exists>b' recs. handle_request sample_ambient (produce_frame 1 sample_produce) sample_log_broker =
      Some (reply_frame PRODUCE_OK 1 (encode_ProduceResponse \<lparr> ps_partition = 0, ps_base_offset = 0, ps_count = 1 \<rparr> []), b') \<and>
    handle_request sample_ambient (fetch_frame 2 sample_fetch) b' =
      Some (reply_frame FETCH_OK 2 (encode_FetchResponse (fetch_response 0 1 0 recs) []), b') \<and> map r_value recs = [[2]]"
proof -
  let ?t = "(make_Topic ''t'' 1 [''topic''] default_StorageConfig 0 0)\<lparr> tc_partitions := [sample_part] \<rparr>"
  have g: "get_topic (bk_topic_mgr sample_log_broker) ''t'' = Some ?t" "bk_fs sample_log_broker = sample_fs []"
    by (simp_all add: sample_log_broker_def get_topic_def)
  have v: "valid_ProduceRequest sample_produce" "\<not> is_reserved ''t''"
    by (simp_all add: valid_ProduceRequest_def sample_produce_def is_reserved_def)
  have c: "choose_partition ?t 0 key = (0, ?t)" for key by (simp add: choose_partition_def)
  from produce_then_fetch [OF sample_ambient_reliable sample_ambient_reliable v(1), of sample_log_broker ?t 0 ?t sample_part "[[]]" 1] g v(2) c
  obtain b' where b': "handle_request sample_ambient (produce_frame 1 sample_produce) sample_log_broker =
      Some (reply_frame PRODUCE_OK 1 (encode_ProduceResponse \<lparr> ps_partition = 0, ps_base_offset = 0, ps_count = 1 \<rparr> []), b')"
    "handle_request sample_ambient (fetch_frame 2 sample_fetch) b' = Some (reply_frame FETCH_OK 2 (encode_FetchResponse
        (fetch_response 0 1 0 [\<lparr> r_offset = 0, r_timestamp_ms = 0, r_key = [1], r_value = [2] \<rparr>]) []), b')"
    by (auto simp: sample_produce_def sample_part_rep MAX_RECORD_SIZE_def sample_ambient_def [THEN arg_cong [where f = am_now_ms]]
        dest!: spec [of _ sample_fetch] spec [of _ 2]) (auto simp: sample_fetch_def)
  then show ?thesis by (intro exI conjI) (assumption | simp)+
qed

section \<open>Replies that are too long\<close>

lemma length_fetch_response:
  "length (encode_FetchResponse (fetch_response start hw earliest [r1, r2]) []) =
     74 + length (r_key r1) + length (r_value r1) + length (r_key r2) + length (r_value r2)"
  by (simp add: encode_FetchResponse_def fetch_response_def Let_def write_FetchRecordWire_def bw_write_bytes_def fetch_wire_def)

text \<open>
  C33. A reply to a fetch can exceed the limit of a frame. The read stops only after the record that
  reaches the byte limit, so where two records that are each within the limits, and whose keys and values
  together exceed the length limit of a frame, follow each other at the start offset, a fetch of two
  messages is answered by a frame that a reader with that limit, such as the assembler, refuses as too large.
\<close>

theorem fetch_reply_exceeds_frame_limit:
  assumes "reliable (am_os a)" and q: "valid_FetchRequest q" "\<not> is_reserved (fq_topic q)" "1048500 \<le> fq_max_bytes q" "fq_max_messages q = 2"
    and t: "get_topic (bk_topic_mgr b) (fq_topic q) = Some t" "get_partition t (ucast (fq_partition q)) = Some P" "length (tc_partitions t) \<le> 65535"
    and P: "part_rep (bk_fs b) P rss" "earliest_offset P \<le> fq_start_offset q" "fq_start_offset q < p_next_offset P"
    and r: "drop (unat (fq_start_offset q) - unat (earliest_offset P)) (concat rss) = r1 # r2 # rest"
      "record_size r1 < 1048500" "record_size r2 \<le> 1048576"
      "1048576 < length (r_key r1) + length (r_value r1) + length (r_key r2) + length (r_value r2)"
  shows "\<exists>resp enc. handle_request a (fetch_frame i q) b = Some (resp, b) \<and> frame_encode resp = Some enc \<and>
    MAX_FRAME_LENGTH < fr_length resp \<and> fst (extract_next_frame (push_bytes new_FrameAssembler enc) f0) = ErrorLengthTooLarge"
proof -
  have mb: "min (fq_max_bytes q) 1048500 = 1048500" using q(3) by (simp add: min_def)
  have nz: "fq_max_bytes q \<noteq> 0" using q(3) by auto
  have mm: "unat (fq_max_messages q) = 2" using q(4) by simp
  let ?resp = "fetch_response (fq_start_offset q) (p_next_offset P) (earliest_offset P) [r1, r2]"
  let ?f = "reply_frame FETCH_OK i (encode_FetchResponse ?resp [])"
  have h: "handle_request a (fetch_frame i q) b = Some (?f, b)"
    using handle_fetch_ok [OF assms(1) q(1,2) nz _ t P, of i] q(4) r(2)
    by (auto simp: mb mm r(1))
  let ?n = "length (encode_FetchResponse ?resp [])"
  have n: "1048576 < ?n" "?n < 3000000" using r(2-4) by (simp_all add: length_fetch_response record_size_def)
  have e: "frame_encode ?f = Some (frame_bytes ?f)" using n by (intro frame_encode_layout) (simp add: reply_frame_def)
  have l: "unat (5 + of_nat ?n :: u32) = 5 + ?n" using n by (simp add: unat_word_ariths unat_of_nat_u32)
  have "fr_length ?f = 5 + of_nat ?n" by (simp add: reply_frame_def HEADER_SIZE_def)
  then have big: "MAX_FRAME_LENGTH < fr_length ?f" using l n by (simp add: word_less_nat_alt MAX_FRAME_LENGTH_def)
  have "fc_read_u32 (frame_bytes ?f) = 5 + of_nat ?n" by (simp add: frame_bytes_def reply_frame_def)
  then have "next_frame (frame_bytes ?f) = (ErrorLengthTooLarge, None, 0)" using l n by (simp add: next_frame_def Let_def)
  then have "fst (extract_next_frame (push_bytes new_FrameAssembler (frame_bytes ?f)) f0) = ErrorLengthTooLarge"
    using extract_next_frame_abs [of "push_bytes new_FrameAssembler (frame_bytes ?f)" f0] by (auto split: prod.splits)
  then show ?thesis using h e big by blast
qed

theorem fetch_reply_exceeds_frame_limit_witness:
  "\<exists>b resp. handle_request sample_ambient (fetch_frame 1 (sample_fetch\<lparr> fq_max_bytes := 1048576, fq_max_messages := 2 \<rparr>)) b = Some (resp, b) \<and>
     MAX_FRAME_LENGTH < fr_length resp"
proof -
  let ?batch = "[([], replicate 600000 0), ([], replicate 600000 0)] :: (bytes \<times> bytes) list"
  have "batch_fits ?batch" by (simp add: batch_fits_def)
  from append_batch_ok [OF reliable_ideal_os sample_part_rep this, of 0] obtain P' fs' rss' where
    p: "part_rep fs' P' rss'" "concat rss' = batch_records 0 0 ?batch" "p_next_offset P' = 2" "earliest_offset P' = 0"
    by (auto simp: same_part_def)
  let ?t = "(make_Topic ''t'' 1 [''topic''] default_StorageConfig 0 0)\<lparr> tc_partitions := [P'] \<rparr>"
  let ?b = "sample_log_broker\<lparr> bk_fs := fs', bk_topic_mgr := \<lparr> tm_config = default_StorageConfig, tm_topics = [(''t'', ?t)] \<rparr> \<rparr>"
  let ?r1 = "\<lparr> r_offset = 0, r_timestamp_ms = 0, r_key = [], r_value = replicate 600000 0 \<rparr> :: Record"
  let ?r2 = "\<lparr> r_offset = 1, r_timestamp_ms = 0, r_key = [], r_value = replicate 600000 0 \<rparr> :: Record"
  let ?q = "sample_fetch\<lparr> fq_max_bytes := 1048576, fq_max_messages := 2 \<rparr>"
  have "\<exists>resp enc. handle_request sample_ambient (fetch_frame 1 ?q) ?b = Some (resp, ?b) \<and> frame_encode resp = Some enc \<and>
    MAX_FRAME_LENGTH < fr_length resp \<and> fst (extract_next_frame (push_bytes new_FrameAssembler enc) default_Frame) = ErrorLengthTooLarge"
    by (rule fetch_reply_exceeds_frame_limit [OF sample_ambient_reliable, of ?q ?b ?t P' rss' ?r1 ?r2 "[]"])
       (use p in \<open>simp_all add: sample_fetch_def valid_FetchRequest_def is_reserved_def get_topic_def get_partition_def record_size_def\<close>)
  then show ?thesis by blast
qed

end
