(* ===== verification/RetentionManager.thy ===== *)
theory RetentionManager
  imports TopicManager
begin

text \<open>
  \<^verbatim>\<open>src/src/RetentionManager.cpp\<close>: the pass over all topics that removes old segments, and the loop of
  its thread. The clock is an argument, one reading per partition (each call of
  \<^verbatim>\<open>scan_and_delete_segments\<close> reads it anew). The lines printed and logged are left out; the
  number they report is the result.
\<close>

section \<open>A pass\<close>

fun scan_partitions ::
  "os \<Rightarrow> (nat \<Rightarrow> i64) \<Rightarrow> bool \<Rightarrow> u64 \<Rightarrow> u64 \<Rightarrow> nat \<Rightarrow> Partition list \<Rightarrow> filesys \<Rightarrow> nat \<times> Partition list \<times> filesys" where
  "scan_partitions w clock dry_run retention_ms retention_bytes p [] fs = (0, [], fs)"
| "scan_partitions w clock dry_run retention_ms retention_bytes p (part # parts) fs =
     (let (st, candidates, part1, fs1) = scan_and_delete_segments w (clock p) fs part retention_ms retention_bytes dry_run [];
          (n, parts1, fs2) = scan_partitions w clock dry_run retention_ms retention_bytes (Suc p) parts fs1
      in ((if \<not> ok st then 0 else length candidates) + n, part1 # parts1, fs2))"

definition scan_topic :: "os \<Rightarrow> (string \<Rightarrow> nat \<Rightarrow> i64) \<Rightarrow> bool \<Rightarrow> Topic \<Rightarrow> filesys \<Rightarrow> nat \<times> Topic \<times> filesys" where
  "scan_topic w clock dry_run t fs =
     (if is_reserved (tc_name t) then (0, t, fs)
      else if tc_retention_ms t = 0 \<and> tc_retention_bytes t = 0 then (0, t, fs)
      else let (n, parts, fs1) = scan_partitions w (clock (tc_name t)) dry_run (tc_retention_ms t) (tc_retention_bytes t) 0 (tc_partitions t) fs
        in (n, t\<lparr> tc_partitions := parts \<rparr>, fs1))"

fun scan_topics :: "os \<Rightarrow> (string \<Rightarrow> nat \<Rightarrow> i64) \<Rightarrow> bool \<Rightarrow> (string \<times> Topic) list \<Rightarrow> filesys \<Rightarrow> nat \<times> (string \<times> Topic) list \<times> filesys" where
  "scan_topics w clock dry_run [] fs = (0, [], fs)"
| "scan_topics w clock dry_run ((name, t) # ts) fs =
     (let (n, t1, fs1) = scan_topic w clock dry_run t fs;
          (m, ts1, fs2) = scan_topics w clock dry_run ts fs1
      in (n + m, (name, t1) # ts1, fs2))"

definition run_one_pass ::
  "os \<Rightarrow> (string \<Rightarrow> nat \<Rightarrow> i64) \<Rightarrow> bool \<Rightarrow> string \<Rightarrow> TopicManager \<Rightarrow> filesys \<Rightarrow> nat \<times> TopicManager \<times> filesys" where
  "run_one_pass w clock dry_run specific_topic tm fs =
     (if specific_topic \<noteq> [] then
        (case get_topic tm specific_topic of
           None \<Rightarrow> (0, tm, fs)
         | Some t \<Rightarrow> let (n, t1, fs1) = scan_topic w clock dry_run t fs in (n, put_topic tm specific_topic t1, fs1))
      else let (n, ts, fs1) = scan_topics w clock dry_run (tm_topics tm) fs in (n, tm\<lparr> tm_topics := ts \<rparr>, fs1))"

section \<open>The thread\<close>

text \<open>\<open>rm_thread\<close>: \<^verbatim>\<open>m_thread\<close> is joinable. Assigning to a joinable \<^verbatim>\<open>std::thread\<close> ends the process (\<open>None\<close>).\<close>

record RetentionManager =
  rm_interval_ms :: u64
  rm_running :: bool
  rm_thread :: bool

definition make_RetentionManager :: "u64 \<Rightarrow> RetentionManager" where
  "make_RetentionManager check_interval_ms = \<lparr> rm_interval_ms = check_interval_ms, rm_running = False, rm_thread = False \<rparr>"

definition rm_start :: "RetentionManager \<Rightarrow> RetentionManager option" where
  "rm_start rm =
     (if rm_running rm then Some rm
      else if rm_thread rm then None
      else Some (rm\<lparr> rm_running := True, rm_thread := True \<rparr>))"

text \<open>\<^verbatim>\<open>stop\<close> is two steps, since the mutex is released before the join: the flag, with whether the caller
  goes on to the join, and the join.\<close>

definition rm_stop_flag :: "RetentionManager \<Rightarrow> bool \<times> RetentionManager" where
  "rm_stop_flag rm = (if \<not> rm_running rm then (False, rm) else (True, rm\<lparr> rm_running := False \<rparr>))"

definition rm_stop_join :: "RetentionManager \<Rightarrow> RetentionManager" where
  "rm_stop_join rm = (if rm_thread rm then rm\<lparr> rm_thread := False \<rparr> else rm)"

definition rm_stop :: "RetentionManager \<Rightarrow> RetentionManager" where
  "rm_stop rm = (let (go, rm1) = rm_stop_flag rm in if go then rm_stop_join rm1 else rm1)"

text \<open>
  The sleep of the loop in small steps: the durations slept. What each reading of \<^verbatim>\<open>m_running\<close> returns is
  an argument.
\<close>

lemma sleep_step:
  assumes "elapsed < interval"
  shows "unat (elapsed + min 100 (interval - elapsed)) = unat elapsed + unat (min 100 (interval - elapsed :: u64))"
    and "elapsed + min 100 (interval - elapsed) \<le> interval" "0 < unat (min 100 (interval - elapsed))"
proof -
  let ?d = "interval - elapsed" let ?s = "min 100 ?d"
  have lt: "unat elapsed < unat interval" using assms by (simp add: word_less_nat_alt)
  then have d: "unat ?d = unat interval - unat elapsed" by (intro unat_sub_small) simp
  have s: "unat ?s \<le> unat ?d" by (auto simp: min_def word_le_nat_alt)
  show "0 < unat ?s" using lt d by (auto simp: min_def)
  show e: "unat (elapsed + ?s) = unat elapsed + unat ?s"
  proof (rule unat_add_small_u64)
    show "unat elapsed + unat ?s < 18446744073709551616" using s d lt unat_u64_lt [of interval] by linarith
  qed
  then show "elapsed + ?s \<le> interval" using s d lt by (simp add: word_le_nat_alt)
qed

function sleep_loop :: "(nat \<Rightarrow> bool) \<Rightarrow> nat \<Rightarrow> u64 \<Rightarrow> u64 \<Rightarrow> u64 list" where
  "sleep_loop running i interval elapsed =
     (if elapsed < interval \<and> running i then
        (let step = min 100 (interval - elapsed) in step # sleep_loop running (Suc i) interval (elapsed + step))
      else [])"
  by pat_completeness auto
termination
proof (relation "measure (\<lambda>(_, _, interval, elapsed). unat interval - unat elapsed)", simp)
  fix running :: "nat \<Rightarrow> bool" and i :: nat and interval elapsed step :: u64
  assume a: "elapsed < interval \<and> running i" "step = min 100 (interval - elapsed)"
  have "unat elapsed < unat interval" using a(1) by (simp add: word_less_nat_alt)
  then show "((running, Suc i, interval, elapsed + step), (running, i, interval, elapsed)) \<in>
      measure (\<lambda>(_, _, interval, elapsed). unat interval - unat elapsed)"
    using sleep_step(1,3) [of elapsed interval] a by simp
qed

declare sleep_loop.simps [simp del]

text \<open>The thread for the given turns; a turn has the readings of \<^verbatim>\<open>m_running\<close> at the loop head, during the
  sleep and after it, and the clock of the pass.\<close>

fun thread_loop ::
  "os \<Rightarrow> RetentionManager \<Rightarrow> (bool \<times> (nat \<Rightarrow> bool) \<times> bool \<times> (string \<Rightarrow> nat \<Rightarrow> i64)) list \<Rightarrow> TopicManager \<Rightarrow> filesys \<Rightarrow>
    u64 list \<times> TopicManager \<times> filesys" where
  "thread_loop w rm [] tm fs = ([], tm, fs)"
| "thread_loop w rm ((running, during, running_after, clock) # turns) tm fs =
     (if \<not> running then ([], tm, fs)
      else let slept = sleep_loop during 0 (rm_interval_ms rm) 0
        in if \<not> running_after then (slept, tm, fs)
           else let (_, tm1, fs1) = run_one_pass w clock False [] tm fs;
                    (slept2, tm2, fs2) = thread_loop w rm turns tm1 fs1
                in (slept @ slept2, tm2, fs2))"

section \<open>The sleep\<close>

text \<open>The sleep is the interval in steps of at most 100 ms, so a stop is seen within that time.\<close>

lemma sleep_loop_steps: "s \<in> set (sleep_loop running i interval elapsed) \<Longrightarrow> 0 < s \<and> s \<le> 100"
proof (induction running i interval elapsed rule: sleep_loop.induct)
  case (1 running i interval elapsed)
  then show ?case using sleep_step(3) [of elapsed interval]
    by (subst (asm) (2) sleep_loop.simps) (auto simp: Let_def unat_gt_0 word_gt_0 split: if_splits)
qed

lemma sleep_loop_total:
  "elapsed \<le> interval \<Longrightarrow> unat elapsed + sum_list (map unat (sleep_loop (\<lambda>_. True) i interval elapsed)) = unat interval"
proof (induction "\<lambda>_ :: nat. True" i interval elapsed rule: sleep_loop.induct)
  case (1 i interval elapsed)
  show ?case
  proof (cases "elapsed < interval")
    case True
    then show ?thesis using 1(1) [OF _ refl] sleep_step [OF True]
      by (subst sleep_loop.simps) (simp add: Let_def)
  next
    case False
    then show ?thesis using 1(2) by (subst sleep_loop.simps) simp
  qed
qed

lemma sleep_loop_stopped:
  "\<not> running i \<Longrightarrow> sleep_loop running i interval elapsed = []"
  by (subst sleep_loop.simps) simp

lemma start_stop: "rm_thread rm = rm_running rm \<Longrightarrow> \<exists>rm1. rm_start rm = Some rm1 \<and> rm_thread rm1 \<and> rm_running rm1 \<and> \<not> rm_thread (rm_stop rm1) \<and> \<not> rm_running (rm_stop rm1)"
  by (auto simp: rm_start_def rm_stop_def rm_stop_flag_def rm_stop_join_def)

text \<open>A start between the two steps of a stop ends the process.\<close>

lemma start_during_stop_terminates:
  "rm_running rm \<Longrightarrow> rm_thread rm \<Longrightarrow> rm_start (snd (rm_stop_flag rm)) = None"
  by (simp add: rm_start_def rm_stop_flag_def)

section \<open>A dry run\<close>

lemma scan_dry:
  "fst (scan_and_delete_segments w now fs P ms rb d []) = Status_OK"
  "fst (snd (scan_and_delete_segments w now fs P ms rb d [])) = fst (snd (scan_and_delete_segments w now fs1 P ms rb True []))"
  "snd (snd (scan_and_delete_segments w now fs P ms rb True [])) = (P, fs)"
  by (simp_all add: scan_and_delete_segments_def Let_def)

lemma scan_partitions_dry:
  "fst (scan_partitions w clock d ms rb p ps fs) = fst (scan_partitions w clock True ms rb p ps fs1)"
  "snd (scan_partitions w clock True ms rb p ps fs) = (ps, fs)"
proof (induction ps arbitrary: p fs fs1)
  case (Cons P ps)
  { case 1
    obtain st c P1 f1 where e: "scan_and_delete_segments w (clock p) fs P ms rb d [] = (st, c, P1, f1)" by (metis prod_cases4)
    have r: "scan_and_delete_segments w (clock p) fs1 P ms rb True [] = (Status_OK, c, P, fs1)" and "st = Status_OK"
      using scan_dry(1) [of w "clock p" fs1 P ms rb True] scan_dry(2) [of w "clock p" fs P ms rb d fs1]
        scan_dry(3) [of w "clock p" fs1 P ms rb] scan_dry(1) [of w "clock p" fs P ms rb d] e
      by (simp_all add: prod_eq_iff)
    then show ?case using Cons(1) [of "Suc p" f1 fs1] e by (simp add: case_prod_unfold Let_def) }
  { case 2 then show ?case using Cons(2) [of "Suc p" fs] scan_dry(3) [of w "clock p" fs P ms rb]
      by (simp add: case_prod_unfold Let_def) }
qed simp_all

lemma scan_topic_dry:
  "fst (scan_topic w clock d t fs) = fst (scan_topic w clock True t fs1)"
  "snd (scan_topic w clock True t fs) = (t, fs)"
  using scan_partitions_dry(1) [of w "clock (tc_name t)" d "tc_retention_ms t" "tc_retention_bytes t" 0 "tc_partitions t" fs fs1]
  by (simp_all add: scan_topic_def case_prod_unfold Let_def scan_partitions_dry(2))

lemma scan_topics_dry:
  "fst (scan_topics w clock d ts fs) = fst (scan_topics w clock True ts fs1)"
  "snd (scan_topics w clock True ts fs) = (ts, fs)"
proof (induction ts arbitrary: fs fs1)
  case (Cons x ts)
  obtain name t where x: "x = (name, t)" by (cases x)
  { case 1 then show ?case using Cons(1) scan_topic_dry(1) unfolding x by (simp add: case_prod_unfold Let_def) metis }
  { case 2 then show ?case using Cons(2) scan_topic_dry(2) [of w clock t fs] unfolding x by (simp add: case_prod_unfold Let_def) }
qed simp_all

lemma update_found:
  assumes "map_of xs k = Some v"
  obtains pre post where "xs = pre @ (k, v) # post" "\<And>v'. AList.update k v' xs = pre @ (k, v') # post" "k \<notin> fst ` set pre"
proof -
  have "\<exists>pre post. xs = pre @ (k, v) # post \<and> (\<forall>v'. AList.update k v' xs = pre @ (k, v') # post) \<and> k \<notin> fst ` set pre"
    using assms
  proof (induction xs)
    case (Cons x xs)
    show ?case
    proof (cases "fst x = k")
      case True
      then show ?thesis using Cons.prems by (intro exI [of _ "[]"] exI [of _ xs]) (cases x, auto)
    next
      case False
      then obtain pre post where "xs = pre @ (k, v) # post" "\<forall>v'. AList.update k v' xs = pre @ (k, v') # post" "k \<notin> fst ` set pre"
        using Cons by (cases x) auto
      then show ?thesis using False by (intro exI [of _ "x # pre"] exI [of _ post]) (cases x, auto)
    qed
  qed simp
  then show thesis using that by blast
qed

section \<open>What a pass keeps\<close>

text \<open>Nothing changes outside the given directories.\<close>

definition same_but :: "path set \<Rightarrow> filesys \<Rightarrow> filesys \<Rightarrow> bool" where
  "same_but D fs fs' \<longleftrightarrow> fs_dirs fs' = fs_dirs fs \<and>
     (\<forall>dir x. dir \<notin> D \<longrightarrow> get_file fs' (dir @ [x]) = get_file fs (dir @ [x]) \<and> fexists fs' (dir @ [x]) = fexists fs (dir @ [x]))"

lemma same_but_refl [simp]: "same_but D fs fs"
  by (simp add: same_but_def)

lemma same_but_trans: "same_but D fs fs1 \<Longrightarrow> same_but E fs1 fs2 \<Longrightarrow> same_but (D \<union> E) fs fs2"
  by (simp add: same_but_def)

lemma part_rep_same_but:
  assumes rep: "part_rep fs P rss" and same: "same_but D fs fs'" and out: "p_dir P \<notin> D"
  shows "part_rep fs' P rss"
proof -
  have segs: "segs_rep fs (p_dir P) (unat (earliest_offset P)) (p_segments P) rss" using rep by (simp add: part_rep_def)
  have "segs_rep fs' (p_dir P) (unat (earliest_offset P)) (p_segments P) rss"
    by (rule segs_rep_get_file_cong [OF segs])
       (use segs_rep_distinct(2) [OF segs] same out in \<open>simp add: same_but_def seg_paths\<close>)
  then show ?thesis using rep same out by (simp add: part_rep_def dir_ready_def only_files_def same_but_def)
qed

text \<open>A partition after a pass: a suffix of its log, with the same next offset.\<close>

definition kept :: "filesys \<Rightarrow> (Partition \<Rightarrow> Record list list) \<Rightarrow> Partition \<Rightarrow> Partition \<Rightarrow> bool" where
  "kept fs' log P P' \<longleftrightarrow> p_dir P' = p_dir P \<and> p_next_offset P' = p_next_offset P \<and>
     last (p_segments P') = last (p_segments P) \<and> (\<exists>k < length (log P). part_rep fs' P' (drop k (log P)))"

lemma kept_same_but: "kept fs log P P' \<Longrightarrow> same_but D fs fs' \<Longrightarrow> p_dir P \<notin> D \<Longrightarrow> kept fs' log P P'"
  by (simp add: kept_def) (metis part_rep_same_but)

lemma kept_unchanged: "part_rep fs P (log P) \<Longrightarrow> kept fs log P P"
  using part_rep_nonempty [of fs P "log P"] by (auto simp: kept_def intro!: exI [of _ 0])

definition seg_count :: "Partition list \<Rightarrow> nat" where
  "seg_count ps = sum_list (map (length \<circ> p_segments) ps)"

lemma seg_count_simps [simp]:
  "seg_count [] = 0" "seg_count (P # ps) = length (p_segments P) + seg_count ps" "seg_count (ps @ qs) = seg_count ps + seg_count qs"
  by (simp_all add: seg_count_def)

lemma scan_segments_kept:
  assumes w: "reliable w" and rep: "part_rep fs P (log P)"
    and del: "scan_and_delete_segments w now fs P ms rb False [] = (st, cands, P', fs')"
  shows "st = Status_OK" "kept fs' log P P'" "same_but {p_dir P} fs fs'"
    "length (p_segments P) = length (p_segments P') + length cands"
proof -
  define n where "n = (if length (p_segments P) \<le> 1 then 0 else deletable_count now ms rb P)"
  note r = scan_and_delete_rep [OF w rep del, folded n_def]
  have segs: "segs_rep fs (p_dir P) (unat (earliest_offset P)) (p_segments P) (log P)" using rep by (simp add: part_rep_def)
  show "st = Status_OK" by (rule r(1))
  show "kept fs' log P P'" using r(2-4) segs_rep_length [OF segs] by (auto simp: kept_def)
  have c: "cands = map candidate (take n (p_segments P))" "fs' = foldl (remove_candidate w) fs (map candidate (take n (p_segments P)))"
    using del by (auto simp: scan_and_delete_segments_def n_def Let_def split: if_splits)
  then show "length (p_segments P) = length (p_segments P') + length cands" using r(2,3) by simp
  have "dir @ [x] \<notin> seg_files s" if "s \<in> set (take n (p_segments P))" "dir \<noteq> p_dir P" for dir x s
    using segs_rep_distinct(2) [OF segs] in_set_takeD [OF that(1)] that(2) by (auto simp: seg_files_def seg_paths)
  then show "same_but {p_dir P} fs fs'"
    using remove_candidates_sel [OF w, where fs = fs and ss = "take n (p_segments P)"] c(2) by (auto simp: same_but_def)
qed

lemma scan_partitions_kept:
  assumes w: "reliable w"
  shows "scan_partitions w clock False ms rb p ps fs = (n, ps', fs') \<Longrightarrow> distinct (map p_dir ps) \<Longrightarrow>
    \<forall>P \<in> set ps. part_rep fs P (log P) \<Longrightarrow>
    list_all2 (kept fs' log) ps ps' \<and> same_but (p_dir ` set ps) fs fs' \<and> seg_count ps = seg_count ps' + n"
proof (induction ps arbitrary: p fs n ps')
  case (Cons P ps)
  obtain st c P1 fs1 where e: "scan_and_delete_segments w (clock p) fs P ms rb False [] = (st, c, P1, fs1)" by (metis prod_cases4)
  have rep: "part_rep fs P (log P)" using Cons.prems(3) by simp
  note k = scan_segments_kept [where log = log, OF w rep e]
  obtain m ps1 fs2 where e2: "scan_partitions w clock False ms rb (Suc p) ps fs1 = (m, ps1, fs2)" by (metis prod_cases3)
  have eq: "n = length c + m" "ps' = P1 # ps1" "fs' = fs2" using Cons.prems(1) e e2 k(1) by auto
  have "\<forall>Q \<in> set ps. part_rep fs1 Q (log Q)"
  proof
    fix Q
    assume Q: "Q \<in> set ps"
    then have "p_dir Q \<noteq> p_dir P" using Cons.prems(2) by (auto simp: image_iff)
    then show "part_rep fs1 Q (log Q)" using part_rep_same_but [OF _ k(3)] Q Cons.prems(3) by simp
  qed
  then have ih: "list_all2 (kept fs' log) ps ps1 \<and> same_but (p_dir ` set ps) fs1 fs' \<and> seg_count ps = seg_count ps1 + m"
    using Cons.IH [OF e2 [folded eq(3)]] Cons.prems(2) by simp
  then have "kept fs' log P P1" using kept_same_but [OF k(2), of "p_dir ` set ps" fs'] Cons.prems(2) by simp
  moreover have "same_but (p_dir ` set (P # ps)) fs fs'" using same_but_trans [OF k(3)] ih by fastforce
  ultimately show ?case using ih k(4) eq by simp
qed simp

lemma list_all2_kept_refl: "\<forall>P \<in> set ps. part_rep fs P (log P) \<Longrightarrow> list_all2 (kept fs log) ps ps"
  by (rule list.rel_refl_strong) (simp add: kept_unchanged)

lemma same_but_mono: "same_but D fs fs' \<Longrightarrow> D \<subseteq> E \<Longrightarrow> same_but E fs fs'"
  by (auto simp: same_but_def)

lemma list_all2_kept_same_but:
  "list_all2 (kept fs log) ps ps' \<Longrightarrow> same_but D fs fs' \<Longrightarrow> p_dir ` set ps \<inter> D = {} \<Longrightarrow> list_all2 (kept fs' log) ps ps'"
  by (induction rule: list_all2_induct) (auto intro: kept_same_but)

lemma scan_topic_kept:
  assumes w: "reliable w" and e: "scan_topic w clock False t fs = (n, t', fs')"
    and d: "distinct (map p_dir (tc_partitions t))" and rep: "\<forall>P \<in> set (tc_partitions t). part_rep fs P (log P)"
  shows "list_all2 (kept fs' log) (tc_partitions t) (tc_partitions t')" "same_but (p_dir ` set (tc_partitions t)) fs fs'"
    "seg_count (tc_partitions t) = seg_count (tc_partitions t') + n"
    "is_reserved (tc_name t) \<or> tc_retention_ms t = 0 \<and> tc_retention_bytes t = 0 \<Longrightarrow> t' = t"
proof -
  obtain m ps fs1 where s: "scan_partitions w (clock (tc_name t)) False (tc_retention_ms t) (tc_retention_bytes t) 0 (tc_partitions t) fs = (m, ps, fs1)"
    by (metis prod_cases3)
  note k = scan_partitions_kept [OF w s d rep]
  show "list_all2 (kept fs' log) (tc_partitions t) (tc_partitions t')" "same_but (p_dir ` set (tc_partitions t)) fs fs'"
    "seg_count (tc_partitions t) = seg_count (tc_partitions t') + n"
    "is_reserved (tc_name t) \<or> tc_retention_ms t = 0 \<and> tc_retention_bytes t = 0 \<Longrightarrow> t' = t"
    using e s k list_all2_kept_refl [OF rep] by (auto simp: scan_topic_def Let_def split: if_splits)
qed

abbreviation parts_of :: "(string \<times> Topic) list \<Rightarrow> Partition list" where
  "parts_of ts \<equiv> concat (map (\<lambda>x. tc_partitions (snd x)) ts)"

lemma scan_topics_kept:
  assumes w: "reliable w"
  shows "scan_topics w clock False ts fs = (n, ts', fs') \<Longrightarrow> distinct (map p_dir (parts_of ts)) \<Longrightarrow>
    \<forall>P \<in> set (parts_of ts). part_rep fs P (log P) \<Longrightarrow>
    list_all2 (kept fs' log) (parts_of ts) (parts_of ts') \<and> same_but (p_dir ` set (parts_of ts)) fs fs' \<and>
    seg_count (parts_of ts) = seg_count (parts_of ts') + n \<and>
    (\<forall>name t. map_of ts name = Some t \<longrightarrow> is_reserved (tc_name t) \<longrightarrow> map_of ts' name = Some t)"
proof (induction ts arbitrary: fs n ts')
  case (Cons x ts)
  obtain name t where x: "x = (name, t)" by (cases x)
  obtain m t1 fs1 where e: "scan_topic w clock False t fs = (m, t1, fs1)" by (metis prod_cases3)
  have d: "distinct (map p_dir (tc_partitions t))" "distinct (map p_dir (parts_of ts))"
      "p_dir ` set (tc_partitions t) \<inter> p_dir ` set (parts_of ts) = {}"
    and rep: "\<forall>P \<in> set (tc_partitions t). part_rep fs P (log P)" "\<forall>P \<in> set (parts_of ts). part_rep fs P (log P)"
    using Cons.prems(2,3) by (auto simp: x)
  note k = scan_topic_kept [OF w e d(1) rep(1)]
  obtain m2 ts2 fs2 where e2: "scan_topics w clock False ts fs1 = (m2, ts2, fs2)" by (metis prod_cases3)
  have eq: "n = m + m2" "ts' = (name, t1) # ts2" "fs2 = fs'" using Cons.prems(1) e e2 by (auto simp: x)
  have "\<forall>P \<in> set (parts_of ts). part_rep fs1 P (log P)"
    using rep(2) d(3) by (blast intro: part_rep_same_but [OF _ k(2)])
  note ih = Cons.IH [OF e2 [unfolded eq(3)] d(2) this]
  have "list_all2 (kept fs' log) (tc_partitions t) (tc_partitions t1)"
    using list_all2_kept_same_but [OF k(1), of "p_dir ` set (parts_of ts)" fs'] ih d(3) by simp
  moreover have "same_but (p_dir ` set (parts_of (x # ts))) fs fs'"
    using same_but_trans [OF k(2), of "p_dir ` set (parts_of ts)" fs'] ih by (simp add: x image_Un)
  ultimately show ?case using ih k(3,4) eq by (simp add: x list_all2_appendI)
qed simp


section \<open>Properties\<close>

text \<open>
  C35. A dry run of a retention pass changes neither the topics nor the file system, and the number it
  reports is the number of segments that the real pass with the same clock deletes.
\<close>

theorem dry_run_predicts_pass:
  "snd (run_one_pass w clock True specific tm fs) = (tm, fs) \<and>
   fst (run_one_pass w clock True specific tm fs) = fst (run_one_pass w clock False specific tm fs)"
proof (cases "specific = []")
  case True
  then show ?thesis using scan_topics_dry(1) [of w clock False "tm_topics tm" fs fs] scan_topics_dry(2) [of w clock "tm_topics tm" fs]
    by (simp add: run_one_pass_def case_prod_unfold Let_def)
next
  case False
  show ?thesis
  proof (cases "get_topic tm specific")
    case (Some t)
    then have "AList.update specific t (tm_topics tm) = tm_topics tm"
      by (auto simp: get_topic_def elim: update_found)
    then show ?thesis using False Some scan_topic_dry(1) [of w clock False t fs fs] scan_topic_dry(2) [of w clock t fs]
      by (simp add: run_one_pass_def put_topic_def case_prod_unfold Let_def)
  qed (simp add: run_one_pass_def False)
qed

lemma run_topic_kept:
  assumes w: "reliable w" and d: "distinct (map p_dir (parts_of (tm_topics tm)))"
    and rep: "\<forall>P \<in> set (parts_of (tm_topics tm)). part_rep fs P (log P)"
    and t: "get_topic tm name = Some t" and e: "scan_topic w clock False t fs = (n, t', fs')"
  shows "list_all2 (kept fs' log) (parts_of (tm_topics tm)) (parts_of (tm_topics (put_topic tm name t')))"
    "seg_count (parts_of (tm_topics tm)) = seg_count (parts_of (tm_topics (put_topic tm name t'))) + n"
proof -
  obtain pre post where u: "tm_topics tm = pre @ (name, t) # post" "AList.update name t' (tm_topics tm) = pre @ (name, t') # post"
    using update_found [of "tm_topics tm" name t] t by (metis get_topic_def)
  then have u': "tm_topics (put_topic tm name t') = pre @ (name, t') # post" by (simp add: put_topic_def)
  have dd: "distinct (map p_dir (tc_partitions t))" "p_dir ` set (parts_of pre) \<inter> p_dir ` set (tc_partitions t) = {}"
      "p_dir ` set (parts_of post) \<inter> p_dir ` set (tc_partitions t) = {}"
    and rr: "\<forall>P \<in> set (tc_partitions t). part_rep fs P (log P)" "\<forall>P \<in> set (parts_of pre). part_rep fs P (log P)"
      "\<forall>P \<in> set (parts_of post). part_rep fs P (log P)"
    using d rep by (simp_all add: u(1) Int_Un_distrib Int_commute)
  note k = scan_topic_kept [OF w e dd(1) rr(1)]
  note o = list_all2_kept_same_but [OF list_all2_kept_refl k(2)]
  show "list_all2 (kept fs' log) (parts_of (tm_topics tm)) (parts_of (tm_topics (put_topic tm name t')))"
    using o [OF rr(2) dd(2)] o [OF rr(3) dd(3)] k(1) by (simp add: u(1) u' list_all2_appendI)
  show "seg_count (parts_of (tm_topics tm)) = seg_count (parts_of (tm_topics (put_topic tm name t'))) + n"
    using k(3) by (simp add: u(1) u')
qed

text \<open>
  C34. A retention pass over a broker whose partitions lie in different directories keeps every log:
  each partition afterwards represents a suffix of its log at the old offsets, with the same
  next offset and the same active segment; the number reported is the number of segments that
  are gone; and internal topics (\<^verbatim>\<open>__\<close>) are not touched.
\<close>

theorem retention_pass_keeps_logs:
  assumes "reliable w" "distinct (map p_dir (parts_of (tm_topics tm)))"
    and "\<forall>P \<in> set (parts_of (tm_topics tm)). part_rep fs P (log P)"
  shows "case run_one_pass w clock False specific tm fs of (n, tm', fs') \<Rightarrow>
    list_all2 (\<lambda>P P'. p_next_offset P' = p_next_offset P \<and> last (p_segments P') = last (p_segments P) \<and>
        (\<exists>k < length (log P). part_rep fs' P' (drop k (log P))))
      (parts_of (tm_topics tm)) (parts_of (tm_topics tm')) \<and>
    n = seg_count (parts_of (tm_topics tm)) - seg_count (parts_of (tm_topics tm')) \<and>
    (\<forall>name t. get_topic tm name = Some t \<and> is_reserved (tc_name t) \<longrightarrow> get_topic tm' name = Some t)"
proof -
  obtain n tm' fs' where e: "run_one_pass w clock False specific tm fs = (n, tm', fs')" by (metis prod_cases3)
  have "list_all2 (kept fs' log) (parts_of (tm_topics tm)) (parts_of (tm_topics tm')) \<and>
    seg_count (parts_of (tm_topics tm)) = seg_count (parts_of (tm_topics tm')) + n \<and>
    (\<forall>name t. get_topic tm name = Some t \<and> is_reserved (tc_name t) \<longrightarrow> get_topic tm' name = Some t)"
  proof (cases "specific = []")
    case True
    then obtain ts where s: "scan_topics w clock False (tm_topics tm) fs = (n, ts, fs')" "tm' = tm\<lparr> tm_topics := ts \<rparr>"
      using e by (auto simp: run_one_pass_def split: prod.splits)
    then show ?thesis using scan_topics_kept [OF assms(1) s(1) assms(2,3)] by (simp add: get_topic_def)
  next
    case False
    show ?thesis
    proof (cases "get_topic tm specific")
      case None
      then show ?thesis using e False list_all2_kept_refl [OF assms(3)] by (auto simp: run_one_pass_def)
    next
      case (Some t)
      then obtain t' where s: "scan_topic w clock False t fs = (n, t', fs')" "tm' = put_topic tm specific t'"
        using e False by (auto simp: run_one_pass_def split: prod.splits)
      have "is_reserved (tc_name t) \<Longrightarrow> t' = t" using s(1) by (simp add: scan_topic_def)
      then show ?thesis using run_topic_kept [OF assms Some s(1)] s(2) Some by (auto simp: put_topic_def get_topic_def update_conv)
    qed
  qed
  then show ?thesis by (auto simp: e kept_def elim!: list_all2_mono)
qed

definition sample_retention_tm :: TopicManager where
  "sample_retention_tm = \<lparr> tm_config = default_StorageConfig,
     tm_topics = [(''t'', (make_Topic ''t'' 0 [''data'', ''t''] default_StorageConfig 10 0)\<lparr> tc_partitions := [sample_part] \<rparr>)] \<rparr>"

theorem retention_pass_keeps_logs_witness:
  "case run_one_pass ideal_os (\<lambda>_ _. 1000) False [] sample_retention_tm (sample_fs []) of (n, tm', fs') \<Rightarrow>
    n = 0 \<and> list_all2 (\<lambda>P P'. p_next_offset P' = p_next_offset P \<and> part_rep fs' P' [[]])
      [sample_part] (parts_of (tm_topics tm'))"
proof -
  have p: "parts_of (tm_topics sample_retention_tm) = [sample_part]" by (simp add: sample_retention_tm_def)
  have a: "distinct (map p_dir (parts_of (tm_topics sample_retention_tm)))"
      "\<forall>P \<in> set (parts_of (tm_topics sample_retention_tm)). part_rep (sample_fs []) P [[]]"
    using sample_part_rep by (simp_all add: p)
  have n: "fst (run_one_pass ideal_os (\<lambda>_ _. 1000) False [] sample_retention_tm (sample_fs [])) = 0"
    by (simp add: run_one_pass_def sample_retention_tm_def scan_topic_def is_reserved_def make_Topic_def
        scan_and_delete_segments_def sample_part_def Let_def)
  show ?thesis
    using retention_pass_keeps_logs [OF reliable_ideal_os a, where clock = "\<lambda>_ _. 1000" and specific = "[]"] n
    by (auto simp: p split: prod.splits elim!: list_all2_mono)
qed

end
