(* ===== verification/Socket.thy ===== *)
theory Socket
  imports FrameAssembler
begin

text \<open>
  \<^verbatim>\<open>src/src/Socket.cpp\<close>: the owner of a socket handle, and the two loops that read and write an exact
  number of bytes on a blocking socket. What the operating system answers is an argument: for
  \<^verbatim>\<open>recv\<close> and \<^verbatim>\<open>send\<close> the list of what happens on the connection, where the end of the list is a call
  that does not return (\<open>None\<close>).
\<close>

section \<open>The handle\<close>

type_synonym SOCKET = u64

definition INVALID_SOCKET :: SOCKET where
  "INVALID_SOCKET = - 1"

text \<open>\<^verbatim>\<open>m_sock\<close>, with the list of the handles given to \<^verbatim>\<open>closesocket\<close> so far passed along.\<close>

record Socket =
  m_sock :: SOCKET

definition make_Socket :: "SOCKET \<Rightarrow> Socket" where
  "make_Socket s = \<lparr> m_sock = s \<rparr>"

definition default_Socket :: Socket where
  "default_Socket = make_Socket INVALID_SOCKET"

definition is_valid :: "Socket \<Rightarrow> bool" where
  "is_valid s \<longleftrightarrow> m_sock s \<noteq> INVALID_SOCKET"

definition sock_close :: "Socket \<Rightarrow> SOCKET list \<Rightarrow> Socket \<times> SOCKET list" where
  "sock_close s closed =
     (if m_sock s \<noteq> INVALID_SOCKET then (s\<lparr> m_sock := INVALID_SOCKET \<rparr>, closed @ [m_sock s]) else (s, closed))"

definition sock_release :: "Socket \<Rightarrow> SOCKET \<times> Socket" where
  "sock_release s = (m_sock s, s\<lparr> m_sock := INVALID_SOCKET \<rparr>)"

text \<open>The move constructor: the new object and the one moved from.\<close>

definition sock_move :: "Socket \<Rightarrow> Socket \<times> Socket" where
  "sock_move other = (make_Socket (m_sock other), other\<lparr> m_sock := INVALID_SOCKET \<rparr>)"

text \<open>The move assignment between different objects (to itself it does nothing).\<close>

definition sock_assign :: "Socket \<Rightarrow> Socket \<Rightarrow> SOCKET list \<Rightarrow> Socket \<times> Socket \<times> SOCKET list" where
  "sock_assign s other closed =
     (let (s1, closed1) = sock_close s closed
      in (s1\<lparr> m_sock := m_sock other \<rparr>, other\<lparr> m_sock := INVALID_SOCKET \<rparr>, closed1))"

text \<open>The listener. The answers are the handle, whether the address is valid, and the error codes of \<^verbatim>\<open>bind\<close>
  and \<^verbatim>\<open>listen\<close> (\<open>None\<close>: success); \<open>err\<close> is the code after a failed \<^verbatim>\<open>socket\<close>. An exception is its message.\<close>

definition create_listener ::
  "SOCKET \<times> nat \<Rightarrow> (string \<Rightarrow> bool) \<Rightarrow> nat option \<Rightarrow> nat option \<Rightarrow> string \<Rightarrow> u16 \<Rightarrow> SOCKET list \<Rightarrow> (string + Socket) \<times> SOCKET list" where
  "create_listener made inet_ok bind_err listen_err host port closed =
     (let (s, err) = made
      in if s = INVALID_SOCKET then (Inl (''Failed to create TCP socket. Error: '' @ to_string err), closed)
      else if \<not> inet_ok host then (Inl (''Invalid IP address: '' @ host), closed @ [s])
      else case bind_err of
        Some e \<Rightarrow> (Inl (''Bind failed on '' @ host @ '':'' @ to_string (unat port) @ ''. Error: '' @ to_string e), closed @ [s])
      | None \<Rightarrow> (case listen_err of
          Some e \<Rightarrow> (Inl (''Listen failed. Error: '' @ to_string e), closed @ [s])
        | None \<Rightarrow> (Inr (make_Socket s), closed)))"

section \<open>Exact reads and writes\<close>

datatype RecvResult = RecvSuccess | RecvDisconnected | RecvFailure

datatype SendResult = SendSuccess | SendDisconnected | SendFailure

text \<open>
  Bytes that have arrived (a call takes as many as it asks for), the end of the stream, a call interrupted
  (\<^verbatim>\<open>WSAEINTR\<close>), another error.
\<close>

datatype recv_event = Arrived bytes | Eof | RecvInterrupted | RecvBroken

fun recv_exact :: "recv_event list \<Rightarrow> nat \<Rightarrow> (RecvResult \<times> bytes \<times> recv_event list) option" where
  "recv_exact evs 0 = Some (RecvSuccess, [], evs)"
| "recv_exact [] (Suc n) = None"
| "recv_exact (Eof # evs) (Suc n) = Some (RecvDisconnected, [], Eof # evs)"
| "recv_exact (RecvInterrupted # evs) (Suc n) = recv_exact evs (Suc n)"
| "recv_exact (RecvBroken # evs) (Suc n) = Some (RecvFailure, [], evs)"
| "recv_exact (Arrived bs # evs) (Suc n) =
     (if length bs > Suc n then Some (RecvSuccess, take (Suc n) bs, Arrived (drop (Suc n) bs) # evs)
      else map_option (\<lambda>(res, got, rest). (res, bs @ got, rest)) (recv_exact evs (Suc n - length bs)))"

text \<open>
  A call of \<^verbatim>\<open>send\<close> that takes up to the given number of bytes and one more, or none: with whether it
  returned 0 and whether the last error is \<^verbatim>\<open>WSAEINTR\<close>. The bytes taken are part of the result.
\<close>

datatype send_event = Took nat | NotTaken bool bool

fun send_all :: "send_event list \<Rightarrow> bytes \<Rightarrow> (SendResult \<times> bytes \<times> send_event list) option" where
  "send_all evs [] = Some (SendSuccess, [], evs)"
| "send_all [] (b # bs) = None"
| "send_all (NotTaken zero eintr # evs) (b # bs) =
     (if eintr then send_all evs (b # bs)
      else if zero then Some (SendDisconnected, [], evs) else Some (SendFailure, [], evs))"
| "send_all (Took n # evs) (b # bs) =
     map_option (\<lambda>(res, sent, rest). (res, b # take n bs @ sent, rest)) (send_all evs (drop n bs))"

section \<open>Laws\<close>

text \<open>A handle is closed once: closing again and destroying a moved-from object do nothing.\<close>

lemma sock_close_twice: "sock_close s closed = (s1, c1) \<Longrightarrow> sock_close s1 c1 = (s1, c1) \<and> \<not> is_valid s1"
  by (auto simp: sock_close_def is_valid_def split: if_splits)

lemma sock_moved_from: "sock_move s = (t, s1) \<Longrightarrow> m_sock t = m_sock s \<and> sock_close s1 closed = (s1, closed)"
  by (auto simp: sock_move_def sock_close_def make_Socket_def)

lemma sock_assign_owns:
  "sock_assign s other closed = (s1, other1, c1) \<Longrightarrow>
    m_sock s1 = m_sock other \<and> \<not> is_valid other1 \<and> c1 = closed @ (if is_valid s then [m_sock s] else [])"
  by (auto simp: sock_assign_def sock_close_def is_valid_def split: if_splits)

text \<open>A failed listener leaves no handle open.\<close>

lemma create_listener_closes:
  "create_listener (s, err) inet_ok be le host port closed = (res, closed1) \<Longrightarrow> s \<noteq> INVALID_SOCKET \<Longrightarrow>
    (case res of Inl _ \<Rightarrow> closed1 = closed @ [s] | Inr l \<Rightarrow> closed1 = closed \<and> m_sock l = s \<and> is_valid l)"
  by (auto simp: create_listener_def make_Socket_def is_valid_def split: if_splits option.splits)

text \<open>The bytes that can be read before the stream ends.\<close>

fun stream :: "recv_event list \<Rightarrow> bytes" where
  "stream [] = []"
| "stream (Arrived bs # evs) = bs @ stream evs"
| "stream (RecvInterrupted # evs) = stream evs"
| "stream (Eof # evs) = []"
| "stream (RecvBroken # evs) = []"

lemma recv_exact_enough:
  "n \<le> length (stream evs) \<Longrightarrow> \<exists>rest. recv_exact evs n = Some (RecvSuccess, take n (stream evs), rest) \<and> stream rest = drop n (stream evs)"
proof (induction evs n rule: recv_exact.induct)
  case (6 bs evs n)
  show ?case
  proof (cases "length bs > Suc n")
    case False
    have "Suc n - length bs \<le> length (stream evs)" using "6.prems" by (simp only: stream.simps length_append)
    then obtain rest where "recv_exact evs (Suc n - length bs) = Some (RecvSuccess, take (Suc n - length bs) (stream evs), rest)"
        "stream rest = drop (Suc n - length bs) (stream evs)" using "6.IH" [OF False] by blast
    then show ?thesis using False by simp
  qed simp
qed simp_all

lemma recv_exact_short:
  "length (stream evs) < n \<Longrightarrow> recv_exact evs n = Some (res, got, rest) \<Longrightarrow> res \<noteq> RecvSuccess"
proof (induction evs n arbitrary: got rule: recv_exact.induct)
  case (6 bs evs n)
  have lt: "\<not> length bs > Suc n" "length (stream evs) < Suc n - length bs"
    using "6.prems"(1) by (simp_all only: stream.simps length_append)
  then obtain g where "recv_exact evs (Suc n - length bs) = Some (res, g, rest)" using "6.prems"(2) by auto
  then show ?case using "6.IH" lt by blast
qed auto

lemma recv_exact_Success:
  assumes "recv_exact evs n = Some (RecvSuccess, got, rest)"
  shows "n \<le> length (stream evs)" "got = take n (stream evs)" "stream rest = drop n (stream evs)"
proof -
  show n: "n \<le> length (stream evs)" using recv_exact_short [of evs n] assms by fastforce
  show "got = take n (stream evs)" "stream rest = drop n (stream evs)" using recv_exact_enough [OF n] assms by auto
qed

lemma recv_exact_not_Success:
  "recv_exact evs n = Some (res, got, rest) \<Longrightarrow> res \<noteq> RecvSuccess \<Longrightarrow> length (stream evs) < n"
  "recv_exact evs n = None \<Longrightarrow> length (stream evs) < n"
  using recv_exact_enough [of n evs] by fastforce+

lemma send_all_sent:
  "send_all evs data = Some (res, sent, rest) \<Longrightarrow> \<exists>unsent. data = sent @ unsent \<and> (res = SendSuccess \<longleftrightarrow> unsent = [])"
proof (induction evs data arbitrary: sent rule: send_all.induct)
  case (4 n evs b bs)
  then obtain s1 where s1: "send_all evs (drop n bs) = Some (res, s1, rest)" "sent = b # take n bs @ s1" by auto
  then obtain unsent where "drop n bs = s1 @ unsent" "res = SendSuccess \<longleftrightarrow> unsent = []" using "4.IH" [OF s1(1)] by blast
  then show ?case using s1(2) by (metis append_Cons append_assoc append_take_drop_id)
qed (auto split: if_splits)

end
