(* ===== verification/Connection.thy ===== *)
theory Connection
  imports Socket BrokerLaws "HOL-Library.Sublist"
begin

text \<open>
  \<^verbatim>\<open>src/src/Connection.cpp\<close>: the blocking loop that serves one client in its own thread. It reads a
  frame with two exact reads, has it handled and writes the reply. The readings of the shutdown
  flag and what a request sees of its surroundings are arguments, one for each turn of the loop.
  It handles the same frames as the assembler of the event loop would cut from the stream.
\<close>

section \<open>The loop\<close>

record Connection =
  cn_socket :: "Socket option"
  cn_peer_ip :: string
  cn_peer_port :: u16

definition peer_address_string :: "Connection \<Rightarrow> string" where
  "peer_address_string cn = cn_peer_ip cn @ '':'' @ to_string (unat (cn_peer_port cn))"

text \<open>Why the loop is at an end, or where it waits.\<close>

datatype conn_end = ShutdownSeen | Disconnected | ReadFailed | Malformed | TooLarge | SendFailed
  | WaitsForInput | WaitsForOutput | Faulted

definition conn_read :: "recv_event list \<Rightarrow> conn_end + Frame \<times> recv_event list" where
  "conn_read evs =
     (case recv_exact evs 4 of
        None \<Rightarrow> Inl WaitsForInput
      | Some (RecvDisconnected, _, _) \<Rightarrow> Inl Disconnected
      | Some (RecvFailure, _, _) \<Rightarrow> Inl ReadFailed
      | Some (RecvSuccess, length_buf, evs1) \<Rightarrow>
          (let len = fc_read_u32 length_buf
           in if len < HEADER_SIZE then Inl Malformed
           else if len > MAX_FRAME_LENGTH then Inl TooLarge
           else case recv_exact evs1 (unat len) of
              None \<Rightarrow> Inl WaitsForInput
            | Some (res, payload, evs2) \<Rightarrow>
                if res \<noteq> RecvSuccess then Inl Disconnected
                else Inr (\<lparr> fr_length = len, fr_type = payload ! 0, fr_request_id = fc_read_u32 (drop 1 payload),
                            fr_body = (if len > HEADER_SIZE then drop (unat HEADER_SIZE) payload else []) \<rparr>, evs2)))"

definition length_error :: "conn_end \<Rightarrow> Frame option" where
  "length_error e =
     (if e = Malformed then Some (create_error_frame 0 MALFORMED_FRAME ''Malformed frame: length less than header size'')
      else if e = TooLarge then Some (create_error_frame 0 FRAME_TOO_LARGE ''Frame size exceeds maximum limit of 1 MiB'')
      else None)"

text \<open>The end of the loop after a read that gave no frame: an error reply where the length is bad.\<close>

definition conn_finish :: "conn_end \<Rightarrow> send_event list \<Rightarrow> conn_end \<times> bytes" where
  "conn_finish e out =
     (case length_error e of
        None \<Rightarrow> (e, [])
      | Some err_frame \<Rightarrow>
          (case frame_encode err_frame of
             None \<Rightarrow> (Faulted, [])
           | Some encoded_err \<Rightarrow> (case send_all out encoded_err of None \<Rightarrow> (WaitsForOutput, []) | Some (_, sent, _) \<Rightarrow> (e, sent))))"

text \<open>Where a call of \<^verbatim>\<open>send\<close> does not return, the bytes taken before it are left out.\<close>

lemma fc_read_u32_take_ge: "4 \<le> k \<Longrightarrow> 4 \<le> length d \<Longrightarrow> fc_read_u32 (take k d) = fc_read_u32 d"
  using fc_read_u32_take [of "take k d" "drop k d"] by simp

text \<open>A read is the extraction of a frame from the bytes of the stream.\<close>

lemma conn_read_frame:
  assumes d: "d = stream evs" and len: "4 \<le> length d" "\<not> fc_read_u32 d < HEADER_SIZE" "\<not> fc_read_u32 d > MAX_FRAME_LENGTH"
    and all: "4 + unat (fc_read_u32 d) \<le> length d"
  shows "\<exists>f evs2. conn_read evs = Inr (f, evs2) \<and> next_frame d = (FrameReady, Some f, 4 + unat (fc_read_u32 d)) \<and>
    stream evs2 = drop (4 + unat (fc_read_u32 d)) d"
proof -
  let ?l = "unat (fc_read_u32 d)"
  obtain evs1 where r1: "recv_exact evs 4 = Some (RecvSuccess, take 4 d, evs1)" "stream evs1 = drop 4 d"
    using recv_exact_enough [of 4 evs] d len(1) by auto
  have "?l \<le> length (stream evs1)" using r1(2) all by (simp only: length_drop)
  then obtain evs2 where r2: "recv_exact evs1 ?l = Some (RecvSuccess, take ?l (drop 4 d), evs2)" "stream evs2 = drop ?l (drop 4 d)"
    using recv_exact_enough [of ?l evs1] r1(2) by auto
  have h: "HEADER_SIZE = 5" "MAX_FRAME_LENGTH = 1048576" by (simp_all add: HEADER_SIZE_def MAX_FRAME_LENGTH_def)
  have l: "5 \<le> ?l" "?l \<le> 1048576" using len by (simp_all add: h word_less_nat_alt)
  have t: "take ?l (drop 4 d) ! 0 = d ! 4" "fc_read_u32 (drop 1 (take ?l (drop 4 d))) = fc_read_u32 (drop 5 d)"
      "drop 5 (take ?l (drop 4 d)) = take (?l - 5) (drop 9 d)"
    using l all fc_read_u32_take_ge [of "?l - 1" "drop 5 d"] by (simp_all add: drop_take)
  have b: "(if fc_read_u32 d > HEADER_SIZE then drop (unat HEADER_SIZE) (take ?l (drop 4 d)) else []) = take (?l - 5) (drop 9 d)"
    using t(3) l by (auto simp: h word_less_nat_alt)
  have "conn_read evs = Inr (\<lparr> fr_length = fc_read_u32 d, fr_type = d ! 4, fr_request_id = fc_read_u32 (drop 5 d), fr_body = take (?l - 5) (drop 9 d) \<rparr>, evs2)"
    unfolding conn_read_def r1(1) using len r2(1) t(1,2) b by (simp add: fc_read_u32_take_ge Let_def)
  moreover have "next_frame d = (FrameReady,
      Some \<lparr> fr_length = fc_read_u32 d, fr_type = d ! 4, fr_request_id = fc_read_u32 (drop 5 d), fr_body = take (?l - 5) (drop 9 d) \<rparr>, 4 + ?l)"
    using l all len(1) by (simp add: next_frame_def Let_def)
  ultimately show ?thesis using r2(2) by (simp add: add.commute)
qed

lemma conn_read_no_frame:
  assumes d: "d = stream evs"
    and "length d < 4 \<or> fc_read_u32 d < HEADER_SIZE \<or> fc_read_u32 d > MAX_FRAME_LENGTH \<or> length d < 4 + unat (fc_read_u32 d)"
  shows "\<exists>e res. conn_read evs = Inl e \<and> next_frame d = (res, None, 0) \<and> res \<noteq> FrameReady \<and>
    (e = Malformed \<longleftrightarrow> res = ErrorLengthTooSmall) \<and> (e = TooLarge \<longleftrightarrow> res = ErrorLengthTooLarge) \<and>
    e \<in> {Disconnected, ReadFailed, Malformed, TooLarge, WaitsForInput}"
proof (cases "length d < 4")
  case True
  then show ?thesis using recv_exact_short [of evs 4] d
    by (auto simp: conn_read_def next_frame_def split: option.splits RecvResult.splits)
next
  case False
  obtain evs1 where r1: "recv_exact evs 4 = Some (RecvSuccess, take 4 d, evs1)" "stream evs1 = drop 4 d"
    using recv_exact_enough [of 4 evs] d False by auto
  have h: "HEADER_SIZE = 5" "MAX_FRAME_LENGTH = 1048576" by (simp_all add: HEADER_SIZE_def MAX_FRAME_LENGTH_def)
  have s: "res \<noteq> RecvSuccess" if "recv_exact evs1 (unat (fc_read_u32 d)) = Some (res, got, rest)" "length d < 4 + unat (fc_read_u32 d)" for res got rest
    using recv_exact_short [OF _ that(1)] r1(2) that(2) False by auto
  show ?thesis
    using False assms(2) s unfolding conn_read_def r1(1)
    by (auto simp: Let_def fc_read_u32_take_ge next_frame_def h word_less_nat_alt split: option.splits)
qed

lemma conn_read_next_frame:
  "case conn_read evs of
     Inr (f, evs2) \<Rightarrow> \<exists>n. next_frame (stream evs) = (FrameReady, Some f, n) \<and> stream evs2 = drop n (stream evs)
   | Inl e \<Rightarrow> \<exists>res. next_frame (stream evs) = (res, None, 0) \<and> res \<noteq> FrameReady \<and>
       (e = Malformed \<longleftrightarrow> res = ErrorLengthTooSmall) \<and> (e = TooLarge \<longleftrightarrow> res = ErrorLengthTooLarge) \<and>
       e \<in> {Disconnected, ReadFailed, Malformed, TooLarge, WaitsForInput}"
  using conn_read_frame [OF refl, of evs] conn_read_no_frame [OF refl, of evs] by (fastforce simp: not_le)

lemma conn_read_decreases: "conn_read evs = Inr (f, evs2) \<Longrightarrow> length (stream evs2) < length (stream evs)"
  using conn_read_next_frame [of evs] by (cases rule: next_frame_cases [of "stream evs"]) auto

function (sequential) conn_run ::
  "(nat \<Rightarrow> bool) \<Rightarrow> (nat \<Rightarrow> Ambient) \<Rightarrow> nat \<Rightarrow> recv_event list \<Rightarrow> send_event list \<Rightarrow> Broker \<Rightarrow>
    conn_end \<times> (Frame \<times> Frame) list \<times> bytes \<times> Broker" where
  "conn_run shutdown amb i evs out b =
     (if shutdown i then (ShutdownSeen, [], [], b)
      else case conn_read evs of
        Inl e \<Rightarrow> (let (e1, sent) = conn_finish e out in (e1, [], sent, b))
      | Inr (req_frame, evs2) \<Rightarrow>
          (case handle_request (amb i) req_frame b of
             None \<Rightarrow> (Faulted, [], [], b)
           | Some (resp_frame, b1) \<Rightarrow>
               (case frame_encode resp_frame of
                  None \<Rightarrow> (Faulted, [], [], b1)
                | Some encoded_resp \<Rightarrow>
                    (case send_all out encoded_resp of
                       None \<Rightarrow> (WaitsForOutput, [(req_frame, resp_frame)], [], b1)
                     | Some (s_res, sent, out1) \<Rightarrow>
                         if s_res \<noteq> SendSuccess then (SendFailed, [(req_frame, resp_frame)], sent, b1)
                         else (case conn_run shutdown amb (Suc i) evs2 out1 b1 of
                             (e, xs, sent2, b2) \<Rightarrow> (e, (req_frame, resp_frame) # xs, sent @ sent2, b2))))))"
  by pat_completeness auto
termination
  by (relation "measure (\<lambda>(_, _, _, evs, _, _). length (stream evs))") (auto dest: conn_read_decreases [OF sym] simp: conn_read_decreases)

declare conn_run.simps [simp del]

text \<open>\<^verbatim>\<open>stop\<close>: the handles on which \<^verbatim>\<open>shutdown\<close> is called.\<close>

definition conn_stop :: "Connection \<Rightarrow> SOCKET list" where
  "conn_stop cn = (case cn_socket cn of None \<Rightarrow> [] | Some s \<Rightarrow> if m_sock s \<noteq> INVALID_SOCKET then [m_sock s] else [])"

section \<open>Laws\<close>

text \<open>The replies to the given requests, each handled on the state the one before left.\<close>

fun served :: "(nat \<Rightarrow> Ambient) \<Rightarrow> nat \<Rightarrow> (Frame \<times> Frame) list \<Rightarrow> Broker \<Rightarrow> Broker \<Rightarrow> bool" where
  "served amb i [] b b' \<longleftrightarrow> b' = b"
| "served amb i ((req, resp) # xs) b b' \<longleftrightarrow> (\<exists>b1. handle_request (amb i) req b = Some (resp, b1) \<and> served amb (Suc i) xs b1 b')"

abbreviation replies :: "(Frame \<times> Frame) list \<Rightarrow> bytes" where
  "replies xs \<equiv> concat (map (\<lambda>x. the (frame_encode (snd x))) xs)"

lemma conn_run_served:
  "conn_run shutdown amb i evs out b = (e, xs, sent, b') \<Longrightarrow> e \<noteq> Faulted \<Longrightarrow> served amb i xs b b'"
proof (induction shutdown amb i evs out b arbitrary: xs sent rule: conn_run.induct)
  case (1 shutdown amb i evs out b)
  then show ?case
    by (subst (asm) (2) conn_run.simps) (fastforce split: if_splits sum.splits option.splits prod.splits)
qed

lemma conn_finish_end:
  "conn_finish e out = (e1, sent) \<Longrightarrow> e1 \<noteq> Faulted \<Longrightarrow> e1 \<noteq> WaitsForOutput \<Longrightarrow>
    e1 = e \<and> (length_error e = None \<longrightarrow> sent = [])"
  by (auto simp: conn_finish_def split: option.splits)

text \<open>The ends at which the whole input has been read.\<close>

abbreviation input_done :: "conn_end \<Rightarrow> bool" where
  "input_done e \<equiv> e \<in> {Disconnected, ReadFailed, Malformed, TooLarge, WaitsForInput}"

definition end_matches :: "conn_end \<Rightarrow> FrameExtractResult \<Rightarrow> bool" where
  "end_matches e res \<longleftrightarrow> res = (if e = Malformed then ErrorLengthTooSmall else if e = TooLarge then ErrorLengthTooLarge else NeedMoreData)"

lemma conn_run_parse:
  "conn_run shutdown amb i evs out b = (e, xs, sent, b') \<Longrightarrow> parse (stream evs) = (fs, res, rest) \<Longrightarrow>
    prefix (map fst xs) fs \<and> (input_done e \<longrightarrow> map fst xs = fs \<and> end_matches e res)"
proof (induction shutdown amb i evs out b arbitrary: xs sent fs rule: conn_run.induct)
  case (1 shutdown amb i evs out b)
  show ?case
  proof (cases "shutdown i")
    case False
    show ?thesis
    proof (cases "conn_read evs")
      case (Inl e0)
      then obtain res0 where n: "next_frame (stream evs) = (res0, None, 0)" "res0 \<noteq> FrameReady"
          "e0 = Malformed \<longleftrightarrow> res0 = ErrorLengthTooSmall" "e0 = TooLarge \<longleftrightarrow> res0 = ErrorLengthTooLarge" "input_done e0"
        using conn_read_next_frame [of evs] by auto
      then have p: "fs = []" "res = res0" using "1.prems"(2) by (auto simp: parse.simps [of "stream evs"] split: FrameExtractResult.splits)
      have "conn_finish e0 out = (e, sent)" "xs = []" using "1.prems"(1) False Inl by (auto simp: conn_run.simps [of shutdown] split: prod.splits)
      then show ?thesis using conn_finish_end [of e0 out e sent] p n by (cases res0) (auto simp: end_matches_def)
    next
      case (Inr a)
      obtain f evs2 where a: "a = (f, evs2)" by (cases a)
      obtain n where n: "next_frame (stream evs) = (FrameReady, Some f, n)" "stream evs2 = drop n (stream evs)"
        using conn_read_next_frame [of evs] Inr a by auto
      then obtain fs2 where p: "parse (stream evs2) = (fs2, res, rest)" "fs = f # fs2"
        using "1.prems"(2) by (auto simp: parse.simps [of "stream evs"] split: prod.splits)
      note run = "1.prems"(1) [unfolded conn_run.simps [of shutdown amb i] Inr a]
      have ih: "prefix (map fst xs2) fs2 \<and> (input_done e \<longrightarrow> map fst xs2 = fs2 \<and> end_matches e res)"
        if "handle_request (amb i) f b = Some (r, b1)" "frame_encode r = Some enc" "send_all out enc = Some (SendSuccess, s1, out1)"
          "conn_run shutdown amb (Suc i) evs2 out1 b1 = (e, xs2, sent2, b')" for r b1 enc s1 out1 xs2 sent2
        using "1.IH" [OF False Inr a [symmetric] that(1) refl that(2,3) refl refl _ that(4) p(1)] by simp
      show ?thesis using run False p ih
        by (auto split: option.splits if_splits prod.splits)
    qed
  qed (use "1.prems" in \<open>simp add: conn_run.simps [of shutdown]\<close>)
qed


lemma send_all_prefix: "send_all out data = Some (res, sent, rest) \<Longrightarrow> prefix sent data"
  using send_all_sent [of out data res sent rest] by (auto simp: prefix_def)

lemma conn_run_sent:
  "conn_run shutdown amb i evs out b = (e, xs, sent, b') \<Longrightarrow> input_done e \<Longrightarrow>
    \<exists>t. sent = replies xs @ t \<and> prefix t (case length_error e of None \<Rightarrow> [] | Some err \<Rightarrow> the (frame_encode err))"
proof (induction shutdown amb i evs out b arbitrary: xs sent rule: conn_run.induct)
  case (1 shutdown amb i evs out b)
  have ns: "\<not> shutdown i" using "1.prems" by (auto simp: conn_run.simps [of shutdown] split: if_splits)
  show ?case
  proof (cases "conn_read evs")
    case (Inl e0)
    then have f: "conn_finish e0 out = (e, sent)" "xs = []" using "1.prems"(1) ns by (auto simp: conn_run.simps [of shutdown] split: prod.splits)
    then show ?thesis using "1.prems"(2)
      by (auto simp: conn_finish_def split: option.splits dest!: send_all_prefix)
  next
    case (Inr a)
    obtain f evs2 where a: "a = (f, evs2)" by (cases a)
    note run = "1.prems"(1) [unfolded conn_run.simps [of shutdown amb i] Inr a]
    then obtain r b1 enc s1 out1 xs2 sent2 where
      r: "handle_request (amb i) f b = Some (r, b1)" "frame_encode r = Some enc" "send_all out enc = Some (SendSuccess, s1, out1)"
         "conn_run shutdown amb (Suc i) evs2 out1 b1 = (e, xs2, sent2, b')" "xs = (f, r) # xs2" "sent = s1 @ sent2"
      using ns "1.prems"(2) by (auto split: option.splits if_splits prod.splits)
    have "s1 = enc" using send_all_sent [OF r(3)] by simp
    then show ?thesis
      using "1.IH" [OF ns Inr a [symmetric] r(1) refl r(2,3) refl refl _ r(4) "1.prems"(2)] r by auto
  qed
qed

section \<open>Property\<close>

text \<open>
  C36. The blocking reader and the frame assembler of the event loop agree. Whatever the pieces
  and interruptions of the stream, the requests that the loop of a connection handles are, in
  order, frames that the assembler extracts from the same bytes. Each is answered by the
  handler on the state the one before left. When the loop is at the end of its input it has handled all
  of them, it ended with an error reply exactly when the assembler reports a bad length, and what it
  sent is the encoded replies in order, with nothing after them but that error reply.
\<close>

theorem blocking_reader_agrees_with_assembler:
  assumes "conn_run shutdown amb 0 evs out b = (e, xs, sent, b')" "e \<noteq> Faulted"
    and "drain (push_bytes new_FrameAssembler (stream evs)) = (fs, res, fa)"
  shows "served amb 0 xs b b' \<and> prefix (map fst xs) fs \<and>
    (input_done e \<longrightarrow> map fst xs = fs \<and> end_matches e res \<and>
      (\<exists>t. sent = replies xs @ t \<and> prefix t (case length_error e of None \<Rightarrow> [] | Some err \<Rightarrow> the (frame_encode err))))"
proof -
  have "parse (stream evs) = (fs, res, unread fa)"
    using drain_parse [of "push_bytes new_FrameAssembler (stream evs)"] assms(3) by (auto split: prod.splits)
  then show ?thesis using conn_run_served [OF assms(1,2)] conn_run_parse [OF assms(1)] conn_run_sent [OF assms(1)] by blast
qed


theorem blocking_reader_agrees_with_assembler_witness:
  "fst (drain (push_bytes new_FrameAssembler [0, 0, 0, 5, 1, 0, 0, 0, 7])) = [\<lparr> fr_length = 5, fr_type = PING, fr_request_id = 7, fr_body = [] \<rparr>] \<and>
   fst (snd (drain (push_bytes new_FrameAssembler [0, 0, 0, 5, 1, 0, 0, 0, 7]))) = NeedMoreData"
proof -
  let ?a = "\<lambda>_ :: nat. \<lparr> am_os = ideal_os, am_now_ms = 0, am_now = 0, am_rand = 0 \<rparr>"
  let ?b = "\<lparr> bk_fs = \<lparr> fs_files = [], fs_dirs = [] \<rparr>, bk_topic_mgr = sample_tm, bk_offset_store = new_OffsetStore, bk_coordinator = None \<rparr>"
  let ?req = "\<lparr> fr_length = 5, fr_type = PING, fr_request_id = 7, fr_body = [] \<rparr>" and ?resp = "create_pong_frame 7"
  let ?evs = "[Arrived [0, 0, 0, 5, 1], RecvInterrupted, Arrived [0, 0, 0, 7], Eof]"
  have h: "handle_request (?a 0) ?req ?b = Some (?resp, ?b)" by (simp add: handle_request_def message_type_defs)
  have enc: "frame_encode ?resp = Some [0, 0, 0, 5, 0x81, 0, 0, 0, 7]"
    by (subst frame_ok_encode)
       (simp_all add: frame_ok_def frame_bytes_def create_pong_frame_def default_Frame_def HEADER_SIZE_def be32_def PONG_def)
  have w: "fc_read_u32 [0, 0, 0, 5] = 5" "fc_read_u32 [0, 0, 0, 7] = 7"
    using fc_read_be(1) [of 5 "[]"] fc_read_be(1) [of 7 "[]"] by (simp_all add: be32_def)
  have r1: "recv_exact ?evs 4 = Some (RecvSuccess, [0, 0, 0, 5], [Arrived [1], RecvInterrupted, Arrived [0, 0, 0, 7], Eof])"
    "recv_exact [Arrived [1], RecvInterrupted, Arrived [0, 0, 0, 7], Eof] 5 = Some (RecvSuccess, [1, 0, 0, 0, 7], [Eof])"
    by (simp_all add: numeral_eq_Suc)
  have r: "conn_read ?evs = Inr (?req, [Eof])"
    unfolding conn_read_def r1(1) by (simp add: w r1(2) HEADER_SIZE_def MAX_FRAME_LENGTH_def PING_def)
  have e: "conn_read [Eof] = Inl Disconnected" by (simp add: conn_read_def numeral_eq_Suc)
  have run: "conn_run (\<lambda>_. False) ?a 0 ?evs [Took 3, Took 9] ?b = (Disconnected, [(?req, ?resp)], [0, 0, 0, 5, 0x81, 0, 0, 0, 7], ?b)"
    by (subst conn_run.simps, simp add: r h [simplified] enc, subst conn_run.simps, simp add: e conn_finish_def length_error_def)
  obtain fs res fa where d: "drain (push_bytes new_FrameAssembler (stream ?evs)) = (fs, res, fa)"
    by (cases "drain (push_bytes new_FrameAssembler (stream ?evs))")
  show ?thesis using blocking_reader_agrees_with_assembler [OF run _ d] d by (simp add: end_matches_def)
qed

end
