(* ===== verification/ServerMain.thy ===== *)
theory ServerMain
  imports ServerLaws RetentionManager TopicLaws Socket
begin

text \<open>
  \<^verbatim>\<open>src/src/server_main.cpp\<close>: the command line of the server, the start of its parts in order, and the
  console handler. \<open>None\<close> is an exception outside of the \<^verbatim>\<open>try\<close> block (\<^verbatim>\<open>std::stoul\<close> of a text that is no
  number or too large), which ends the process, or undefined behaviour (\<^verbatim>\<open>atoi\<close> out of range).
\<close>

section \<open>The command line\<close>

text \<open>\<^verbatim>\<open>atoi\<close>: no digits give 0, a value outside of \<^verbatim>\<open>int\<close> is undefined.\<close>

definition atoi :: "string \<Rightarrow> i32 option" where
  "atoi str =
     (let s1 = dropWhile is_blank str;
          neg = (s1 \<noteq> [] \<and> hd s1 = CHR ''-'');
          s2 = (if s1 \<noteq> [] \<and> (hd s1 = CHR ''-'' \<or> hd s1 = CHR ''+'') then tl s1 else s1);
          v = int (digits_val 0 (takeWhile is_digit s2));
          i = (if neg then - v else v)
      in if i < - (2 ^ 31) \<or> i \<ge> 2 ^ 31 then None else Some (word_of_int i))"

record ServerOptions =
  so_host :: string
  so_port :: u16
  so_data_dir :: string
  so_segment_bytes :: u32
  so_sync_on_append :: bool
  so_log_level_str :: string
  so_workers :: nat
  so_max_connections :: nat
  so_read_stall_timeout_sec :: u32
  so_max_output_buffer_bytes :: nat
  so_group_min_session_ms :: u32
  so_group_max_session_ms :: u32
  so_reaper_interval_ms :: u32
  so_default_retention_ms :: u64
  so_default_retention_bytes :: u64
  so_retention_check_interval_ms :: u64
  so_startup_scan :: string

definition default_ServerOptions :: "nat \<Rightarrow> ServerOptions" where
  "default_ServerOptions hardware_concurrency =
     \<lparr> so_host = ''127.0.0.1'', so_port = 9092, so_data_dir = ''./data'', so_segment_bytes = DEFAULT_SEGMENT_MAX_BYTES,
        so_sync_on_append = True, so_log_level_str = ''INFO'', so_workers = max 2 hardware_concurrency, so_max_connections = 1024,
        so_read_stall_timeout_sec = 30, so_max_output_buffer_bytes = 8 * 1024 * 1024, so_group_min_session_ms = 1000,
        so_group_max_session_ms = 60000, so_reaper_interval_ms = 500, so_default_retention_ms = DEFAULT_RETENTION_MS,
        so_default_retention_bytes = DEFAULT_RETENTION_BYTES, so_retention_check_interval_ms = DEFAULT_RETENTION_CHECK_INTERVAL_MS,
        so_startup_scan = ''quick'' \<rparr>"

definition stoul_u32 :: "string \<Rightarrow> u32 option" where
  "stoul_u32 s = map_option fst (stoul s)"

text \<open>An option that takes a value; the outer \<open>None\<close>: the argument is no such option.\<close>

definition server_option :: "string \<Rightarrow> string \<Rightarrow> ServerOptions \<Rightarrow> ServerOptions option option" where
  "server_option arg val opts =
     (if arg = ''--host'' then Some (Some (opts\<lparr> so_host := val \<rparr>))
      else if arg = ''--port'' then Some (map_option (\<lambda>v. opts\<lparr> so_port := ucast v \<rparr>) (atoi val))
      else if arg = ''--data-dir'' then Some (Some (opts\<lparr> so_data_dir := val \<rparr>))
      else if arg = ''--segment-bytes'' then Some (map_option (\<lambda>v. opts\<lparr> so_segment_bytes := v \<rparr>) (stoul_u32 val))
      else if arg = ''--sync-on-append'' then Some (Some (opts\<lparr> so_sync_on_append := (val = ''true'' \<or> val = ''1'') \<rparr>))
      else if arg = ''--log-level'' then Some (Some (opts\<lparr> so_log_level_str := val \<rparr>))
      else if arg = ''--workers'' then Some (map_option (\<lambda>v. opts\<lparr> so_workers := unat v \<rparr>) (stoul_u32 val))
      else if arg = ''--max-connections'' then Some (map_option (\<lambda>v. opts\<lparr> so_max_connections := unat v \<rparr>) (stoul_u32 val))
      else if arg = ''--read-stall-timeout-sec'' then Some (map_option (\<lambda>v. opts\<lparr> so_read_stall_timeout_sec := v \<rparr>) (stoul_u32 val))
      else if arg = ''--max-output-buffer-bytes'' then Some (map_option (\<lambda>v. opts\<lparr> so_max_output_buffer_bytes := unat v \<rparr>) (stoull val))
      else if arg = ''--group-min-session-ms'' then Some (map_option (\<lambda>v. opts\<lparr> so_group_min_session_ms := v \<rparr>) (stoul_u32 val))
      else if arg = ''--group-max-session-ms'' then Some (map_option (\<lambda>v. opts\<lparr> so_group_max_session_ms := v \<rparr>) (stoul_u32 val))
      else if arg = ''--reaper-interval-ms'' then Some (map_option (\<lambda>v. opts\<lparr> so_reaper_interval_ms := v \<rparr>) (stoul_u32 val))
      else if arg = ''--default-retention-ms'' then Some (map_option (\<lambda>v. opts\<lparr> so_default_retention_ms := v \<rparr>) (stoull val))
      else if arg = ''--default-retention-bytes'' then Some (map_option (\<lambda>v. opts\<lparr> so_default_retention_bytes := v \<rparr>) (stoull val))
      else if arg = ''--retention-check-interval-ms'' then Some (map_option (\<lambda>v. opts\<lparr> so_retention_check_interval_ms := v \<rparr>) (stoull val))
      else if arg = ''--startup-scan'' then Some (Some (opts\<lparr> so_startup_scan := val \<rparr>))
      else None)"

text \<open>Any other argument: the port, unless it starts with two dashes.\<close>

definition server_positional :: "string \<Rightarrow> ServerOptions \<Rightarrow> ServerOptions option" where
  "server_positional arg opts =
     (if take 2 arg \<noteq> ''--'' then map_option (\<lambda>v. opts\<lparr> so_port := ucast v \<rparr>) (atoi arg) else Some opts)"

fun parse_server_args :: "string list \<Rightarrow> ServerOptions \<Rightarrow> ServerOptions option" where
  "parse_server_args [] opts = Some opts"
| "parse_server_args [arg] opts = server_positional arg opts"
| "parse_server_args (arg # val # rest) opts =
     (case server_option arg val opts of
        Some r \<Rightarrow> Option.bind r (parse_server_args rest)
      | None \<Rightarrow> Option.bind (server_positional arg opts) (parse_server_args (val # rest)))"

datatype LogLevel = LogDEBUG | LogINFO | LogWARNING | LogERR

definition log_level :: "string \<Rightarrow> LogLevel" where
  "log_level s =
     (if s = ''DEBUG'' then LogDEBUG
      else if s = ''WARN'' \<or> s = ''WARNING'' then LogWARNING
      else if s = ''ERROR'' \<or> s = ''ERR'' then LogERR
      else LogINFO)"

section \<open>The start\<close>

definition storage_cfg :: "ServerOptions \<Rightarrow> StorageConfig" where
  "storage_cfg opts = default_StorageConfig\<lparr> data_dir := so_data_dir opts, segment_max_bytes := so_segment_bytes opts,
     sync_on_append := so_sync_on_append opts, default_retention_ms := so_default_retention_ms opts,
     default_retention_bytes := so_default_retention_bytes opts,
     retention_check_interval_ms := so_retention_check_interval_ms opts, startup_scan := so_startup_scan opts \<rparr>"

definition coord_cfg :: "ServerOptions \<Rightarrow> CoordinatorConfig" where
  "coord_cfg opts = default_CoordinatorConfig\<lparr> cc_min_session_timeout_ms := so_group_min_session_ms opts,
     cc_max_session_timeout_ms := so_group_max_session_ms opts \<rparr>"

definition server_cfg :: "nat \<Rightarrow> ServerOptions \<Rightarrow> ServerConfig" where
  "server_cfg hardware_concurrency opts = (default_ServerConfig hardware_concurrency)\<lparr> sf_host := so_host opts, sf_port := so_port opts,
     sf_workers := so_workers opts, sf_max_connections := so_max_connections opts,
     sf_read_stall_timeout_sec := so_read_stall_timeout_sec opts, sf_max_output_buffer_bytes := so_max_output_buffer_bytes opts,
     sf_group_min_session_ms := so_group_min_session_ms opts, sf_group_max_session_ms := so_group_max_session_ms opts,
     sf_reaper_interval_ms := so_reaper_interval_ms opts \<rparr>"

text \<open>
  The parts in the order in which they are made, up to the call of the event loop: the exit code, or the
  retention thread and the server. \<open>listener\<close> is the result of making the listening socket, whose
  exception the \<^verbatim>\<open>try\<close> block turns into an exit code.
\<close>

definition server_setup ::
  "os \<Rightarrow> i64 \<Rightarrow> nat \<Rightarrow> string + Socket \<Rightarrow> ServerOptions \<Rightarrow> filesys \<Rightarrow> ((nat + RetentionManager \<times> TcpServer) \<times> filesys) option" where
  "server_setup w now_ms hardware_concurrency listener opts fs = do {
     (st, topic_mgr, fs1) \<leftarrow> open_and_recover_all w fs (make_TopicManager (storage_cfg opts));
     if \<not> ok st then Some (Inl 1, fs1)
     else do {
       (ost, offset_store, topic_mgr2, fs2) \<leftarrow> offsets_open_and_recover w now_ms fs1 topic_mgr new_OffsetStore;
       if \<not> ok ost then Some (Inl 1, fs2)
       else do {
         retention_mgr \<leftarrow> rm_start (make_RetentionManager (so_retention_check_interval_ms opts));
         let broker = \<lparr> bk_fs = fs2, bk_topic_mgr = topic_mgr2, bk_offset_store = offset_store,
                         bk_coordinator = Some (new_GroupCoordinator (coord_cfg opts)) \<rparr>;
         let server = make_TcpServer (server_cfg hardware_concurrency opts) broker;
         case listener of Inl _ \<Rightarrow> Some (Inl 1, fs2) | Inr _ \<Rightarrow> Some (Inr (retention_mgr, start_server server), fs2)
       }
     }
   }"


text \<open>\<^verbatim>\<open>CTRL_C_EVENT\<close>, \<^verbatim>\<open>CTRL_BREAK_EVENT\<close> and \<^verbatim>\<open>CTRL_CLOSE_EVENT\<close>; the server is \<^verbatim>\<open>g_server_instance\<close>.\<close>

definition console_ctrl_handler :: "nat \<Rightarrow> TcpServer option \<Rightarrow> bool \<times> TcpServer option" where
  "console_ctrl_handler ctrl_type server =
     (if ctrl_type = 0 \<or> ctrl_type = 1 \<or> ctrl_type = 2 then (True, map_option request_stop server) else (False, server))"

section \<open>Numbers\<close>

lemma number_texts:
  "n < 2 ^ 32 \<Longrightarrow> stoul_u32 (to_string n) = Some (of_nat n)"
  "n < 2 ^ 64 \<Longrightarrow> stoull (to_string n) = Some (of_nat n)"
  "n < 2 ^ 31 \<Longrightarrow> atoi (to_string n) = Some (of_nat n)"
  by (simp_all add: stoul_u32_def stoul_to_string stoull_to_string) (simp add: atoi_def Let_def digits_val_to_string)

section \<open>Properties\<close>

text \<open>A command line that sets every option.\<close>

definition server_args :: "ServerOptions \<Rightarrow> string list" where
  "server_args opts =
     [''--host'', so_host opts, ''--port'', to_string (unat (so_port opts)), ''--data-dir'', so_data_dir opts,
      ''--segment-bytes'', to_string (unat (so_segment_bytes opts)), ''--sync-on-append'', (if so_sync_on_append opts then ''true'' else ''false''),
      ''--log-level'', so_log_level_str opts, ''--workers'', to_string (so_workers opts), ''--max-connections'', to_string (so_max_connections opts),
      ''--read-stall-timeout-sec'', to_string (unat (so_read_stall_timeout_sec opts)),
      ''--max-output-buffer-bytes'', to_string (so_max_output_buffer_bytes opts),
      ''--group-min-session-ms'', to_string (unat (so_group_min_session_ms opts)),
      ''--group-max-session-ms'', to_string (unat (so_group_max_session_ms opts)),
      ''--reaper-interval-ms'', to_string (unat (so_reaper_interval_ms opts)),
      ''--default-retention-ms'', to_string (unat (so_default_retention_ms opts)),
      ''--default-retention-bytes'', to_string (unat (so_default_retention_bytes opts)),
      ''--retention-check-interval-ms'', to_string (unat (so_retention_check_interval_ms opts)),
      ''--startup-scan'', so_startup_scan opts]"

lemma option_numbers:
  "stoul_u32 (to_string (unat (x :: u32))) = Some x" "stoull (to_string (unat (y :: u64))) = Some y"
  "map_option ucast (atoi (to_string (unat (p :: u16)))) = Some p"
proof -
  show "stoul_u32 (to_string (unat x)) = Some x" using number_texts(1) [of "unat x"] by simp
  show "stoull (to_string (unat y)) = Some y" using number_texts(2) [of "unat y"] by simp
  have "unat p < 2 ^ 31" by (rule less_trans [OF unat_u16_lt]) simp
  moreover have "ucast (ucast p :: i32) = p" by (rule bit_word_eqI) (auto simp: bit_ucast_iff)
  ultimately show "map_option ucast (atoi (to_string (unat p))) = Some p" using number_texts(3) [of "unat p"] by simp
qed

text \<open>
  The command line sets every option: whatever the options (counts within the range of the
  number parser), the arguments that spell them out are read back as exactly these options, also where the
  value of an option looks like an option itself.
\<close>

lemma server_options_roundtrip:
  assumes "so_workers opts < 2 ^ 32" "so_max_connections opts < 2 ^ 32" "so_max_output_buffer_bytes opts < 2 ^ 64"
  shows "parse_server_args (server_args opts) (default_ServerOptions hc) = Some opts"
proof -
  have u: "unat (of_nat (so_workers opts) :: u32) = so_workers opts" "unat (of_nat (so_max_connections opts) :: u32) = so_max_connections opts"
      "unat (of_nat (so_max_output_buffer_bytes opts) :: u64) = so_max_output_buffer_bytes opts"
    using assms by (simp_all add: unat_of_nat_u32 unat_of_nat_u64)
  obtain v where v: "atoi (to_string (unat (so_port opts))) = Some v" "ucast v = so_port opts"
    using option_numbers(3) [of "so_port opts"] by auto
  show ?thesis
    by (simp add: server_args_def server_option_def option_numbers(1,2) number_texts(1,2) assms [simplified] u [simplified] v default_ServerOptions_def)
qed

text \<open>A misspelled option is skipped without a message, and its value becomes the port.\<close>

lemma misspelled_option_sets_port:
  "parse_server_args [''--max-conections'', ''2000''] opts = Some (opts\<lparr> so_port := 2000 \<rparr>)"
  by (simp add: server_option_def server_positional_def atoi_def is_blank_def is_digit_def digit_val_def)

section \<open>A server without workers\<close>

lemma close_connection_pool [simp]:
  "sv_thread_pool (close_connection c sv) = sv_thread_pool sv" "sv_config (close_connection c sv) = sv_config sv"
  by (simp_all add: close_connection_def)

lemma fold_close_pool [simp]:
  "sv_thread_pool (fold close_connection cs sv) = sv_thread_pool sv" "sv_config (fold close_connection cs sv) = sv_config sv"
  by (induction cs arbitrary: sv) simp_all

abbreviation same_workers :: "TcpServer \<Rightarrow> TcpServer \<Rightarrow> bool" where
  "same_workers sv sv' \<equiv> length (pl_workers (sv_thread_pool sv')) = length (pl_workers (sv_thread_pool sv)) \<and> sv_config sv' = sv_config sv"


lemma put_conn_workers: "same_workers sv (put_conn conn sv)"
  by (simp add: put_conn_def)












section \<open>From the command line to the runs\<close>



abbreviation empty_disk :: filesys where
  "empty_disk \<equiv> \<lparr> fs_files = [], fs_dirs = [] \<rparr>"

abbreviation offsets_dir :: "ServerOptions \<Rightarrow> path" where
  "offsets_dir opts \<equiv> [so_data_dir opts, INTERNAL_OFFSETS_TOPIC]"

lemma setup_base: "base_path (make_TopicManager (storage_cfg opts)) = [so_data_dir opts]"
  by (simp add: base_path_def make_TopicManager_def storage_cfg_def)

lemma internal_topic_valid: "validate_topic_name INTERNAL_OFFSETS_TOPIC = None"
  by (simp add: validate_topic_name_def is_alnum_def to_upper_def reserved_names_def INTERNAL_OFFSETS_TOPIC_def)

lemma no_topics: "get_topic (make_TopicManager cfg) name = None" "make_TopicManager cfg\<lparr> tm_topics := [] \<rparr> = make_TopicManager cfg"
  by (simp_all add: get_topic_def make_TopicManager_def)

text \<open>The first start on an empty disk creates the internal topic.\<close>

lemma first_start:
  "\<exists>rm sv0 fs'. server_setup ideal_os now hc (Inr l) opts empty_disk = Some (Inr (rm, sv0), fs') \<and>
    fexists fs' (meta_path (offsets_dir opts)) \<and> f_synced (get_file fs' (meta_path (offsets_dir opts))) = 0 \<and>
    (\<forall>q \<in> set (fs_dirs fs'). butlast q = [so_data_dir opts] \<longrightarrow> q = offsets_dir opts) \<and> [so_data_dir opts] \<in> set (fs_dirs fs')"
proof -
  let ?tm = "make_TopicManager (storage_cfg opts)" and ?fs1 = "create_directories empty_disk [so_data_dir opts]" and ?dir = "offsets_dir opts"
  have o: "open_and_recover_all ideal_os empty_disk ?tm = Some (Status_OK, ?tm, ?fs1)"
    by (simp add: open_and_recover_all_def setup_base fs_exists_def fexists_def no_topics)
  have d: "fs_dirs ?fs1 = [[so_data_dir opts]]" by (simp add: create_directories_def)
  have n: "\<not> fs_exists ?fs1 (meta_path ?dir)" "\<forall>i < unat (1 :: u32). no_files ?fs1 (?dir @ [to_string i])"
    by (simp_all add: fs_exists_def d meta_path_def) (simp_all add: fexists_def create_directories_def)
  have b: "?dir = base_path ?tm @ [INTERNAL_OFFSETS_TOPIC]" by (simp add: setup_base)
  obtain t tm' fs' where c: "create_topic ideal_os now ?fs1 ?tm INTERNAL_OFFSETS_TOPIC 1 0 0 = Some (Inr t, tm', fs')"
      "\<forall>p < 1. \<exists>P. get_partition t p = Some P \<and> part_rep fs' P [[]] \<and> p_next_offset P = 0"
      "fexists fs' (meta_path ?dir)" "f_synced (get_file fs' (meta_path ?dir)) = 0"
      "grown (insert ?dir ((\<lambda>i. ?dir @ [to_string i]) ` {..<unat (1 :: u32)})) ?fs1 fs'"
    using create_topic_fresh [OF reliable_ideal_os internal_topic_valid _ _ no_topics(1) b n, of now 0 0 "(0, 0, 0)"] by auto
  obtain P where P: "get_partition t 0 = Some P" "p_next_offset P = 0" using c(2) by auto
  have "load_loop ideal_os fs' P (p_next_offset P) (earliest_offset P) [] = Some (Status_OK, [])"
    using P(2) by (subst load_loop.simps) simp
  then have "offsets_open_and_recover ideal_os now ?fs1 ?tm new_OffsetStore = Some (Status_OK, new_OffsetStore\<lparr> ofs_cache := [], ofs_has_partition := True \<rparr>, tm', fs')"
    using c(1) P(1) by (simp add: offsets_open_and_recover_def no_topics Let_def)
  then have "\<exists>rm sv0. server_setup ideal_os now hc (Inr l) opts empty_disk = Some (Inr (rm, sv0), fs')"
    using o by (simp add: server_setup_def rm_start_def make_RetentionManager_def Let_def)
  moreover have "q = ?dir" if "q \<in> set (fs_dirs fs')" "butlast q = [so_data_dir opts]" for q
  proof -
    have "q = [so_data_dir opts] \<or> (\<exists>n. q = take n ?dir) \<or> (\<exists>n. q = take n (?dir @ [to_string 0]))"
      using c(5) that(1) d by (auto simp: grown_def)
    then show ?thesis using that(2) by (auto simp: take_Cons' split: if_splits)
  qed
  moreover have "[so_data_dir opts] \<in> set (fs_dirs fs')" using c(5) d by (auto simp: grown_def)
  ultimately show ?thesis using c(3,4) by blast
qed



section \<open>A crash after the first start\<close>

lemma worst_crash_sel:
  "fexists (worst_crash fs) p = fexists fs p" "fdata (worst_crash fs) p = take (f_synced (get_file fs p)) (fdata fs p)"
  "fs_dirs (worst_crash fs) = fs_dirs fs"
  by (auto simp: worst_crash_def fexists_def get_file_def map_of_map empty_file_def split: option.split)

lemma recover_topics_skips:
  assumes "\<forall>d \<in> set ds. \<not> ok (fst (load_topic_metadata w fs tm d (0, default_retention_ms (tm_config tm), default_retention_bytes (tm_config tm))))"
  shows "recover_topics w ds tm fs = Some (Status_OK, tm, fs)"
  using assms by (induction ds) (auto simp: Let_def split: prod.splits)

text \<open>
  C39. The metadata of a topic is not durable when the topic has been created: it is written without a flush to disk. On an
  empty disk the server starts and creates the internal topic of the offsets. If a crash then loses what was
  never flushed, the file \<^verbatim>\<open>topic.meta\<close> exists but is empty: the next start skips the topic as unreadable,
  fails to create it because the file exists, and exits. Every further start does the same.
\<close>

theorem crash_after_first_start_blocks_server:
  "\<exists>rm sv0 fs1 fs2. server_setup ideal_os now hc (Inr l) opts \<lparr> fs_files = [], fs_dirs = [] \<rparr> = Some (Inr (rm, sv0), fs1) \<and>
     crashed fs1 fs2 \<and> (\<forall>now'. server_setup ideal_os now' hc (Inr l) opts fs2 = Some (Inl 1, fs2))"
proof -
  let ?tm = "make_TopicManager (storage_cfg opts)" and ?dir = "offsets_dir opts"
  obtain rm sv0 fs1 where s: "server_setup ideal_os now hc (Inr l) opts empty_disk = Some (Inr (rm, sv0), fs1)"
      "fexists fs1 (meta_path ?dir)" "f_synced (get_file fs1 (meta_path ?dir)) = 0"
      "\<forall>q \<in> set (fs_dirs fs1). butlast q = [so_data_dir opts] \<longrightarrow> q = ?dir" "[so_data_dir opts] \<in> set (fs_dirs fs1)"
    using first_start by blast
  let ?fs = "worst_crash fs1"
  have dirs: "d = ?dir" if "d \<in> set (dir_dirs ?fs (base_path ?tm))" for d
    using that s(4) by (auto simp: dir_dirs_def worst_crash_sel setup_base)
  have "\<not> ok (fst (load_topic_metadata ideal_os ?fs tm ?dir out))" for tm out
    using s(2,3) by (auto simp: load_topic_metadata_def Let_def worst_crash_sel chars_of_bytes_def)
  then have o: "open_and_recover_all ideal_os ?fs ?tm = Some (Status_OK, ?tm, ?fs)"
    using dirs s(5) by (simp add: open_and_recover_all_def fs_exists_def setup_base worst_crash_sel no_topics) (blast intro: recover_topics_skips)
  have "create_topic ideal_os now' ?fs ?tm INTERNAL_OFFSETS_TOPIC 1 0 0 =
      Some (Inl (Status AlreadyExists (''Topic metadata already exists on disk for '' @ [CHR 0x27] @ INTERNAL_OFFSETS_TOPIC @ [CHR 0x27])), ?tm, ?fs)" for now'
    using s(2) by (simp add: create_topic_def internal_topic_valid no_topics setup_base fs_exists_def worst_crash_sel Let_def)
  then have "server_setup ideal_os now' hc (Inr l) opts ?fs = Some (Inl 1, ?fs)" for now'
    using o by (simp add: server_setup_def offsets_open_and_recover_def no_topics Let_def)
  then show ?thesis using s(1) crashed_worst_crash by blast
qed

end
