(* ===== verification/Client.thy ===== *)
theory Client
  imports Socket MessageHandler ServerMain
begin

text \<open>
  \<^verbatim>\<open>src/src/cli_main.cpp\<close>, the first part: how the command line client talks to the server, and its
  command line. The other end and the network are an argument, \<open>Net\<close>: what becomes of the bytes sent, what arrives
  afterwards, and whether a connection can be made. A call that does not return, an encoding that leaves
  its buffer and a number of the command line that cannot be read (whose exception nothing catches) are \<open>None\<close>.
\<close>

section \<open>The connection\<close>

record 'w Net =
  net_send :: "bytes \<Rightarrow> 'w \<Rightarrow> SendResult \<times> recv_event list \<times> 'w"
  net_connect :: "'w \<Rightarrow> bool \<times> recv_event list \<times> 'w"

text \<open>What can be seen of a client from outside: the requests it sends and what it prints about records.\<close>

datatype client_event =
    Requested Frame
  | ShowedRecord string u16 FetchRecordWire
  | ShowedReset u16 u64

text \<open>The socket (valid, and what has arrived on it), the other end, the next request number, the history, and how often the clock
  and the stop flag have been read.\<close>

record 'w Client =
  cl_valid :: bool
  cl_in :: "recv_event list"
  cl_world :: 'w
  cl_req_id :: u32
  cl_log :: "client_event list"
  cl_reads :: nat

definition connect_socket :: "'w Net \<Rightarrow> 'w Client \<Rightarrow> bool \<times> 'w Client" where
  "connect_socket net c =
     (let (done, arrived, w) = net_connect net (cl_world c)
      in if done then (True, c\<lparr> cl_valid := True, cl_in := arrived, cl_world := w \<rparr>) else (False, c\<lparr> cl_world := w \<rparr>))"

text \<open>
  The frame that is passed in keeps its body when the response has none. A length of \<open>2\<^sup>3\<^sup>1\<close> or more makes the byte
  count passed to \<^verbatim>\<open>recv\<close> negative and is left out (\<open>None\<close>).
\<close>

definition read_response_frame :: "Frame \<Rightarrow> 'w Client \<Rightarrow> (bool \<times> Frame \<times> 'w Client) option" where
  "read_response_frame out_frame c =
     (case recv_exact (cl_in c) 4 of
        None \<Rightarrow> None
      | Some (res, len_buf, evs1) \<Rightarrow>
          if res \<noteq> RecvSuccess then Some (False, out_frame, c\<lparr> cl_in := evs1 \<rparr>)
          else let len = fc_read_u32 len_buf
            in if len < HEADER_SIZE then Some (False, out_frame, c\<lparr> cl_in := evs1 \<rparr>)
               else if unat len \<ge> 2 ^ 31 then None
               else case recv_exact evs1 (unat len) of
                   None \<Rightarrow> None
                 | Some (res2, payload, evs2) \<Rightarrow>
                     if res2 \<noteq> RecvSuccess then Some (False, out_frame, c\<lparr> cl_in := evs2 \<rparr>)
                     else Some (True,
                       \<lparr> fr_length = len, fr_type = payload ! 0, fr_request_id = fc_read_u32 (drop 1 payload),
                          fr_body = (if len > HEADER_SIZE then drop (unat HEADER_SIZE) payload else fr_body out_frame) \<rparr>,
                       c\<lparr> cl_in := evs2 \<rparr>))"

definition client_send_bytes :: "'w Net \<Rightarrow> bytes \<Rightarrow> 'w Client \<Rightarrow> SendResult \<times> 'w Client" where
  "client_send_bytes net bs c =
     (if bs = [] then (SendSuccess, c)
      else if \<not> cl_valid c then (SendFailure, c)
      else let (res, arrived, w) = net_send net bs (cl_world c) in (res, c\<lparr> cl_in := cl_in c @ arrived, cl_world := w \<rparr>))"

text \<open>\<^verbatim>\<open>sock.close()\<close>: what has arrived is lost.\<close>

definition client_close :: "'w Client \<Rightarrow> 'w Client" where
  "client_close c = c\<lparr> cl_valid := False, cl_in := [] \<rparr>"

definition client_send :: "'w Net \<Rightarrow> Frame \<Rightarrow> 'w Client \<Rightarrow> (SendResult \<times> 'w Client) option" where
  "client_send net req c =
     map_option (\<lambda>encoded. client_send_bytes net encoded (c\<lparr> cl_log := cl_log c @ [Requested req] \<rparr>)) (frame_encode req)"

text \<open>Sending and reading, without the look at the response.\<close>

definition client_exchange :: "'w Net \<Rightarrow> Frame \<Rightarrow> Frame \<Rightarrow> 'w Client \<Rightarrow> (bool \<times> Frame \<times> 'w Client) option" where
  "client_exchange net req out_resp c = do {
     (res, c1) \<leftarrow> client_send net req c;
     if res \<noteq> SendSuccess then Some (False, out_resp, c1) else read_response_frame out_resp c1
   }"

definition send_and_receive :: "'w Net \<Rightarrow> Frame \<Rightarrow> Frame \<Rightarrow> 'w Client \<Rightarrow> (bool \<times> Frame \<times> 'w Client) option" where
  "send_and_receive net req_frame out_resp_frame c = do {
     (done, resp, c1) \<leftarrow> client_exchange net req_frame out_resp_frame c;
     if \<not> done then Some (False, resp, c1)
     else if fr_type resp = MSG_ERROR then Some (False, resp, c1)
     else Some (True, resp, c1)
   }"

text \<open>\<^verbatim>\<open>Frame req{ HEADER_SIZE + size, type, req_id++, body }\<close>.\<close>

definition next_request :: "u8 \<Rightarrow> bytes \<Rightarrow> 'w Client \<Rightarrow> Frame \<times> 'w Client" where
  "next_request ty body c = (reply_frame ty (cl_req_id c) body, c\<lparr> cl_req_id := cl_req_id c + 1 \<rparr>)"

text \<open>A request and its reply, as most commands make them: the body of the reply, unless it failed.\<close>

definition rpc :: "'w Net \<Rightarrow> u8 \<Rightarrow> bytes \<Rightarrow> 'w Client \<Rightarrow> (Frame option \<times> 'w Client) option" where
  "rpc net ty body c =
     (let (req, c1) = next_request ty body c
      in do {
        (done, resp, c2) \<leftarrow> send_and_receive net req default_Frame c1;
        Some (if done then Some resp else None, c2)
      })"

section \<open>Text\<close>

definition hex_digit :: "nat \<Rightarrow> char" where
  "hex_digit n = (if n < 10 then char_of (48 + n) else char_of (87 + n))"

definition escape_byte :: "u8 \<Rightarrow> string" where
  "escape_byte b =
     (if b \<ge> 32 \<and> b \<le> 126 \<and> b \<noteq> 92 then [char_of_byte b]
      else [CHR 0x5C, CHR ''x'', hex_digit (unat b div 16), hex_digit (unat b mod 16)])"

definition escape_bytes :: "bytes \<Rightarrow> string" where
  "escape_bytes bs = concat (map escape_byte bs)"

text \<open>The items \<^verbatim>\<open>std::getline\<close> cuts at commas, without the empty ones.\<close>

fun split_commas :: "string \<Rightarrow> string \<Rightarrow> string list" where
  "split_commas acc [] = (if acc = [] then [] else [acc])"
| "split_commas acc (ch # s) =
     (if ch = CHR '','' then (if acc = [] then split_commas [] s else acc # split_commas [] s) else split_commas (acc @ [ch]) s)"

section \<open>The command line\<close>

record CliArgs =
  ca_host :: string
  ca_port :: u16
  ca_command :: string
  ca_args :: "string list"
  ca_key :: string
  ca_partition :: i32
  ca_key_prefix :: string
  ca_size :: nat
  ca_batch :: nat
  ca_max_messages :: u32
  ca_max_bytes :: u32
  ca_from_offset :: u64
  ca_follow :: bool
  ca_member :: string
  ca_session_timeout_ms :: u32
  ca_strategy :: string
  ca_generation :: u32
  ca_partitions :: string
  ca_commit_every :: nat
  ca_reset :: string
  ca_max_messages_per_fetch :: u32
  ca_process_delay_ms :: u32
  ca_max_records :: nat
  ca_idle_exit_ms :: u64
  ca_crash_after :: nat

definition default_CliArgs :: CliArgs where
  "default_CliArgs =
     \<lparr> ca_host = ''127.0.0.1'', ca_port = 9092, ca_command = [], ca_args = [], ca_key = [], ca_partition = - 1,
        ca_key_prefix = [], ca_size = 100, ca_batch = 100, ca_max_messages = 50, ca_max_bytes = 1048576,
        ca_from_offset = 0, ca_follow = False, ca_member = [], ca_session_timeout_ms = 30000, ca_strategy = ''range'',
        ca_generation = 0xFFFFFFFF, ca_partitions = [], ca_commit_every = 100, ca_reset = ''earliest'',
        ca_max_messages_per_fetch = 50, ca_process_delay_ms = 0, ca_max_records = 0, ca_idle_exit_ms = 0, ca_crash_after = 0 \<rparr>"

text \<open>\<^verbatim>\<open>--idle-exit\<close> counts seconds up to 120 and milliseconds above.\<close>

definition idle_exit :: "string \<Rightarrow> u64 \<Rightarrow> u64" where
  "idle_exit arg val = (if arg = ''--idle-exit'' \<and> val \<le> 120 then val * 1000 else val)"

definition cli_option :: "string \<Rightarrow> string \<Rightarrow> CliArgs \<Rightarrow> CliArgs option option" where
  "cli_option arg val a =
     (if arg = ''--host'' then Some (Some (a\<lparr> ca_host := val \<rparr>))
      else if arg = ''--port'' then Some (map_option (\<lambda>v. a\<lparr> ca_port := ucast v \<rparr>) (atoi val))
      else if arg = ''--key'' then Some (Some (a\<lparr> ca_key := val \<rparr>))
      else if arg = ''--partition'' then Some (map_option (\<lambda>v. a\<lparr> ca_partition := v \<rparr>) (atoi val))
      else if arg = ''--key-prefix'' then Some (Some (a\<lparr> ca_key_prefix := val \<rparr>))
      else if arg = ''--size'' then Some (map_option (\<lambda>v. a\<lparr> ca_size := unat v \<rparr>) (stoul_u32 val))
      else if arg = ''--batch'' then Some (map_option (\<lambda>v. a\<lparr> ca_batch := unat v \<rparr>) (stoul_u32 val))
      else if arg = ''--max-messages'' then Some (map_option (\<lambda>v. a\<lparr> ca_max_messages := v \<rparr>) (stoul_u32 val))
      else if arg = ''--max-bytes'' then Some (map_option (\<lambda>v. a\<lparr> ca_max_bytes := v \<rparr>) (stoul_u32 val))
      else if arg = ''--from'' then Some (map_option (\<lambda>v. a\<lparr> ca_from_offset := v \<rparr>) (stoull val))
      else if arg = ''--member'' then Some (Some (a\<lparr> ca_member := val \<rparr>))
      else if arg = ''--session-timeout-ms'' then Some (map_option (\<lambda>v. a\<lparr> ca_session_timeout_ms := v \<rparr>) (stoul_u32 val))
      else if arg = ''--strategy'' then Some (Some (a\<lparr> ca_strategy := val \<rparr>))
      else if arg = ''--generation'' then Some (map_option (\<lambda>v. a\<lparr> ca_generation := v \<rparr>) (stoul_u32 val))
      else if arg = ''--partitions'' then Some (Some (a\<lparr> ca_partitions := val \<rparr>))
      else if arg = ''--commit-every'' then Some (map_option (\<lambda>v. a\<lparr> ca_commit_every := unat v \<rparr>) (stoul_u32 val))
      else if arg = ''--reset'' then Some (Some (a\<lparr> ca_reset := val \<rparr>))
      else if arg = ''--max-messages-per-fetch'' then Some (map_option (\<lambda>v. a\<lparr> ca_max_messages_per_fetch := v \<rparr>) (stoul_u32 val))
      else if arg = ''--process-delay-ms'' then Some (map_option (\<lambda>v. a\<lparr> ca_process_delay_ms := v \<rparr>) (stoul_u32 val))
      else if arg = ''--max-records'' then Some (map_option (\<lambda>v. a\<lparr> ca_max_records := unat v \<rparr>) (stoul_u32 val))
      else if arg = ''--idle-exit-ms'' \<or> arg = ''--idle-exit'' then Some (map_option (\<lambda>v. a\<lparr> ca_idle_exit_ms := idle_exit arg v \<rparr>) (stoull val))
      else if arg = ''--crash-after'' then Some (map_option (\<lambda>v. a\<lparr> ca_crash_after := unat v \<rparr>) (stoul_u32 val))
      else None)"

definition cli_word :: "string \<Rightarrow> CliArgs \<Rightarrow> CliArgs" where
  "cli_word arg a =
     (if arg = ''--follow'' then a\<lparr> ca_follow := True \<rparr>
      else if ca_command a = [] \<and> take 2 arg \<noteq> ''--'' then a\<lparr> ca_command := arg \<rparr>
      else a\<lparr> ca_args := ca_args a @ [arg] \<rparr>)"

fun parse_cli_args :: "string list \<Rightarrow> CliArgs \<Rightarrow> CliArgs option" where
  "parse_cli_args [] a = Some a"
| "parse_cli_args [arg] a = Some (cli_word arg a)"
| "parse_cli_args (arg # val # rest) a =
     (case cli_option arg val a of
        Some r \<Rightarrow> Option.bind r (parse_cli_args rest)
      | None \<Rightarrow> parse_cli_args (val # rest) (cli_word arg a))"

end
