(* ===== verification/StorageMain.thy ===== *)
theory StorageMain
  imports RetentionManager TopicLaws
begin

text \<open>
  \<^verbatim>\<open>src/src/storage_main.cpp\<close>: the tool that works on the data directory without a server. Each run opens
  and recovers all topics and carries out one command. The printed text is left out, but what it
  shows is part of the result. \<open>None\<close> is an exception that ends the process (a number that cannot be
  read), undefined behaviour, or a loop that does not end.
\<close>

section \<open>The command line\<close>

record StorageArgs =
  sa_data_dir :: string
  sa_segment_bytes :: u32
  sa_command :: string
  sa_args :: "string list"

definition default_StorageArgs :: StorageArgs where
  "default_StorageArgs = \<lparr> sa_data_dir = ''./data'', sa_segment_bytes = DEFAULT_SEGMENT_MAX_BYTES, sa_command = [], sa_args = [] \<rparr>"

definition storage_word :: "string \<Rightarrow> StorageArgs \<Rightarrow> StorageArgs" where
  "storage_word arg a =
     (if sa_command a = [] \<and> take 2 arg \<noteq> ''--'' then a\<lparr> sa_command := arg \<rparr> else a\<lparr> sa_args := sa_args a @ [arg] \<rparr>)"

fun parse_storage_args :: "string list \<Rightarrow> StorageArgs \<Rightarrow> StorageArgs option" where
  "parse_storage_args [] a = Some a"
| "parse_storage_args [arg] a = Some (storage_word arg a)"
| "parse_storage_args (arg # val # rest) a =
     (if arg = ''--data-dir'' then parse_storage_args rest (a\<lparr> sa_data_dir := val \<rparr>)
      else if arg = ''--segment-bytes'' then
        Option.bind (stoul val) (\<lambda>(n, _). parse_storage_args rest (a\<lparr> sa_segment_bytes := n \<rparr>))
      else parse_storage_args (val # rest) (storage_word arg a))"

text \<open>\<^verbatim>\<open>std::stoi\<close>, which throws where \<^verbatim>\<open>atoi\<close> does not.\<close>

definition stoi :: "string \<Rightarrow> i32 option" where
  "stoi str =
     (let s1 = dropWhile is_blank str;
          neg = (s1 \<noteq> [] \<and> hd s1 = CHR ''-'');
          s2 = (if s1 \<noteq> [] \<and> (hd s1 = CHR ''-'' \<or> hd s1 = CHR ''+'') then tl s1 else s1);
          ds = takeWhile is_digit s2;
          i = (if neg then - int (digits_val 0 ds) else int (digits_val 0 ds))
      in if ds = [] \<or> i < - (2 ^ 31) \<or> i \<ge> 2 ^ 31 then None else Some (word_of_int i))"

fun create_opts :: "string list \<Rightarrow> u64 \<times> u64 \<Rightarrow> (u64 \<times> u64) option" where
  "create_opts (arg # val # rest) (ret_ms, ret_bytes) =
     (if arg = ''--retention-ms'' then Option.bind (stoull val) (\<lambda>v. create_opts rest (v, ret_bytes))
      else if arg = ''--retention-bytes'' then Option.bind (stoull val) (\<lambda>v. create_opts rest (ret_ms, v))
      else create_opts (val # rest) (ret_ms, ret_bytes))"
| "create_opts _ out = Some out"

definition append_word :: "string \<Rightarrow> string \<times> string \<times> i32 \<Rightarrow> string \<times> string \<times> i32" where
  "append_word arg out = (case out of (value_str, key_str, part) \<Rightarrow> if value_str = [] then (arg, key_str, part) else out)"

fun append_opts :: "string list \<Rightarrow> string \<times> string \<times> i32 \<Rightarrow> (string \<times> string \<times> i32) option" where
  "append_opts [] out = Some out"
| "append_opts [arg] out = Some (append_word arg out)"
| "append_opts (arg # val # rest) (value_str, key_str, part) =
     (if arg = ''--key'' then append_opts rest (value_str, val, part)
      else if arg = ''--partition'' then Option.bind (stoi val) (\<lambda>p. append_opts rest (value_str, key_str, p))
      else append_opts (val # rest) (append_word arg (value_str, key_str, part)))"

fun read_opts :: "string list \<Rightarrow> nat \<Rightarrow> nat option" where
  "read_opts (arg # val # rest) max_msgs =
     (if arg = ''--max'' then Option.bind (stoul val) (\<lambda>(n, _). read_opts rest (unat n)) else read_opts (val # rest) max_msgs)"
| "read_opts _ max_msgs = Some max_msgs"

fun fill_opts :: "string list \<Rightarrow> string \<Rightarrow> string" where
  "fill_opts (arg # val # rest) key_prefix = (if arg = ''--key-prefix'' then fill_opts rest val else fill_opts (val # rest) key_prefix)"
| "fill_opts _ key_prefix = key_prefix"

section \<open>Dumping a segment\<close>

text \<open>The lines of the dump. A record is shown with its number, position and size, whether its checksum is valid, and
  the fields that were decoded.\<close>

datatype dump_line =
    TruncatedHeader u64
  | InvalidLength u64 u32
  | PartialRecord u64 u64 u32
  | Shown nat u64 u32 Status Record

text \<open>\<open>junk\<close>: the buffer at a position after a read that failed, whose result is not looked at.\<close>

partial_function (option) dump_loop ::
  "os \<Rightarrow> filesys \<Rightarrow> FileHandle \<Rightarrow> (u64 \<Rightarrow> bytes) \<Rightarrow> u64 \<Rightarrow> u64 \<Rightarrow> nat \<Rightarrow> dump_line list option" where
  "dump_loop w fs file junk file_size pos count =
     (if pos < file_size then
        (case fh_read_at w fs file (unat pos) 28 of
           None \<Rightarrow> Some [TruncatedHeader pos]
         | Some header \<Rightarrow>
             (let len = read_u32 header
              in if len < 24 \<or> len > MAX_RECORD_SIZE then Some [InvalidLength pos len]
                 else let total_size = 4 + len
                 in if pos + ucast total_size > file_size then Some [PartialRecord pos (file_size - pos) total_size]
                    else let buf = (case fh_read_at w fs file (unat pos) (unat total_size) of Some b \<Rightarrow> b | None \<Rightarrow> junk pos)
                    in do {
                      (st, record) \<leftarrow> record_decode buf (length buf) default_Record;
                      rest \<leftarrow> dump_loop w fs file junk file_size (pos + ucast total_size) (Suc count);
                      Some (Shown count pos total_size st record # rest)
                    }))
      else Some [])"

section \<open>The commands\<close>

text \<open>What a run shows, besides its exit code.\<close>

datatype shown =
    NothingShown
  | DumpShown "dump_line list"
  | AppendShown i32 u64
  | RecordsShown "Record list"
  | PartitionsShown "(u64 \<times> u64 \<times> nat \<times> u64) list"
  | SegmentsShown nat

definition dump_segment :: "os \<Rightarrow> filesys \<Rightarrow> (u64 \<Rightarrow> bytes) \<Rightarrow> path \<Rightarrow> (nat \<times> shown) option" where
  "dump_segment w fs junk file_path =
     (let file = open_read_only w fs file_path
      in if \<not> fh_is_valid file then Some (1, NothingShown)
         else do {
           lines \<leftarrow> dump_loop w fs file junk (fh_get_size w fs file) 0 0;
           Some (0, DumpShown lines)
         })"

definition storage_create_topic ::
  "os \<Rightarrow> i64 \<Rightarrow> string list \<Rightarrow> TopicManager \<Rightarrow> filesys \<Rightarrow> (nat \<times> shown \<times> TopicManager \<times> filesys) option" where
  "storage_create_topic w now args manager fs =
     (case args of
        name # count # opts \<Rightarrow> do {
          (partitions, _) \<leftarrow> stoul count;
          (ret_ms, ret_bytes) \<leftarrow> create_opts opts (0, 0);
          (res, manager1, fs1) \<leftarrow> create_topic w now fs manager name partitions ret_ms ret_bytes;
          Some (case res of Inl _ \<Rightarrow> 1 | Inr _ \<Rightarrow> 0, NothingShown, manager1, fs1)
        }
      | _ \<Rightarrow> Some (1, NothingShown, manager, fs))"

definition storage_append ::
  "os \<Rightarrow> i64 \<Rightarrow> string list \<Rightarrow> TopicManager \<Rightarrow> filesys \<Rightarrow> (nat \<times> shown \<times> TopicManager \<times> filesys) option" where
  "storage_append w now args manager fs =
     (case args of
        [] \<Rightarrow> Some (1, NothingShown, manager, fs)
      | topic_name # opts \<Rightarrow> do {
          (value_str, key_str, target_partition) \<leftarrow> append_opts opts ([], [], - 1);
          case get_topic manager topic_name of
            None \<Rightarrow> Some (1, NothingShown, manager, fs)
          | Some topic \<Rightarrow> do {
              let key = bytes_of_chars key_str;
              let val = bytes_of_chars value_str;
              (res, topic1, fs1) \<leftarrow> (if sint target_partition \<ge> 0 then append_to w now fs topic target_partition key val
                                    else topic_append w now fs topic key val);
              case res of
                Inl _ \<Rightarrow> Some (1, NothingShown, put_topic manager topic_name topic1, fs1)
              | Inr offset \<Rightarrow> Some (0, AppendShown target_partition offset, put_topic manager topic_name topic1, fs1)
            }
        })"

definition storage_read :: "os \<Rightarrow> string list \<Rightarrow> TopicManager \<Rightarrow> filesys \<Rightarrow> (nat \<times> shown) option" where
  "storage_read w args manager fs =
     (case args of
        topic_name # part # start # opts \<Rightarrow> do {
          (part_id, _) \<leftarrow> stoul part;
          start_off \<leftarrow> stoull start;
          max_msgs \<leftarrow> read_opts opts 100;
          case Option.bind (get_topic manager topic_name) (\<lambda>t. get_partition t part_id) of
            None \<Rightarrow> Some (1, NothingShown)
          | Some P \<Rightarrow> do {
              rr \<leftarrow> part_read w fs P start_off max_msgs (1024 * 1024);
              if \<not> ok (rr_status rr) then Some (1, NothingShown) else Some (0, RecordsShown (rr_records rr))
            }
        }
      | _ \<Rightarrow> Some (1, NothingShown))"

definition storage_describe :: "string list \<Rightarrow> TopicManager \<Rightarrow> nat \<times> shown" where
  "storage_describe args manager =
     (case args of
        [] \<Rightarrow> (1, NothingShown)
      | topic_name # _ \<Rightarrow>
          (case get_topic manager topic_name of
             None \<Rightarrow> (1, NothingShown)
           | Some topic \<Rightarrow>
               (0, PartitionsShown (map (\<lambda>P. (earliest_offset P, p_next_offset P, length (p_segments P), total_bytes P)) (tc_partitions topic)))))"

fun fill_loop ::
  "os \<Rightarrow> (nat \<Rightarrow> i64) \<Rightarrow> string \<Rightarrow> bytes \<Rightarrow> nat \<Rightarrow> nat \<Rightarrow> Topic \<Rightarrow> filesys \<Rightarrow> (nat \<times> Topic \<times> filesys) option" where
  "fill_loop w clock key_prefix val i 0 topic fs = Some (0, topic, fs)"
| "fill_loop w clock key_prefix val i (Suc n) topic fs = do {
     (res, topic1, fs1) \<leftarrow> topic_append w (clock i) fs topic (bytes_of_chars (key_prefix @ to_string i)) val;
     case res of Inl _ \<Rightarrow> Some (1, topic1, fs1) | Inr _ \<Rightarrow> fill_loop w clock key_prefix val (Suc i) n topic1 fs1
   }"

definition storage_fill ::
  "os \<Rightarrow> (nat \<Rightarrow> i64) \<Rightarrow> string list \<Rightarrow> TopicManager \<Rightarrow> filesys \<Rightarrow> (nat \<times> shown \<times> TopicManager \<times> filesys) option" where
  "storage_fill w clock args manager fs =
     (case args of
        topic_name # cnt # sz # opts \<Rightarrow> do {
          (count, _) \<leftarrow> stoul cnt;
          (val_size, _) \<leftarrow> stoul sz;
          case get_topic manager topic_name of
            None \<Rightarrow> Some (1, NothingShown, manager, fs)
          | Some topic \<Rightarrow> do {
              (code, topic1, fs1) \<leftarrow> fill_loop w clock (fill_opts opts ''key-'') (replicate (unat val_size) (byte_of_char (CHR ''X''))) 0 (unat count) topic fs;
              Some (code, NothingShown, put_topic manager topic_name topic1, fs1)
            }
        }
      | _ \<Rightarrow> Some (1, NothingShown, manager, fs))"

definition storage_gc ::
  "os \<Rightarrow> (string \<Rightarrow> nat \<Rightarrow> i64) \<Rightarrow> string list \<Rightarrow> TopicManager \<Rightarrow> filesys \<Rightarrow> nat \<times> shown \<times> TopicManager \<times> filesys" where
  "storage_gc w clock args manager fs =
     (case args of
        [] \<Rightarrow> (1, NothingShown, manager, fs)
      | topic_name # opts \<Rightarrow>
          (case get_topic manager topic_name of
             None \<Rightarrow> (1, NothingShown, manager, fs)
           | Some topic \<Rightarrow>
               (let (count, manager1, fs1) = run_one_pass w clock (''--dry-run'' \<in> set opts) topic_name manager fs
                in (0, SegmentsShown count, manager1, fs1))))"

text \<open>The whole run. The path of \<^verbatim>\<open>dump-segment\<close> is read by the argument \<open>to_path\<close>.\<close>

definition storage_main ::
  "os \<Rightarrow> (string \<Rightarrow> path) \<Rightarrow> (u64 \<Rightarrow> bytes) \<Rightarrow> i64 \<Rightarrow> (nat \<Rightarrow> i64) \<Rightarrow> (string \<Rightarrow> nat \<Rightarrow> i64) \<Rightarrow> string list \<Rightarrow> filesys \<Rightarrow>
    (nat \<times> shown \<times> filesys) option" where
  "storage_main w to_path junk now clock gc_clock argv fs =
     (if argv = [] then Some (1, NothingShown, fs)
      else do {
        a \<leftarrow> parse_storage_args argv default_StorageArgs;
        let command = sa_command a;
        let args = sa_args a;
        if command = ''dump-segment'' then
          (case args of [] \<Rightarrow> Some (1, NothingShown, fs)
           | p # _ \<Rightarrow> map_option (\<lambda>(code, out). (code, out, fs)) (dump_segment w fs junk (to_path p)))
        else do {
          let config = default_StorageConfig\<lparr> data_dir := sa_data_dir a, segment_max_bytes := sa_segment_bytes a \<rparr>;
          (st, manager, fs1) \<leftarrow> open_and_recover_all w fs (make_TopicManager config);
          if \<not> ok st then Some (1, NothingShown, fs1)
          else if command = ''create-topic'' then map_option (\<lambda>(code, out, _, fs2). (code, out, fs2)) (storage_create_topic w now args manager fs1)
          else if command = ''append'' then map_option (\<lambda>(code, out, _, fs2). (code, out, fs2)) (storage_append w now args manager fs1)
          else if command = ''read'' then map_option (\<lambda>(code, out). (code, out, fs1)) (storage_read w args manager fs1)
          else if command = ''describe'' then (let (code, out) = storage_describe args manager in Some (code, out, fs1))
          else if command = ''fill'' then map_option (\<lambda>(code, out, _, fs2). (code, out, fs2)) (storage_fill w clock args manager fs1)
          else if command = ''gc'' then (let (code, out, _, fs2) = storage_gc w gc_clock args manager fs1 in Some (code, out, fs2))
          else Some (1, NothingShown, fs1)
        }
      })"

section \<open>The dump and recovery\<close>

lemma dump_step:
  assumes w: "reliable w" and d: "d = drop n (fdata fs p)" "n < length (fdata fs p)" and bound: "length (fdata fs p) < 2 ^ 32"
    and N: "N = of_nat (length (fdata fs p))"
  defines "len \<equiv> read_u32 (take 4 d)"
  shows "dump_loop w fs (Handle p) junk N (of_nat n) count =
    (if length d < 28 then Some [TruncatedHeader (of_nat n)]
     else if unat len < 24 \<or> unat len > 1048576 then Some [InvalidLength (of_nat n) len]
     else if length d < 4 + unat len then Some [PartialRecord (of_nat n) (N - of_nat n) (4 + len)]
     else do {
       (st, record) \<leftarrow> record_decode (take (4 + unat len) d) (4 + unat len) default_Record;
       rest \<leftarrow> dump_loop w fs (Handle p) junk N (of_nat (n + (4 + unat len))) (Suc count);
       Some (Shown count (of_nat n) (4 + len) st record # rest)
     })"
proof -
  have ld: "length d = length (fdata fs p) - n" by (simp add: d)
  have un: "unat (of_nat n :: u64) = n" "unat N = length (fdata fs p)" using d(2) bound by (simp_all add: N unat_of_nat_u64)
  have rd: "fh_read_at w fs (Handle p) n k = (if k \<le> length d then Some (take k d) else None)" if "0 < k" for k
    using d that ld by (auto simp: reliable_read [OF w])
  have lt: "(of_nat n :: u64) < N" using d(2) un by (simp add: word_less_nat_alt)
  show ?thesis
  proof (cases "length d < 28")
    case True
    then show ?thesis using lt rd [of 28] un by (subst dump_loop.simps) simp
  next
    case False
    have hdr: "read_u32 (take 28 d) = len" using False read_u32_take [of d 28] by (simp add: len_def)
    show ?thesis
    proof (cases "unat len < 24 \<or> unat len > 1048576")
      case True
      then show ?thesis using lt rd [of 28] un hdr False by (subst dump_loop.simps) (auto simp: Let_def word_less_nat_alt)
    next
      case good: False
      have tot: "unat (4 + len) = 4 + unat len" using good by (subst unat_add_small_u32) simp_all
      have c: "(ucast (4 + len) :: u64) = of_nat (4 + unat len)" by (simp only: tot [symmetric] of_nat_unat)
      have "n + (4 + unat len) < 2 ^ 64" using good d(2) bound by simp
      then have u: "unat (of_nat (n + (4 + unat len)) :: u64) = n + (4 + unat len)" by (intro unat_of_nat_u64) simp
      have sum: "(of_nat n :: u64) + ucast (4 + len) = of_nat (n + (4 + unat len))" unfolding c by (simp only: of_nat_add)
      have gt: "of_nat (n + (4 + unat len)) > N \<longleftrightarrow> length d < 4 + unat len" unfolding word_less_nat_alt u using un ld d(2) by auto
      have ng: "\<not> (len < 24 \<or> MAX_RECORD_SIZE < len)" using good by (simp add: word_less_nat_alt)
      show ?thesis
        using lt rd [of 28] rd [of "4 + unat len"] un hdr False good ng tot
        by (subst dump_loop.simps) (simp add: Let_def sum gt del: of_nat_add)
    qed
  qed
qed

text \<open>The lines for a sequence of intact records.\<close>

fun shown_records :: "nat \<Rightarrow> nat \<Rightarrow> Record list \<Rightarrow> dump_line list" where
  "shown_records count n [] = []"
| "shown_records count n (r # rs) = Shown count (of_nat n) (of_nat (record_size r)) Status_OK r # shown_records (Suc count) (n + record_size r) rs"

fun shown_valid :: "dump_line \<Rightarrow> bool" where
  "shown_valid (Shown _ _ _ st _) = ok st"
| "shown_valid _ = False"

lemma dump_record:
  assumes w: "reliable w" and d: "drop n (fdata fs p) = record_bytes r @ rest" and size: "record_size r \<le> 1048580"
    and bound: "length (fdata fs p) < 2 ^ 32" and N: "N = of_nat (length (fdata fs p))"
  shows "dump_loop w fs (Handle p) junk N (of_nat n) count =
    map_option (Cons (Shown count (of_nat n) (of_nat (record_size r)) Status_OK r)) (dump_loop w fs (Handle p) junk N (of_nat (n + record_size r)) (Suc count))"
proof -
  have "length (drop n (fdata fs p)) = record_size r + length rest" by (simp add: d)
  then have n: "n < length (fdata fs p)" by (simp add: record_size_def)
  define len where "len = read_u32 (take 4 (record_bytes r @ rest))"
  have "first_record (record_bytes r @ rest) = Some (Some r)" by (rule first_record_bytes [OF size])
  then have f: "4 + unat len = record_size r" "\<not> (unat len < 24 \<or> unat len > 1048576)" "\<not> length (record_bytes r @ rest) < 28"
      "record_decode (record_bytes r) (record_size r) default_Record = Some (Status_OK, r)"
    using first_record_SomeD [of "record_bytes r @ rest" r] record_decode_bytes [OF size, of "[]" default_Record] size
    by (auto simp: len_def record_size_def)
  have "4 + len = of_nat (record_size r)" unfolding f(1) [symmetric] by simp
  then show ?thesis
    using dump_step [OF w d [symmetric] n bound N, of junk count, folded len_def] f by (simp add: map_option_case split: option.splits)
qed


lemma dump_records:
  assumes w: "reliable w" and bound: "length (fdata fs p) < 2 ^ 32" and N: "N = of_nat (length (fdata fs p))"
  shows "drop n (fdata fs p) = log_bytes rs @ tail \<Longrightarrow> records_ok rs \<Longrightarrow>
    dump_loop w fs (Handle p) junk N (of_nat n) count =
      map_option (append (shown_records count n rs)) (dump_loop w fs (Handle p) junk N (of_nat (n + length (log_bytes rs))) (count + length rs))"
proof (induction rs arbitrary: n count)
  case (Cons r rs)
  have d: "drop n (fdata fs p) = record_bytes r @ (log_bytes rs @ tail)" and size: "record_size r \<le> 1048580" "records_ok rs"
    using Cons.prems by simp_all
  have "drop (n + record_size r) (fdata fs p) = drop (record_size r) (drop n (fdata fs p))" by (simp add: add.commute)
  then have "drop (n + record_size r) (fdata fs p) = log_bytes rs @ tail" by (simp add: d)
  note ih = Cons.IH [OF this size(2), of "Suc count"]
  show ?case unfolding dump_record [OF w d size(1) bound N] ih by (simp add: option.map_comp o_def add.assoc del: of_nat_add)
qed (simp add: option.map_ident_strong)

lemma shown_records_valid: "\<forall>x \<in> set (shown_records count n rs). shown_valid x"
  by (induction count n rs rule: shown_records.induct) auto

lemma dump_tail:
  assumes w: "reliable w" and d: "d = drop n (fdata fs p)" "n \<le> length (fdata fs p)" "first_record d = Some None"
    and bound: "length (fdata fs p) < 2 ^ 32" and N: "N = of_nat (length (fdata fs p))"
    and ls: "dump_loop w fs (Handle p) junk N (of_nat n) count = Some ls"
  shows "takeWhile shown_valid ls = []"
proof (cases "n < length (fdata fs p)")
  case True
  show ?thesis
    using ls d(3) unfolding dump_step [OF w d(1) True bound N]
    by (auto simp: first_record_def Let_def bind_eq_Some_conv split: if_splits)
next
  case False
  then have "n = length (fdata fs p)" using d(2) by simp
  then show ?thesis using ls N by (subst (asm) dump_loop.simps) simp
qed

text \<open>The records of the lines that are shown as valid.\<close>

fun shown_record :: "dump_line \<Rightarrow> Record" where
  "shown_record (Shown _ _ _ _ r) = r"
| "shown_record _ = default_Record"

lemma map_shown_records: "map shown_record (shown_records count n rs) = rs"
  by (induction count n rs rule: shown_records.induct) auto

lemma dump_log:
  assumes w: "reliable w" and d: "fdata fs p = log_bytes rs @ tail" "records_ok rs" "first_record tail = Some None"
    and bound: "length (fdata fs p) < 2 ^ 32" and ex: "fexists fs p"
    and ls: "dump_segment w fs junk p = Some (rc, out)"
  shows "rc = 0 \<and> (\<exists>ls. out = DumpShown ls \<and> takeWhile shown_valid ls = shown_records 0 0 rs)"
proof -
  have o: "open_read_only w fs p = Handle p" using reliable_open_ro [OF w] ex by simp
  obtain ls where l: "dump_loop w fs (Handle p) junk (of_nat (length (fdata fs p))) 0 0 = Some ls" "rc = 0" "out = DumpShown ls"
    using ls by (auto simp: dump_segment_def o fh_is_valid_def reliable_size [OF w] Let_def bind_eq_Some_conv)
  have "drop 0 (fdata fs p) = log_bytes rs @ tail" by (simp add: d(1))
  from dump_records [OF w bound refl this d(2), of junk 0] l(1)
  obtain ls2 where r: "dump_loop w fs (Handle p) junk (of_nat (length (fdata fs p))) (of_nat (length (log_bytes rs))) (length rs) = Some ls2"
      "ls = shown_records 0 0 rs @ ls2" by (auto simp: eq_commute [of "Some ls"])
  have "takeWhile shown_valid ls2 = []"
    by (rule dump_tail [OF w _ _ d(3) bound refl r(1)]) (simp_all add: d(1))
  then have "takeWhile shown_valid ls = shown_records 0 0 rs"
    using r(2) shown_records_valid by (simp add: takeWhile_append2)
  then show ?thesis using l by simp
qed

section \<open>Property\<close>

text \<open>
  C40. The dump of a segment and recovery agree: whatever the log file holds, what recovery keeps of it is
  exactly the records that \<^verbatim>\<open>dump-segment\<close> shows as valid before the first line that reports anything else.
\<close>

theorem dump_shows_what_recovery_keeps:
  assumes "reliable w" "seg_opened fs s" "length (fdata fs (log_path s)) < 2 ^ 32"
    and "recover_and_rebuild_index w fs s = Some (st, nxt, s', fs')" "dump_segment w fs junk (log_path s) = Some (rc, out)"
  shows "\<exists>ls. out = DumpShown ls \<and> fdata fs' (log_path s) = log_bytes (map shown_record (takeWhile shown_valid ls))"
proof -
  obtain rs tail where s: "fdata fs (log_path s) = log_bytes rs @ tail" "records_ok rs" "at_tail tail" using log_split by blast
  have "first_record tail \<noteq> None"
    using scan_loops(1) [OF assms(1,2) s(1) assms(3) s(2,3) refl] assms(4) opened_log_size [OF assms(1-3)]
    by (cases "first_record tail") (auto simp: recover_and_rebuild_index_def Let_def)
  then have t: "first_record tail = Some None" using s(3) by (auto simp: at_tail_def)
  then have "fdata fs' (log_path s) = log_bytes rs"
    using recover_spec [OF assms(1,2) s(1) assms(3) s(2) t] assms(4) by auto
  then show ?thesis
    using dump_log [OF assms(1) s(1,2) t assms(3) _ assms(5)] assms(2) by (auto simp: seg_opened_def map_shown_records)
qed

theorem dump_shows_what_recovery_keeps_witness:
  "\<exists>ls. dump_segment ideal_os (sample_fs (log_bytes [sample_record] @ [1, 2, 3])) (\<lambda>_. []) (log_path sample_seg) = Some (0, DumpShown ls) \<and>
     log_bytes (map shown_record (takeWhile shown_valid ls)) = log_bytes [sample_record]"
proof -
  let ?d = "log_bytes [sample_record] @ [1, 2, 3]"
  let ?fs = "sample_fs ?d" and ?p = "log_path sample_seg"
  have d: "fdata ?fs ?p = ?d" by simp
  have sz: "record_size sample_record < 100" by (simp add: sample_record_def record_size_def)
  then have bound: "length (fdata ?fs ?p) < 2 ^ 32" by (simp add: d)
  have t: "first_record [1, 2, 3] = Some None" by (simp add: first_record_def Let_def)
  obtain st nxt s' fs' where r: "recover_and_rebuild_index ideal_os ?fs sample_seg = Some (st, nxt, s', fs')" "fdata fs' ?p = log_bytes [sample_record]"
    using recover_spec [OF reliable_ideal_os sample_opened d bound _ t] sz by auto
  have "dump_loop ideal_os ?fs (Handle ?p) (\<lambda>_. []) (of_nat (length (fdata ?fs ?p))) (of_nat (length (log_bytes [sample_record]))) 1 =
      Some [TruncatedHeader (of_nat (length (log_bytes [sample_record])))]"
    by (subst dump_step [OF reliable_ideal_os refl _ bound refl]) (simp_all add: d)
  then have l: "\<exists>ls. dump_segment ideal_os ?fs (\<lambda>_. []) ?p = Some (0, DumpShown ls)"
    using dump_records [OF reliable_ideal_os bound refl, of 0 "[sample_record]" "[1, 2, 3]" "\<lambda>_. []" 0] sz reliable_open_ro [OF reliable_ideal_os, of ?fs ?p]
      sample_opened [of ?d]
    by (simp add: dump_segment_def fh_is_valid_def reliable_size seg_opened_def d)
  then obtain ls where ls: "dump_segment ideal_os ?fs (\<lambda>_. []) ?p = Some (0, DumpShown ls)" by blast
  from dump_shows_what_recovery_keeps [OF reliable_ideal_os sample_opened bound r(1) ls] r(2)
  have "log_bytes (map shown_record (takeWhile shown_valid ls)) = log_bytes [sample_record]" by auto
  then show ?thesis using ls by blast
qed

end
