(* ===== verification/ClientCommands.thy ===== *)
theory ClientCommands
  imports Client StorageMain
begin

text \<open>
  \<^verbatim>\<open>src/src/cli_main.cpp\<close>, the commands of one request or one loop of requests. A command yields the exit code, what it
  shows (as values instead of text) and the client afterwards. A number in the arguments that cannot be read is
  an exception, which the \<^verbatim>\<open>try\<close> block turns into exit code 1. The waits of the commands are left out.
\<close>

section \<open>Results\<close>

datatype cli_shown =
    NoOutput
  | ShownId u32
  | ShownText string
  | ShownProduced u16 u64
  | ShownFetched FetchResponse
  | ShownTopics "TopicInfoWire list"
  | ShownTopic DescribeTopicResponse
  | ShownJoined JoinGroupResponse
  | ShownOffsets "OffsetEntryWire list"
  | ShownGroup DescribeGroupResponse
  | ShownLag "(i64 \<times> u64 \<times> u64) list" u64
  | ShownCount nat

type_synonym 'w outcome = "(nat \<times> cli_shown \<times> 'w Client) option"

definition failed :: "'w Client \<Rightarrow> 'w outcome" where
  "failed c = Some (1, NoOutput, c)"

text \<open>A number of the arguments, and what is done with it.\<close>

definition with_number :: "'n option \<Rightarrow> 'w Client \<Rightarrow> ('n \<Rightarrow> 'w outcome) \<Rightarrow> 'w outcome" where
  "with_number v c k = (case v of None \<Rightarrow> failed c | Some n \<Rightarrow> k n)"

text \<open>A request whose reply is decoded; no value if the exchange or the decoding fails.\<close>

definition ask :: "'w Net \<Rightarrow> u8 \<Rightarrow> bytes \<Rightarrow> (BodyReader \<Rightarrow> 'm option) \<Rightarrow> 'w Client \<Rightarrow> ('m option \<times> 'w Client) option" where
  "ask net ty body decode c = do {
     (r, c1) \<leftarrow> rpc net ty body c;
     Some (Option.bind r (\<lambda>resp. decode (make_BodyReader (fr_body resp))), c1)
   }"

definition ask_and_show :: "'w Net \<Rightarrow> u8 \<Rightarrow> bytes \<Rightarrow> (BodyReader \<Rightarrow> 'm option) \<Rightarrow> ('m \<Rightarrow> cli_shown) \<Rightarrow> 'w Client \<Rightarrow> 'w outcome" where
  "ask_and_show net ty body decode shw c = do {
     (r, c1) \<leftarrow> ask net ty body decode c;
     case r of None \<Rightarrow> failed c1 | Some msg \<Rightarrow> Some (0, shw msg, c1)
   }"

text \<open>A request for which success is enough.\<close>

definition ask_ok :: "'w Net \<Rightarrow> u8 \<Rightarrow> bytes \<Rightarrow> 'w Client \<Rightarrow> 'w outcome" where
  "ask_ok net ty body c = do {
     (r, c1) \<leftarrow> rpc net ty body c;
     case r of None \<Rightarrow> failed c1 | Some _ \<Rightarrow> Some (0, NoOutput, c1)
   }"

section \<open>Probes of the protocol\<close>

text \<open>Connections that are only held; \<^verbatim>\<open>seconds\<close> is the time of the wait.\<close>

fun hold_connections :: "'w Net \<Rightarrow> nat \<Rightarrow> 'w Client \<Rightarrow> nat \<times> 'w Client" where
  "hold_connections net 0 c = (0, c)"
| "hold_connections net (Suc n) c =
     (let (made, _, w) = net_connect net (cl_world c); (k, c1) = hold_connections net n (c\<lparr> cl_world := w \<rparr>)
      in (if made then Suc k else k, c1))"

definition cmd_hold_connections :: "'w Net \<Rightarrow> string list \<Rightarrow> 'w Client \<Rightarrow> 'w outcome" where
  "cmd_hold_connections net args c =
     with_number (if args = [] then Some 10 else map_option unat (stoul_u32 (hd args))) c (\<lambda>count.
       with_number (if length args > 1 then stoul_u32 (args ! 1) else Some 5) c (\<lambda>seconds.
         let (connected, c1) = hold_connections net count c in Some (0, ShownCount connected, c1)))"

text \<open>Two bytes of a length, then nothing; the result of the read does not change the exit code.\<close>

definition cmd_stall_frame :: "'w Net \<Rightarrow> 'w Client \<Rightarrow> 'w outcome" where
  "cmd_stall_frame net c =
     (let (res, c1) = client_send_bytes net [0, 0] c
      in if res \<noteq> SendSuccess then failed c1
         else do { (_, _, evs) \<leftarrow> recv_exact (cl_in c1) 1; Some (0, NoOutput, c1\<lparr> cl_in := evs \<rparr>) })"

definition cmd_shutdown :: "'w Net \<Rightarrow> 'w Client \<Rightarrow> 'w outcome" where
  "cmd_shutdown net c = do {
     (r, c1) \<leftarrow> rpc net SHUTDOWN [] c;
     Some (0, (case r of None \<Rightarrow> NoOutput | Some resp \<Rightarrow> ShownId (fr_request_id resp)), c1)
   }"

definition cmd_ping :: "'w Net \<Rightarrow> 'w Client \<Rightarrow> 'w outcome" where
  "cmd_ping net c = do {
     (r, c1) \<leftarrow> rpc net PING [] c;
     case r of None \<Rightarrow> failed c1
     | Some resp \<Rightarrow> if fr_type resp = PONG then Some (0, ShownId (fr_request_id resp), c1) else failed c1
   }"

definition cmd_echo :: "'w Net \<Rightarrow> string list \<Rightarrow> 'w Client \<Rightarrow> 'w outcome" where
  "cmd_echo net args c = do {
     (r, c1) \<leftarrow> rpc net ECHO (bytes_of_chars (if args = [] then ''hello'' else hd args)) c;
     case r of None \<Rightarrow> failed c1 | Some resp \<Rightarrow> Some (0, ShownText (chars_of_bytes (fr_body resp)), c1)
   }"

text \<open>Byte by byte, whatever each \<^verbatim>\<open>send_all\<close> returns.\<close>

definition cmd_slow_echo :: "'w Net \<Rightarrow> string list \<Rightarrow> 'w Client \<Rightarrow> 'w outcome" where
  "cmd_slow_echo net args c =
     (let (req, c1) = next_request ECHO (bytes_of_chars (if args = [] then ''slow'' else hd args)) c
      in do {
        encoded \<leftarrow> frame_encode req;
        let c2 = foldl (\<lambda>c b. snd (client_send_bytes net [b] c)) c1 encoded;
        (done, resp, c3) \<leftarrow> read_response_frame default_Frame c2;
        if done then Some (0, ShownText (chars_of_bytes (fr_body resp)), c3) else failed c3
      })"

text \<open>The response to something wrong: an error frame with the expected code.\<close>

definition expect_error :: "u16 \<Rightarrow> 'w Client \<Rightarrow> (bool \<times> 'w Client) option" where
  "expect_error ecode c = do {
     (done, resp, c1) \<leftarrow> read_response_frame default_Frame c;
     Some (done \<and> map_option fst (parse_error_frame resp) = Some ecode, c1)
   }"

definition cmd_big_frame :: "'w Net \<Rightarrow> string list \<Rightarrow> 'w Client \<Rightarrow> 'w outcome" where
  "cmd_big_frame net args c =
     with_number (if args = [] then Some (2 * 1024 * 1024) else stoul_u32 (hd args)) c (\<lambda>size.
       let (res, c1) = client_send_bytes net (fc_write_u32 size) c
       in if res \<noteq> SendSuccess then failed c1
          else do { (good, c2) \<leftarrow> expect_error FRAME_TOO_LARGE c1; if good then Some (0, NoOutput, c2) else failed c2 })"

definition cmd_garbage :: "'w Net \<Rightarrow> 'w Client \<Rightarrow> 'w outcome" where
  "cmd_garbage net c =
     (let (res, c1) = client_send_bytes net (fc_write_u32 2) c
      in if res \<noteq> SendSuccess then failed c1
         else let (res2, c2) = client_send_bytes net [0xAA, 0xBB] c1
           in if res2 \<noteq> SendSuccess then failed c2
              else do { (good, c3) \<leftarrow> expect_error MALFORMED_FRAME c2; if good then Some (0, NoOutput, c3) else failed c3 })"

text \<open>A \<^verbatim>\<open>PRODUCE\<close> whose key length lies, then a \<^verbatim>\<open>PING\<close> on the same connection.\<close>

definition cmd_malformed_produce :: "'w Net \<Rightarrow> 'w Client \<Rightarrow> 'w outcome" where
  "cmd_malformed_produce net c =
     (let body = bw_write_u8 (byte_of_char (CHR ''A'')) (bw_write_u32 10000 (bw_write_u16 1 (bw_write_i32 0 (bw_write_string ''orders'' []))));
          (req, c1) = next_request PRODUCE body c
      in do {
        (res, c2) \<leftarrow> client_send net req c1;
        if res \<noteq> SendSuccess then failed c2
        else do {
          (good, c3) \<leftarrow> expect_error MALFORMED_BODY c2;
          if \<not> good then failed c3 else ask_ok net PING [] c3
        }
      })"

definition cmd_produce_oversized :: "'w Net \<Rightarrow> string list \<Rightarrow> 'w Client \<Rightarrow> 'w outcome" where
  "cmd_produce_oversized net args c =
     (case args of [] \<Rightarrow> failed c
      | topic_name # _ \<Rightarrow>
          (let msg = \<lparr> pr_topic = topic_name, pr_partition = 0, pr_record_count = 1,
                 pr_records = [\<lparr> prp_key = [], prp_value = replicate 1048549 (byte_of_char (CHR ''X'')) \<rparr>] \<rparr>;
               body = encode_ProduceRequest msg []
           in if unat HEADER_SIZE + length body > unat MAX_FRAME_LENGTH then failed c
              else let (req, c1) = next_request PRODUCE body c
                in do {
                  (res, c2) \<leftarrow> client_send net req c1;
                  if res \<noteq> SendSuccess then failed c2
                  else do { (good, c3) \<leftarrow> expect_error RECORD_TOO_LARGE c2; if good then Some (0, NoOutput, c3) else failed c3 }
                }))"

definition cmd_unknown_type :: "'w Net \<Rightarrow> 'w Client \<Rightarrow> 'w outcome" where
  "cmd_unknown_type net c =
     (let (req, c1) = next_request 0x7E [] c
      in do {
        (res, c2) \<leftarrow> client_send net req c1;
        if res \<noteq> SendSuccess then failed c2
        else do {
          (good, c3) \<leftarrow> expect_error UNKNOWN_TYPE c2;
          if \<not> good then failed c3
          else let (ping_req, c4) = next_request PING [] c3
            in do {
              (done, ping_resp, c5) \<leftarrow> client_exchange net ping_req default_Frame c4;
              if done \<and> fr_type ping_resp = PONG then Some (0, NoOutput, c5) else failed c5
            }
        }
      })"

text \<open>Requests back to back: all are sent in one piece, then the responses are read in order.\<close>

fun pipeline_requests :: "nat \<Rightarrow> 'w Client \<Rightarrow> Frame list \<times> 'w Client" where
  "pipeline_requests 0 c = ([], c)"
| "pipeline_requests (Suc n) c =
     (let (req, c1) = next_request PING [] c; (reqs, c2) = pipeline_requests n c1 in (req # reqs, c2))"

fun pipeline_responses :: "Frame list \<Rightarrow> 'w Client \<Rightarrow> (bool \<times> 'w Client) option" where
  "pipeline_responses [] c = Some (True, c)"
| "pipeline_responses (req # reqs) c = do {
     (done, resp, c1) \<leftarrow> read_response_frame default_Frame c;
     if \<not> done then Some (False, c1)
     else if fr_type resp \<noteq> PONG \<or> fr_request_id resp \<noteq> fr_request_id req then Some (False, c1)
     else pipeline_responses reqs c1
   }"

definition cmd_pipeline :: "'w Net \<Rightarrow> string list \<Rightarrow> 'w Client \<Rightarrow> 'w outcome" where
  "cmd_pipeline net args c =
     with_number (if args = [] then Some 100 else stoul_u32 (hd args)) c (\<lambda>count.
       let (reqs, c1) = pipeline_requests (unat count) c
       in do {
         encs \<leftarrow> those (map frame_encode reqs);
         let (res, c2) = client_send_bytes net (concat encs) c1;
         if res \<noteq> SendSuccess then failed c2
         else do { (good, c3) \<leftarrow> pipeline_responses reqs c2; if good then Some (0, ShownCount (unat count), c3) else failed c3 }
       })"

section \<open>Topics and records\<close>

text \<open>The arguments of \<^verbatim>\<open>create-topic\<close>; the outer \<open>None\<close> is undefined behaviour of \<^verbatim>\<open>atoi\<close>, the inner one an exception.\<close>

definition create_word :: "string \<Rightarrow> CreateTopicRequest \<Rightarrow> CreateTopicRequest option" where
  "create_word arg m =
     (if take 2 arg \<noteq> ''--'' \<and> ct_partitions m = 1 then map_option (\<lambda>v. m\<lparr> ct_partitions := ucast v \<rparr>) (atoi arg) else Some m)"

fun cli_create_opts :: "string list \<Rightarrow> CreateTopicRequest \<Rightarrow> CreateTopicRequest option option" where
  "cli_create_opts [] m = Some (Some m)"
| "cli_create_opts [arg] m = map_option Some (create_word arg m)"
| "cli_create_opts (arg # val # rest) m =
     (if arg = ''--retention-ms'' then
        (case stoull val of None \<Rightarrow> Some None | Some v \<Rightarrow> cli_create_opts rest (m\<lparr> ct_retention_ms := v, ct_has_retention := True \<rparr>))
      else if arg = ''--retention-bytes'' then
        (case stoull val of None \<Rightarrow> Some None | Some v \<Rightarrow> cli_create_opts rest (m\<lparr> ct_retention_bytes := v, ct_has_retention := True \<rparr>))
      else Option.bind (create_word arg m) (cli_create_opts (val # rest)))"

definition cmd_create_topic :: "'w Net \<Rightarrow> string list \<Rightarrow> 'w Client \<Rightarrow> 'w outcome" where
  "cmd_create_topic net args c =
     (case args of [] \<Rightarrow> failed c
      | topic_name # opts \<Rightarrow> do {
          m \<leftarrow> cli_create_opts opts \<lparr> ct_topic = topic_name, ct_partitions = 1, ct_retention_ms = 0, ct_retention_bytes = 0, ct_has_retention = False \<rparr>;
          with_number m c (\<lambda>m. ask_ok net CREATE_TOPIC (encode_CreateTopicRequest m []) c)
        })"

definition produce_word :: "string \<Rightarrow> string \<Rightarrow> string" where
  "produce_word arg value_str = (if value_str = [] \<and> take 2 arg \<noteq> ''--'' then arg else value_str)"

fun cli_produce_opts :: "string list \<Rightarrow> string \<times> string \<times> i32 \<Rightarrow> (string \<times> string \<times> i32) option" where
  "cli_produce_opts [] out = Some out"
| "cli_produce_opts [arg] (value_str, key, part) = Some (produce_word arg value_str, key, part)"
| "cli_produce_opts (arg # val # rest) (value_str, key, part) =
     (if arg = ''--partition'' then Option.bind (stoi val) (\<lambda>p. cli_produce_opts rest (value_str, key, p))
      else if arg = ''--key'' then cli_produce_opts rest (value_str, val, part)
      else cli_produce_opts (val # rest) (produce_word arg value_str, key, part))"

definition cmd_produce :: "'w Net \<Rightarrow> CliArgs \<Rightarrow> 'w Client \<Rightarrow> 'w outcome" where
  "cmd_produce net a c =
     (case ca_args a of [] \<Rightarrow> failed c
      | topic_name # opts \<Rightarrow>
          with_number (cli_produce_opts opts ([], ca_key a, ca_partition a)) c (\<lambda>(value_str, key, part).
            ask_and_show net PRODUCE
              (encode_ProduceRequest \<lparr> pr_topic = topic_name, pr_partition = part, pr_record_count = 1,
                 pr_records = [\<lparr> prp_key = bytes_of_chars key, prp_value = bytes_of_chars value_str \<rparr>] \<rparr> [])
              decode_ProduceResponse (\<lambda>m. ShownProduced (ps_partition m) (ps_base_offset m)) c))"

text \<open>The records of one batch of \<^verbatim>\<open>produce-many\<close>, with keys numbered through all batches.\<close>

definition many_key :: "CliArgs \<Rightarrow> nat \<Rightarrow> bytes" where
  "many_key a i =
     (if ca_key_prefix a \<noteq> [] then bytes_of_chars (ca_key_prefix a @ to_string i)
      else if ca_key a \<noteq> [] then bytes_of_chars (ca_key a @ ''_'' @ to_string i)
      else [])"

definition many_batch :: "CliArgs \<Rightarrow> string \<Rightarrow> nat \<Rightarrow> nat \<Rightarrow> nat \<Rightarrow> ProduceRequest" where
  "many_batch a topic_name val_bytes produced n =
     \<lparr> pr_topic = topic_name, pr_partition = ca_partition a, pr_record_count = of_nat n,
        pr_records = map (\<lambda>i. \<lparr> prp_key = many_key a (produced + i), prp_value = replicate val_bytes (byte_of_char (CHR ''X'')) \<rparr>) [0..<n] \<rparr>"

partial_function (option) produce_many_loop ::
  "'w Net \<Rightarrow> CliArgs \<Rightarrow> string \<Rightarrow> nat \<Rightarrow> nat \<Rightarrow> nat \<Rightarrow> nat \<Rightarrow> 'w Client \<Rightarrow> (bool \<times> 'w Client) option" where
  "produce_many_loop net a topic_name total_count batch_sz val_bytes produced c =
     (if produced < total_count then
        (let n = min batch_sz (total_count - produced)
         in do {
           (r, c1) \<leftarrow> rpc net PRODUCE (encode_ProduceRequest (many_batch a topic_name val_bytes produced n) []) c;
           if r = None then Some (False, c1)
           else produce_many_loop net a topic_name total_count batch_sz val_bytes (produced + n) c1
         })
      else Some (True, c))"

definition cmd_produce_many :: "'w Net \<Rightarrow> CliArgs \<Rightarrow> 'w Client \<Rightarrow> 'w outcome" where
  "cmd_produce_many net a c =
     (case ca_args a of [] \<Rightarrow> failed c
      | topic_name # rest \<Rightarrow>
          with_number (case rest of [] \<Rightarrow> Some (ca_size a) | n # _ \<Rightarrow> map_option unat (stoul_u32 n)) c (\<lambda>total_count. do {
            let batch_sz = (if ca_batch a > 0 then ca_batch a else 100);
            let val_bytes = (if ca_size a > 0 then ca_size a else 64);
            (good, c1) \<leftarrow> produce_many_loop net a topic_name total_count batch_sz val_bytes 0 c;
            if good then Some (0, ShownCount total_count, c1) else failed c1
          }))"

text \<open>The number of a partition: \<^verbatim>\<open>atoi\<close> and a cast to 16 bits.\<close>

definition partition_number :: "string \<Rightarrow> u16 option" where
  "partition_number s = map_option ucast (atoi s)"

text \<open>\<^verbatim>\<open>slow-reader\<close>: requests without reading the responses, until the server closes the connection.\<close>

partial_function (option) slow_reader_loop :: "'w Net \<Rightarrow> string \<Rightarrow> u16 \<Rightarrow> nat \<Rightarrow> 'w Client \<Rightarrow> (nat \<times> 'w Client) option" where
  "slow_reader_loop net topic_name p sent_count c =
     (let (req, c1) = next_request FETCH (encode_FetchRequest \<lparr> fq_topic = topic_name, fq_partition = p, fq_start_offset = 0,
                fq_max_bytes = 1024 * 1024, fq_max_messages = 100 \<rparr> []) c
      in do {
        (res, c2) \<leftarrow> client_send net req c1;
        if res \<noteq> SendSuccess then Some (sent_count, c2) else slow_reader_loop net topic_name p (sent_count + 1) c2
      })"

definition cmd_slow_reader :: "'w Net \<Rightarrow> string list \<Rightarrow> 'w Client \<Rightarrow> 'w outcome" where
  "cmd_slow_reader net args c =
     (case args of
        topic_name # part # _ \<Rightarrow> do {
          p \<leftarrow> partition_number part;
          (n, c1) \<leftarrow> slow_reader_loop net topic_name p 0 c;
          Some (0, ShownCount n, c1)
        }
      | _ \<Rightarrow> failed c)"

definition cmd_fetch :: "'w Net \<Rightarrow> CliArgs \<Rightarrow> 'w Client \<Rightarrow> 'w outcome" where
  "cmd_fetch net a c =
     (case ca_args a of
        topic_name # part # start # _ \<Rightarrow> do {
          p \<leftarrow> partition_number part;
          with_number (stoull start) c (\<lambda>offset.
            ask_and_show net FETCH
              (encode_FetchRequest \<lparr> fq_topic = topic_name, fq_partition = p, fq_start_offset = offset, fq_max_bytes = ca_max_bytes a,
                 fq_max_messages = ca_max_messages a \<rparr> [])
              decode_FetchResponse ShownFetched c)
        }
      | _ \<Rightarrow> failed c)"

text \<open>The loop of \<^verbatim>\<open>consume\<close>; the records it prints are part of the history.\<close>

definition show_records :: "string \<Rightarrow> u16 \<Rightarrow> FetchRecordWire list \<Rightarrow> 'w Client \<Rightarrow> 'w Client" where
  "show_records topic_name p rs c = c\<lparr> cl_log := cl_log c @ map (ShowedRecord topic_name p) rs \<rparr>"

partial_function (option) consume_loop ::
  "'w Net \<Rightarrow> CliArgs \<Rightarrow> string \<Rightarrow> u16 \<Rightarrow> u64 \<Rightarrow> 'w Client \<Rightarrow> (nat \<times> 'w Client) option" where
  "consume_loop net a topic_name p cur_offset c = do {
     (r, c1) \<leftarrow> rpc net FETCH (encode_FetchRequest \<lparr> fq_topic = topic_name, fq_partition = p, fq_start_offset = cur_offset,
                fq_max_bytes = ca_max_bytes a, fq_max_messages = ca_max_messages a \<rparr> []) c;
     case r of
       None \<Rightarrow> Some (0, c1)
     | Some resp \<Rightarrow>
         (case decode_FetchResponse (make_BodyReader (fr_body resp)) of
            None \<Rightarrow> Some (1, c1)
          | Some resp_msg \<Rightarrow>
              (let c2 = show_records topic_name p (fs_records resp_msg) c1
               in if fs_records resp_msg \<noteq> [] then consume_loop net a topic_name p (fs_next_offset resp_msg) c2
                  else if ca_follow a then consume_loop net a topic_name p cur_offset c2
                  else Some (0, c2)))
   }"

definition cmd_consume :: "'w Net \<Rightarrow> CliArgs \<Rightarrow> 'w Client \<Rightarrow> 'w outcome" where
  "cmd_consume net a c =
     (case ca_args a of
        topic_name # part # _ \<Rightarrow> do {
          p \<leftarrow> partition_number part;
          (code, c1) \<leftarrow> consume_loop net a topic_name p (ca_from_offset a) c;
          Some (code, NoOutput, c1)
        }
      | _ \<Rightarrow> failed c)"

definition cmd_topics :: "'w Net \<Rightarrow> 'w Client \<Rightarrow> 'w outcome" where
  "cmd_topics net c = ask_and_show net LIST_TOPICS (encode_empty () []) decode_ListTopicsResponse (\<lambda>m. ShownTopics (ls_topics m)) c"

definition describe_topic :: "'w Net \<Rightarrow> string \<Rightarrow> 'w Client \<Rightarrow> (DescribeTopicResponse option \<times> 'w Client) option" where
  "describe_topic net topic_name c =
     ask net DESCRIBE_TOPIC (encode_DescribeTopicRequest \<lparr> dq_topic = topic_name \<rparr> []) decode_DescribeTopicResponse c"

definition cmd_describe :: "'w Net \<Rightarrow> string list \<Rightarrow> 'w Client \<Rightarrow> 'w outcome" where
  "cmd_describe net args c =
     (case args of [] \<Rightarrow> failed c
      | topic_name # _ \<Rightarrow> do {
          (r, c1) \<leftarrow> describe_topic net topic_name c;
          case r of None \<Rightarrow> failed c1 | Some m \<Rightarrow> Some (0, ShownTopic m, c1)
        })"

section \<open>Groups\<close>

definition strategy_code :: "CliArgs \<Rightarrow> u8" where
  "strategy_code a = (if ca_strategy a = ''roundrobin'' then 1 else 0)"

definition cmd_join_group :: "'w Net \<Rightarrow> CliArgs \<Rightarrow> 'w Client \<Rightarrow> 'w outcome" where
  "cmd_join_group net a c =
     (case ca_args a of
        group_id # topics_raw # _ \<Rightarrow>
          (let topics = split_commas [] topics_raw
           in ask_and_show net JOIN_GROUP
                (encode_JoinGroupRequest \<lparr> jq_group_id = group_id, jq_member_id = ca_member a, jq_session_timeout_ms = ca_session_timeout_ms a,
                   jq_strategy = strategy_code a, jq_topic_count = of_nat (length topics), jq_topics = topics \<rparr> [])
                decode_JoinGroupResponse ShownJoined c)
      | _ \<Rightarrow> failed c)"

definition cmd_heartbeat :: "'w Net \<Rightarrow> string list \<Rightarrow> 'w Client \<Rightarrow> 'w outcome" where
  "cmd_heartbeat net args c =
     (case args of
        group_id # member_id # gen # _ \<Rightarrow>
          with_number (stoul_u32 gen) c (\<lambda>g.
            ask_ok net HEARTBEAT (encode_HeartbeatRequest \<lparr> hq_group_id = group_id, hq_member_id = member_id, hq_generation = g \<rparr> []) c)
      | _ \<Rightarrow> failed c)"

definition cmd_leave_group :: "'w Net \<Rightarrow> string list \<Rightarrow> 'w Client \<Rightarrow> 'w outcome" where
  "cmd_leave_group net args c =
     (case args of
        group_id # member_id # _ \<Rightarrow>
          ask_ok net LEAVE_GROUP (encode_LeaveGroupRequest \<lparr> lq_group_id = group_id, lq_member_id = member_id \<rparr> []) c
      | _ \<Rightarrow> failed c)"

definition cmd_commit_offset :: "'w Net \<Rightarrow> CliArgs \<Rightarrow> 'w Client \<Rightarrow> 'w outcome" where
  "cmd_commit_offset net a c =
     (case ca_args a of
        group_id # topic_name # part # off # _ \<Rightarrow>
          with_number (stoul_u32 part) c (\<lambda>p. with_number (stoull off) c (\<lambda>offset.
            ask_ok net COMMIT_OFFSET
              (encode_CommitOffsetRequest \<lparr> cq_group_id = group_id, cq_member_id = ca_member a, cq_generation = ca_generation a, cq_count = 1,
                 cq_entries = [\<lparr> ci_topic = topic_name, ci_partition = ucast p, ci_offset = offset \<rparr>] \<rparr> []) c))
      | _ \<Rightarrow> failed c)"

definition fetch_offsets :: "'w Net \<Rightarrow> string \<Rightarrow> TopicPartitionWire list \<Rightarrow> 'w Client \<Rightarrow> (FetchOffsetResponse option \<times> 'w Client) option" where
  "fetch_offsets net group_id queries c =
     ask net FETCH_OFFSET (encode_FetchOffsetRequest \<lparr> oq_group_id = group_id, oq_count = of_nat (length queries), oq_queries = queries \<rparr> [])
       decode_FetchOffsetResponse c"

definition queries_for :: "string \<Rightarrow> u16 list \<Rightarrow> TopicPartitionWire list" where
  "queries_for topic_name ps = map (\<lambda>p. \<lparr> tp_topic = topic_name, tp_partition = p \<rparr>) ps"

text \<open>The partitions given, or all of the topic.\<close>

definition offset_partitions :: "'w Net \<Rightarrow> CliArgs \<Rightarrow> string \<Rightarrow> 'w Client \<Rightarrow> (u16 list option \<times> 'w Client) option" where
  "offset_partitions net a topic_name c =
     (if ca_partitions a \<noteq> [] then
        Some (map_option (map ucast) (those (map stoul_u32 (split_commas [] (ca_partitions a)))), c)
      else do {
        (r, c1) \<leftarrow> describe_topic net topic_name c;
        Some (map_option (\<lambda>m. map of_nat [0..<unat (ds_partitions m)]) r, c1)
      })"

definition cmd_fetch_offsets :: "'w Net \<Rightarrow> CliArgs \<Rightarrow> 'w Client \<Rightarrow> 'w outcome" where
  "cmd_fetch_offsets net a c =
     (case ca_args a of
        group_id # topic_name # _ \<Rightarrow> do {
          (parts, c1) \<leftarrow> offset_partitions net a topic_name c;
          case parts of None \<Rightarrow> failed c1
          | Some ps \<Rightarrow> do {
              (r, c2) \<leftarrow> fetch_offsets net group_id (queries_for topic_name ps) c1;
              case r of None \<Rightarrow> failed c2 | Some m \<Rightarrow> Some (0, ShownOffsets (os_offsets m), c2)
            }
        }
      | _ \<Rightarrow> failed c)"

definition cmd_describe_group :: "'w Net \<Rightarrow> string list \<Rightarrow> 'w Client \<Rightarrow> 'w outcome" where
  "cmd_describe_group net args c =
     (case args of [] \<Rightarrow> failed c
      | group_id # _ \<Rightarrow>
          ask_and_show net DESCRIBE_GROUP (encode_DescribeGroupRequest \<lparr> gq_group_id = group_id \<rparr> []) decode_DescribeGroupResponse ShownGroup c)"

text \<open>The lag of a partition: nothing committed counts as everything, an offset past the end as nothing.\<close>

definition partition_lag :: "u64 \<Rightarrow> i64 \<Rightarrow> u64" where
  "partition_lag hw committed = (if sint committed < 0 then hw else if hw \<ge> committed then hw - committed else 0)"

definition committed_of :: "OffsetEntryWire list \<Rightarrow> u16 \<Rightarrow> i64" where
  "committed_of offs p =
     (case map_of (rev (map (\<lambda>e. (oe_partition e, oe_offset e)) offs)) p of None \<Rightarrow> - 1 | Some v \<Rightarrow> v)"

definition cmd_group_lag :: "'w Net \<Rightarrow> string list \<Rightarrow> 'w Client \<Rightarrow> 'w outcome" where
  "cmd_group_lag net args c =
     (case args of
        group_id # topic_name # _ \<Rightarrow> do {
          (r, c1) \<leftarrow> describe_topic net topic_name c;
          case r of None \<Rightarrow> failed c1
          | Some dt \<Rightarrow> do {
              let ps = map of_nat [0..<unat (ds_partitions dt)];
              (r2, c2) \<leftarrow> fetch_offsets net group_id (queries_for topic_name ps) c1;
              case r2 of None \<Rightarrow> failed c2
              | Some fo \<Rightarrow>
                  (let rows = map (\<lambda>p. let hw = po_next_offset (ds_partition_offsets dt ! unat p); com = committed_of (os_offsets fo) p
                                       in (com, hw, partition_lag hw com)) ps
                   in Some (0, ShownLag rows (foldl (\<lambda>t r. t + snd (snd r)) 0 rows), c2))
            }
        }
      | _ \<Rightarrow> failed c)"

end
