(* ===== verification/ConsumeGroup.thy ===== *)
theory ConsumeGroup
  imports ClientCommands
begin

text \<open>
  \<^verbatim>\<open>src/src/cli_main.cpp\<close>, the command \<^verbatim>\<open>consume-group\<close>: a member of a consumer group that joins, reads its
  partitions in turn, prints the records, commits what it has printed, and joins again when the server fences it.
  The clock (in nanoseconds) and the stop flag are arguments, read through a counter. The waits are left out.
  Printed records and resets are events of the client's history. The main property is about that history and
  holds whatever the other end answers: an offset is committed only for records that have been printed.
\<close>

section \<open>State\<close>

record Surroundings =
  steady_clock :: "nat \<Rightarrow> int"
  stop_requested :: "nat \<Rightarrow> bool"

record 'w Consumer =
  cs_client :: "'w Client"
  cs_member_id :: string
  cs_generation :: u32
  cs_heartbeat_interval_ms :: u32
  cs_assignments :: "TopicPartitionWire list"
  cs_positions :: "u16 \<rightharpoonup> u64"
  cs_uncommitted :: "(u16 \<times> u64) list"
  cs_since_commit :: nat
  cs_total :: nat
  cs_last_heartbeat :: int
  cs_last_record :: int

definition read_clock :: "Surroundings \<Rightarrow> 'w Consumer \<Rightarrow> int \<times> 'w Consumer" where
  "read_clock env s =
     (let c = cs_client s in (steady_clock env (cl_reads c), s\<lparr> cs_client := c\<lparr> cl_reads := cl_reads c + 1 \<rparr> \<rparr>))"

definition read_stop :: "Surroundings \<Rightarrow> 'w Consumer \<Rightarrow> bool \<times> 'w Consumer" where
  "read_stop env s =
     (let c = cs_client s in (stop_requested env (cl_reads c), s\<lparr> cs_client := c\<lparr> cl_reads := cl_reads c + 1 \<rparr> \<rparr>))"

text \<open>\<^verbatim>\<open>std::map\<close>: an association list in the order of the keys.\<close>

fun ordered_put :: "'k :: linorder \<Rightarrow> 'v \<Rightarrow> ('k \<times> 'v) list \<Rightarrow> ('k \<times> 'v) list" where
  "ordered_put k v [] = [(k, v)]"
| "ordered_put k v ((k', v') # xs) =
     (if k < k' then (k, v) # (k', v') # xs else if k = k' then (k, v) # xs else (k', v') # ordered_put k v xs)"

definition initial_consumer :: "Surroundings \<Rightarrow> CliArgs \<Rightarrow> 'w Client \<Rightarrow> 'w Consumer" where
  "initial_consumer env a c =
     \<lparr> cs_client = c\<lparr> cl_reads := cl_reads c + 2 \<rparr>, cs_member_id = ca_member a, cs_generation = 0,
        cs_heartbeat_interval_ms = ca_session_timeout_ms a div 3, cs_assignments = [], cs_positions = Map.empty,
        cs_uncommitted = [], cs_since_commit = 0, cs_total = 0,
        cs_last_heartbeat = steady_clock env (cl_reads c), cs_last_record = steady_clock env (cl_reads c + 1) \<rparr>"

section \<open>Joining\<close>

fun reconnect :: "'w Net \<Rightarrow> nat \<Rightarrow> 'w Client \<Rightarrow> 'w Client" where
  "reconnect net 0 c = c"
| "reconnect net (Suc n) c = (let (made, c1) = connect_socket net c in if made then c1 else reconnect net n c1)"

definition error_code :: "Frame \<Rightarrow> u16" where
  "error_code resp = (case parse_error_frame resp of None \<Rightarrow> 0 | Some (ecode, _) \<Rightarrow> ecode)"

definition join_body :: "CliArgs \<Rightarrow> string \<Rightarrow> string \<Rightarrow> string \<Rightarrow> bytes" where
  "join_body a group_id topic_name member_id =
     encode_JoinGroupRequest \<lparr> jq_group_id = group_id, jq_member_id = member_id, jq_session_timeout_ms = ca_session_timeout_ms a,
       jq_strategy = strategy_code a, jq_topic_count = 1, jq_topics = [topic_name] \<rparr> []"

text \<open>The same request on a new connection, if the old one is gone; its result is only seen in the response frame.\<close>

definition join_retry :: "'w Net \<Rightarrow> Frame \<Rightarrow> Frame \<Rightarrow> 'w Client \<Rightarrow> (Frame \<times> 'w Client) option" where
  "join_retry net req resp c =
     (if cl_valid c then Some (resp, c)
      else let c1 = reconnect net 25 c
        in if cl_valid c1 then
             do { (_, resp1, c2) \<leftarrow> send_and_receive net (req\<lparr> fr_request_id := cl_req_id c1 \<rparr>) resp (c1\<lparr> cl_req_id := cl_req_id c1 + 1 \<rparr>);
                  Some (resp1, c2) }
           else Some (resp, c1))"

text \<open>The request, and once more without a member name if the server does not know it.\<close>

definition join_exchange ::
  "'w Net \<Rightarrow> CliArgs \<Rightarrow> string \<Rightarrow> string \<Rightarrow> string \<Rightarrow> 'w Client \<Rightarrow> (bool \<times> Frame \<times> string \<times> 'w Client) option" where
  "join_exchange net a group_id topic_name member_id c =
     (let (req, c1) = next_request JOIN_GROUP (join_body a group_id topic_name member_id) c
      in do {
        (done, resp, c2) \<leftarrow> send_and_receive net req default_Frame c1;
        if done then Some (True, resp, member_id, c2)
        else do {
          (resp1, c3) \<leftarrow> join_retry net req resp c2;
          if fr_type resp1 = MSG_ERROR \<and> error_code resp1 = UNKNOWN_GROUP_OR_MEMBER then
            (let (req2, c4) = next_request JOIN_GROUP (join_body a group_id topic_name []) c3
             in do { (done2, resp2, c5) \<leftarrow> send_and_receive net req2 resp1 c4; Some (done2, resp2, [], c5) })
          else Some (False, resp1, member_id, c3)
        }
      })"

text \<open>Where to start without a committed offset.\<close>

definition offsets_at :: "DescribeTopicResponse option \<Rightarrow> u16 \<Rightarrow> PartitionOffsetWire option" where
  "offsets_at r p =
     (case r of None \<Rightarrow> None
      | Some m \<Rightarrow> if unat p < length (ds_partition_offsets m) then Some (ds_partition_offsets m ! unat p) else None)"

definition reset_position :: "'w Net \<Rightarrow> CliArgs \<Rightarrow> string \<Rightarrow> u16 \<Rightarrow> 'w Client \<Rightarrow> (u64 \<times> 'w Client) option" where
  "reset_position net a topic_name p c = do {
     (r, c1) \<leftarrow> describe_topic net topic_name c;
     Some (case offsets_at r p of
             None \<Rightarrow> 0
           | Some po \<Rightarrow> if ca_reset a = ''latest'' then po_next_offset po else po_earliest po, c1)
   }"

fun load_positions ::
  "'w Net \<Rightarrow> CliArgs \<Rightarrow> string \<Rightarrow> OffsetEntryWire list \<Rightarrow> (u16 \<rightharpoonup> u64) \<Rightarrow> 'w Client \<Rightarrow> ((u16 \<rightharpoonup> u64) \<times> 'w Client) option" where
  "load_positions net a topic_name [] pos c = Some (pos, c)"
| "load_positions net a topic_name (e # es) pos c =
     (if sint (oe_offset e) \<ge> 0 then load_positions net a topic_name es (pos(oe_partition e \<mapsto> oe_offset e)) c
      else do {
        (o', c1) \<leftarrow> reset_position net a topic_name (oe_partition e) c;
        load_positions net a topic_name es (pos(oe_partition e \<mapsto> o')) c1
      })"

definition start_positions :: "'w Net \<Rightarrow> CliArgs \<Rightarrow> string \<Rightarrow> string \<Rightarrow> 'w Consumer \<Rightarrow> (bool \<times> 'w Consumer) option" where
  "start_positions net a group_id topic_name s =
     (if cs_assignments s = [] then Some (True, s)
      else do {
        (r, c1) \<leftarrow> fetch_offsets net group_id (cs_assignments s) (cs_client s);
        case r of
          None \<Rightarrow> Some (False, s\<lparr> cs_client := c1 \<rparr>)
        | Some m \<Rightarrow> do {
            (pos, c2) \<leftarrow> load_positions net a topic_name (os_offsets m) (cs_positions s) c1;
            Some (True, s\<lparr> cs_client := c2, cs_positions := pos \<rparr>)
          }
      })"

definition do_join ::
  "'w Net \<Rightarrow> Surroundings \<Rightarrow> CliArgs \<Rightarrow> string \<Rightarrow> string \<Rightarrow> 'w Consumer \<Rightarrow> (bool \<times> 'w Consumer) option" where
  "do_join net env a group_id topic_name s =
     (let c = (if cl_valid (cs_client s) then cs_client s else reconnect net 25 (cs_client s))
      in if \<not> cl_valid c then Some (False, s\<lparr> cs_client := c \<rparr>)
         else do {
           (done, resp, member_id, c1) \<leftarrow> join_exchange net a group_id topic_name (cs_member_id s) c;
           let s1 = s\<lparr> cs_client := c1, cs_member_id := member_id \<rparr>;
           if \<not> done then Some (False, s1)
           else case decode_JoinGroupResponse (make_BodyReader (fr_body resp)) of
               None \<Rightarrow> Some (False, s1)
             | Some m \<Rightarrow> do {
                 (good, s2) \<leftarrow> start_positions net a group_id topic_name
                    (s1\<lparr> cs_member_id := js_member_id m, cs_generation := js_generation m,
                        cs_heartbeat_interval_ms := js_heartbeat_interval_ms m, cs_assignments := js_assignments m,
                        cs_positions := Map.empty, cs_uncommitted := [], cs_since_commit := 0 \<rparr>);
                 if \<not> good then Some (False, s2)
                 else let (t1, s3) = read_clock env s2; (t2, s4) = read_clock env s3
                   in Some (True, s4\<lparr> cs_last_heartbeat := t1, cs_last_record := t2 \<rparr>)
               }
         })"

section \<open>Committing and heartbeats\<close>

definition fenced :: "Frame \<Rightarrow> bool" where
  "fenced resp \<longleftrightarrow> error_code resp = ILLEGAL_GENERATION \<or> error_code resp = UNKNOWN_GROUP_OR_MEMBER"

definition commit_request :: "string \<Rightarrow> string \<Rightarrow> 'w Consumer \<Rightarrow> CommitOffsetRequest" where
  "commit_request group_id topic_name s =
     \<lparr> cq_group_id = group_id, cq_member_id = cs_member_id s, cq_generation = cs_generation s,
        cq_count = of_nat (length (cs_uncommitted s)),
        cq_entries = map (\<lambda>(p, o'). \<lparr> ci_topic = topic_name, ci_partition = p, ci_offset = o' \<rparr>) (cs_uncommitted s) \<rparr>"

definition do_commit :: "'w Net \<Rightarrow> string \<Rightarrow> string \<Rightarrow> 'w Consumer \<Rightarrow> (int \<times> 'w Consumer) option" where
  "do_commit net group_id topic_name s =
     (if cs_uncommitted s = [] then Some (0, s)
      else let (req, c1) = next_request COMMIT_OFFSET (encode_CommitOffsetRequest (commit_request group_id topic_name s) []) (cs_client s)
        in do {
          (done, resp, c2) \<leftarrow> client_exchange net req default_Frame c1;
          if \<not> done then Some (15, s\<lparr> cs_client := client_close c2 \<rparr>)
          else if fr_type resp = MSG_ERROR then Some (if fenced resp then 15 else - 1, s\<lparr> cs_client := c2 \<rparr>)
          else Some (0, s\<lparr> cs_client := c2, cs_since_commit := 0, cs_uncommitted := [] \<rparr>)
        })"

definition do_heartbeat :: "'w Net \<Rightarrow> Surroundings \<Rightarrow> string \<Rightarrow> 'w Consumer \<Rightarrow> (int \<times> 'w Consumer) option" where
  "do_heartbeat net env group_id s =
     (let (req, c1) = next_request HEARTBEAT (encode_HeartbeatRequest
            \<lparr> hq_group_id = group_id, hq_member_id = cs_member_id s, hq_generation = cs_generation s \<rparr> []) (cs_client s)
      in do {
        (done, resp, c2) \<leftarrow> client_exchange net req default_Frame c1;
        if \<not> done then Some (15, s\<lparr> cs_client := client_close c2 \<rparr>)
        else if fr_type resp = MSG_ERROR then Some (if fenced resp then 15 else - 1, s\<lparr> cs_client := c2 \<rparr>)
        else let (t, s1) = read_clock env (s\<lparr> cs_client := c2 \<rparr>) in Some (0, s1\<lparr> cs_last_heartbeat := t \<rparr>)
      })"

section \<open>A round over the partitions\<close>

definition enough_records :: "CliArgs \<Rightarrow> 'w Consumer \<Rightarrow> bool" where
  "enough_records a s \<longleftrightarrow> ca_max_records a > 0 \<and> cs_total s \<ge> ca_max_records a"

definition add_event :: "client_event \<Rightarrow> 'w Consumer \<Rightarrow> 'w Consumer" where
  "add_event e s = s\<lparr> cs_client := (cs_client s)\<lparr> cl_log := cl_log (cs_client s) @ [e] \<rparr> \<rparr>"

definition move_to :: "u16 \<Rightarrow> u64 \<Rightarrow> 'w Consumer \<Rightarrow> 'w Consumer" where
  "move_to p o' s = s\<lparr> cs_uncommitted := ordered_put p o' (cs_uncommitted s), cs_positions := (cs_positions s)(p \<mapsto> o') \<rparr>"

definition show_one :: "TopicPartitionWire \<Rightarrow> FetchRecordWire \<Rightarrow> 'w Consumer \<Rightarrow> 'w Consumer" where
  "show_one asg r s =
     (let s1 = add_event (ShowedRecord (tp_topic asg) (tp_partition asg) r) s
      in move_to (tp_partition asg) (frw_offset r + 1) (s1\<lparr> cs_total := cs_total s + 1, cs_since_commit := cs_since_commit s + 1 \<rparr>))"

text \<open>The records of a reply; \<open>True\<close> when the run ends here without any farewell.\<close>

fun show_batch :: "CliArgs \<Rightarrow> TopicPartitionWire \<Rightarrow> FetchRecordWire list \<Rightarrow> 'w Consumer \<Rightarrow> bool \<times> 'w Consumer" where
  "show_batch a asg [] s = (False, s)"
| "show_batch a asg (r # rs) s =
     (let s1 = show_one asg r s
      in if ca_crash_after a > 0 \<and> cs_total s1 \<ge> ca_crash_after a then (True, s1)
         else if enough_records a s1 then (False, s1)
         else show_batch a asg rs s1)"

datatype visit_end = NextPartition | RoundOver | ProcessGone

definition visit_done :: "CliArgs \<Rightarrow> 'w Consumer \<Rightarrow> visit_end \<times> 'w Consumer" where
  "visit_done a s = (if enough_records a s then RoundOver else NextPartition, s)"

text \<open>A join whose result is not looked at.\<close>

definition rejoin ::
  "'w Net \<Rightarrow> Surroundings \<Rightarrow> CliArgs \<Rightarrow> string \<Rightarrow> string \<Rightarrow> 'w Consumer \<Rightarrow> (visit_end \<times> 'w Consumer) option" where
  "rejoin net env a group_id topic_name s = map_option (\<lambda>(_, s1). (RoundOver, s1)) (do_join net env a group_id topic_name s)"

definition take_records ::
  "'w Net \<Rightarrow> Surroundings \<Rightarrow> CliArgs \<Rightarrow> string \<Rightarrow> string \<Rightarrow> TopicPartitionWire \<Rightarrow> FetchRecordWire list \<Rightarrow> 'w Consumer \<Rightarrow>
     (visit_end \<times> 'w Consumer) option" where
  "take_records net env a group_id topic_name asg rs s =
     (if rs = [] then Some (visit_done a s)
      else let (t, s1) = read_clock env s; (gone, s2) = show_batch a asg rs (s1\<lparr> cs_last_record := t \<rparr>)
        in if gone then Some (ProcessGone, s2)
           else if cs_since_commit s2 \<ge> ca_commit_every a then
             do {
               (cr, s3) \<leftarrow> do_commit net group_id topic_name s2;
               if cr = 15 then rejoin net env a group_id topic_name s3 else Some (visit_done a s3)
             }
           else Some (visit_done a s2))"

definition reset_after_retention ::
  "'w Net \<Rightarrow> CliArgs \<Rightarrow> TopicPartitionWire \<Rightarrow> 'w Consumer \<Rightarrow> (visit_end \<times> 'w Consumer) option" where
  "reset_after_retention net a asg s = do {
     (r, c1) \<leftarrow> describe_topic net (tp_topic asg) (cs_client s);
     let s1 = s\<lparr> cs_client := c1 \<rparr>;
     case offsets_at r (tp_partition asg) of
       None \<Rightarrow> Some (visit_done a s1)
     | Some po \<Rightarrow> Some (NextPartition, move_to (tp_partition asg) (po_earliest po)
                         (add_event (ShowedReset (tp_partition asg) (po_earliest po)) s1))
   }"

definition position_of :: "u16 \<Rightarrow> 'w Consumer \<Rightarrow> u64" where
  "position_of p s = (case cs_positions s p of None \<Rightarrow> 0 | Some o' \<Rightarrow> o')"

text \<open>What is done with the reply to a fetch, if there is one.\<close>

definition visit_reply ::
  "'w Net \<Rightarrow> Surroundings \<Rightarrow> CliArgs \<Rightarrow> string \<Rightarrow> string \<Rightarrow> TopicPartitionWire \<Rightarrow> bool \<Rightarrow> Frame \<Rightarrow> 'w Consumer \<Rightarrow>
     (visit_end \<times> 'w Consumer) option" where
  "visit_reply net env a group_id topic_name asg got resp s =
     (if \<not> got then rejoin net env a group_id topic_name (s\<lparr> cs_client := client_close (cs_client s) \<rparr>)
      else if fr_type resp = MSG_ERROR \<and> fenced resp then rejoin net env a group_id topic_name s
      else if fr_type resp = MSG_ERROR \<and> error_code resp = OFFSET_OUT_OF_RANGE then reset_after_retention net a asg s
      else if fr_type resp = FETCH_OK then
        (case decode_FetchResponse (make_BodyReader (fr_body resp)) of
           None \<Rightarrow> Some (RoundOver, s)
         | Some m \<Rightarrow> take_records net env a group_id topic_name asg (fs_records m) s)
      else Some (visit_done a s))"

definition visit_partition ::
  "'w Net \<Rightarrow> Surroundings \<Rightarrow> CliArgs \<Rightarrow> string \<Rightarrow> string \<Rightarrow> TopicPartitionWire \<Rightarrow> 'w Consumer \<Rightarrow> (visit_end \<times> 'w Consumer) option" where
  "visit_partition net env a group_id topic_name asg s =
     (let (stop, s0) = read_stop env s; p = tp_partition asg; cur_pos = position_of p s0
      in if stop then Some (RoundOver, s0)
         else let (req, c1) = next_request FETCH (encode_FetchRequest \<lparr> fq_topic = tp_topic asg, fq_partition = p, fq_start_offset = cur_pos,
                    fq_max_bytes = ca_max_bytes a, fq_max_messages = ca_max_messages_per_fetch a \<rparr> []) (cs_client s0)
           in do {
             (got, resp, c2) \<leftarrow> client_exchange net req default_Frame c1;
             visit_reply net env a group_id topic_name asg got resp
               (s0\<lparr> cs_client := c2, cs_positions := (cs_positions s0)(p \<mapsto> cur_pos) \<rparr>)
           })"

fun visit_partitions ::
  "'w Net \<Rightarrow> Surroundings \<Rightarrow> CliArgs \<Rightarrow> string \<Rightarrow> string \<Rightarrow> TopicPartitionWire list \<Rightarrow> 'w Consumer \<Rightarrow> (bool \<times> 'w Consumer) option" where
  "visit_partitions net env a group_id topic_name [] s = Some (False, s)"
| "visit_partitions net env a group_id topic_name (asg # asgs) s = do {
     (e, s1) \<leftarrow> visit_partition net env a group_id topic_name asg s;
     case e of
       NextPartition \<Rightarrow> visit_partitions net env a group_id topic_name asgs s1
     | RoundOver \<Rightarrow> Some (False, s1)
     | ProcessGone \<Rightarrow> Some (True, s1)
   }"

section \<open>The main loop\<close>

datatype pass_end = GoOn | LoopOver | CrashExit

definition idle_too_long :: "CliArgs \<Rightarrow> int \<Rightarrow> 'w Consumer \<Rightarrow> bool" where
  "idle_too_long a now s \<longleftrightarrow>
     ca_idle_exit_ms a > 0 \<and> (of_int (duration_ms (now - cs_last_record s)) :: u64) \<ge> ca_idle_exit_ms a"

definition heartbeat_due :: "int \<Rightarrow> 'w Consumer \<Rightarrow> bool" where
  "heartbeat_due now s \<longleftrightarrow> (of_int (duration_ms (now - cs_last_heartbeat s)) :: u32) \<ge> cs_heartbeat_interval_ms s"

definition consume_round ::
  "'w Net \<Rightarrow> Surroundings \<Rightarrow> CliArgs \<Rightarrow> string \<Rightarrow> string \<Rightarrow> 'w Consumer \<Rightarrow> (pass_end \<times> 'w Consumer) option" where
  "consume_round net env a group_id topic_name s =
     (if cs_assignments s = [] then Some (GoOn, s)
      else map_option (\<lambda>(gone, s1). (if gone then CrashExit else GoOn, s1))
             (visit_partitions net env a group_id topic_name (cs_assignments s) s))"

definition consume_pass ::
  "'w Net \<Rightarrow> Surroundings \<Rightarrow> CliArgs \<Rightarrow> string \<Rightarrow> string \<Rightarrow> 'w Consumer \<Rightarrow> (pass_end \<times> 'w Consumer) option" where
  "consume_pass net env a group_id topic_name s =
     (let (stop, s0) = read_stop env s
      in if stop \<or> enough_records a s0 then Some (LoopOver, s0)
         else let (now, s1) = read_clock env s0
           in if idle_too_long a now s1 then Some (LoopOver, s1)
              else if heartbeat_due now s1 then
                do {
                  (hb_res, s2) \<leftarrow> do_heartbeat net env group_id s1;
                  if hb_res = 15 then
                    map_option (\<lambda>(joined, s3). (if joined then GoOn else LoopOver, s3)) (do_join net env a group_id topic_name s2)
                  else if hb_res < 0 then Some (LoopOver, s2)
                  else consume_round net env a group_id topic_name s2
                }
              else consume_round net env a group_id topic_name s1)"

partial_function (option) consume_group_loop ::
  "'w Net \<Rightarrow> Surroundings \<Rightarrow> CliArgs \<Rightarrow> string \<Rightarrow> string \<Rightarrow> 'w Consumer \<Rightarrow> (pass_end \<times> 'w Consumer) option" where
  "consume_group_loop net env a group_id topic_name s = do {
     (e, s1) \<leftarrow> consume_pass net env a group_id topic_name s;
     if e = GoOn then consume_group_loop net env a group_id topic_name s1 else Some (e, s1)
   }"

text \<open>The end of an orderly run.\<close>

definition leave :: "'w Net \<Rightarrow> string \<Rightarrow> string \<Rightarrow> 'w Consumer \<Rightarrow> 'w Consumer option" where
  "leave net group_id topic_name s = do {
     (_, s1) \<leftarrow> do_commit net group_id topic_name s;
     if cs_member_id s1 = [] then Some s1
     else do {
       (_, c1) \<leftarrow> rpc net LEAVE_GROUP (encode_LeaveGroupRequest \<lparr> lq_group_id = group_id, lq_member_id = cs_member_id s1 \<rparr> []) (cs_client s1);
       Some (s1\<lparr> cs_client := c1 \<rparr>)
     }
   }"

definition cmd_consume_group :: "'w Net \<Rightarrow> Surroundings \<Rightarrow> CliArgs \<Rightarrow> 'w Client \<Rightarrow> 'w outcome" where
  "cmd_consume_group net env a c =
     (case ca_args a of
        group_id # topic_name # _ \<Rightarrow> do {
          (joined, s) \<leftarrow> do_join net env a group_id topic_name (initial_consumer env a c);
          if \<not> joined then failed (cs_client s)
          else do {
            (e, s1) \<leftarrow> consume_group_loop net env a group_id topic_name s;
            if e = CrashExit then Some (0, NoOutput, cs_client s1)
            else do { s2 \<leftarrow> leave net group_id topic_name s1; Some (0, NoOutput, cs_client s2) }
          }
        }
      | _ \<Rightarrow> failed c)"

text \<open>The runs of the command, pass by pass, also those that never end.\<close>

inductive consumer_run :: "'w Net \<Rightarrow> Surroundings \<Rightarrow> CliArgs \<Rightarrow> string \<Rightarrow> string \<Rightarrow> 'w Client \<Rightarrow> 'w Consumer \<Rightarrow> bool"
  for net env a group_id topic_name c where
  run_join: "do_join net env a group_id topic_name (initial_consumer env a c) = Some (joined, s) \<Longrightarrow> consumer_run net env a group_id topic_name c s"
| run_pass: "consumer_run net env a group_id topic_name c s \<Longrightarrow> consume_pass net env a group_id topic_name s = Some (e, s1) \<Longrightarrow>
    consumer_run net env a group_id topic_name c s1"
| run_leave: "consumer_run net env a group_id topic_name c s \<Longrightarrow> leave net group_id topic_name s = Some s1 \<Longrightarrow>
    consumer_run net env a group_id topic_name c s1"

end
