(* ===== verification/Spec2Isabelle.thy ===== *)
theory Spec2Isabelle
  imports CrashRecovery FrameAssembler MessageLaws Partitioner BrokerLaws OffsetDurability ServerFaults ServerLoop ProduceFetch RetentionManager Connection TopicLaws ClientCommands ConsumeGroup
begin

text \<open>
  StreamForge is a partitioned commit-log broker in C++17 (\<^verbatim>\<open>src/src\<close>,
  \<^verbatim>\<open>src/include/streamforge\<close>). This development models it bottom-up.

  \<^item> \<^verbatim>\<open>Prelude\<close>: machine types, raw memory, decimal numerals.
  \<^item> \<^verbatim>\<open>Crc32\<close>, \<^verbatim>\<open>ByteOrder\<close>, \<^verbatim>\<open>Status\<close>, \<^verbatim>\<open>RecordCodec\<close>: the record format on disk.
  \<^item> \<^verbatim>\<open>FileHandle\<close>, \<^verbatim>\<open>OffsetIndex\<close>: the file system and the sparse index.
\<close>

end
